(* ===== verification/Go_Prelude.thy ===== *)
theory Go_Prelude
  imports Main "HOL-Library.Word" "HOL-Library.Monad_Syntax" "HOL-Library.Signed_Division"
begin

text \<open>
  The part of the Go language and of its standard library that every component of the
  model shares.

  Machine integers are words of their width (\<open>uint\<close> and \<open>int64\<close> values are 64 bit).  A slice
  is a list, and a slice expression past the length is a run-time panic here, as it is in Go when the slice has
  no spare capacity (the lemmas of the components show that the slice expressions which they evaluate on their own
  slices stay within the length).  Where the capacity of a slice of the caller shows, in the byte writes
  of the client, the slice is the prefix of an array (\<open>byte_slice\<close> in \<open>Client\<close>).

  A Go function that can panic or loop forever returns an \<open>option\<close>: \<open>None\<close> stands for
  "does not return normally".  Go's explicit error results are values of the sum type
  \<open>go_error + 'a\<close>, so that every early return of the source is a branch of the model.
\<close>

section \<open>Types\<close>

type_synonym byte = "8 word"
type_synonym uint8 = "8 word"
type_synonym uint16 = "16 word"
type_synonym uint32 = "32 word"
type_synonym uint64 = "64 word"
type_synonym uint = "64 word"

text \<open>
  \<open>Error\<close> of modbus.go and its constants, the one formatted error of
  \<open>mapExceptionCodeToError\<close>, and the errors of the standard library and of the operating
  system that the code compares with or passes on.
\<close>

datatype go_error =
    ErrConfigurationError
  | ErrRequestTimedOut
  | ErrIllegalFunction
  | ErrIllegalDataAddress
  | ErrIllegalDataValue
  | ErrServerDeviceFailure
  | ErrAcknowledge
  | ErrServerDeviceBusy
  | ErrMemoryParityError
  | ErrGWPathUnavailable
  | ErrGWTargetFailedToRespond
  | ErrBadCRC
  | ErrShortFrame
  | ErrProtocolError
  | ErrBadUnitId
  | ErrBadTransactionId
  | ErrUnknownProtocolId
  | ErrUnexpectedParameters
  | UnknownExceptionCode uint8
  | EOF
  | ErrUnexpectedEOF
  | ErrDeadlineExceeded
  | ErrNetClosed
  | SerialErrTimeout
  | OtherError string

type_synonym 'a result = "go_error + 'a"

abbreviation Err :: "go_error \<Rightarrow> 'a result" where
  "Err \<equiv> Inl"

abbreviation Ok :: "'a \<Rightarrow> 'a result" where
  "Ok \<equiv> Inr"

section \<open>Slices\<close>

text \<open>\<open>xs[i]\<close> and \<open>xs[i:j]\<close>: out of range is a panic.\<close>

definition go_index :: "'a list \<Rightarrow> nat \<Rightarrow> 'a option" where
  "go_index xs i = (if i < length xs then Some (xs ! i) else None)"

definition go_slice :: "'a list \<Rightarrow> nat \<Rightarrow> nat \<Rightarrow> 'a list option" where
  "go_slice xs i j = (if i \<le> j \<and> j \<le> length xs then Some (take (j - i) (drop i xs)) else None)"

named_theorems go_simps \<open>evaluation of slice and index expressions\<close>

lemma go_index_in [go_simps]: "i < length xs \<Longrightarrow> go_index xs i = Some (xs ! i)"
  by (simp add: go_index_def)

lemma go_slice_in [go_simps]:
  "i \<le> j \<Longrightarrow> j \<le> length xs \<Longrightarrow> go_slice xs i j = Some (take (j - i) (drop i xs))"
  by (simp add: go_slice_def)

lemma go_index_None_iff: "go_index xs i = None \<longleftrightarrow> length xs \<le> i"
  by (auto simp: go_index_def)

lemma go_slice_length: "go_slice xs i j = Some ys \<Longrightarrow> length ys = j - i"
  by (auto simp: go_slice_def split: if_splits)

section \<open>Lists\<close>

lemma list2E:
  assumes "length xs = 2"
  obtains a b where "xs = [a, b]"
  using assms by (auto simp: numeral_eq_Suc length_Suc_conv)

lemma list4E:
  assumes "length xs = 4"
  obtains a b c d where "xs = [a, b, c, d]"
  using assms by (auto simp: numeral_eq_Suc length_Suc_conv)

lemma list6E:
  assumes "length xs = 6"
  obtains a b c d e f where "xs = [a, b, c, d, e, f]"
  using assms by (auto simp: numeral_eq_Suc length_Suc_conv)

lemma list7E:
  assumes "length xs = 7"
  obtains a b c d e f g where "xs = [a, b, c, d, e, f, g]"
  using assms by (auto simp: numeral_eq_Suc length_Suc_conv)

lemma list8E:
  assumes "length xs = 8"
  obtains a b c d e f g h where "xs = [a, b, c, d, e, f, g, h]"
  using assms by (auto simp: numeral_eq_Suc length_Suc_conv)

lemma take_append_length [simp]: "n = length xs \<Longrightarrow> take n (xs @ ys) = xs"
  by simp

lemma length_ge_Suc: "Suc n \<le> length xs \<Longrightarrow> \<exists>x ys. xs = x # ys \<and> n \<le> length ys"
  by (cases xs) auto

lemma those_map_Some [simp]: "those (map (\<lambda>x. Some (f x)) xs) = Some (map f xs)"
  by (induction xs) auto

lemma those_Some_iff: "those xs = Some ys \<longleftrightarrow> xs = map Some ys"
proof (induction xs arbitrary: ys)
  case Nil
  then show ?case by auto
next
  case (Cons x xs)
  then show ?case by (cases ys) (auto split: option.splits)
qed

lemma those_map_cong:
  "(\<And>x. x \<in> set xs \<Longrightarrow> g x = Some (f x)) \<Longrightarrow> those (map g xs) = Some (map f xs)"
  by (induction xs) auto

lemma bind_Some_map [simp]: "Option.bind x (\<lambda>v. Some (f v)) = map_option f x"
  by (cases x) simp_all

section \<open>Words\<close>

lemma bit_byteD: "bit (b :: byte) n \<Longrightarrow> n < 8"
  using bit_imp_le_length [of b n] by simp

lemma bit_uint16D: "bit (w :: uint16) n \<Longrightarrow> n < 16"
  using bit_imp_le_length [of w n] by simp

lemma xor_cancel_right [simp]: "xor x z = xor y z \<longleftrightarrow> x = (y :: 'a::len word)"
  by (metis xor.assoc xor_self_eq xor.right_neutral)

lemma xor_cancel_left [simp]: "xor z x = xor z y \<longleftrightarrow> x = (y :: 'a::len word)"
  by (simp add: xor.commute [of z])

lemma xor_zero_iff: "xor x y = 0 \<longleftrightarrow> x = (y :: 'a::len word)"
  using xor_cancel_right [of x y y] by simp

lemma unat_of_nat_eq: "n < 2 ^ LENGTH('a) \<Longrightarrow> unat (of_nat n :: 'a::len word) = n"
  by (simp add: unat_of_nat take_bit_nat_eq_self)

lemma unat_ucast_up: "LENGTH('a::len) \<le> LENGTH('b::len) \<Longrightarrow> unat (ucast (w :: 'a word) :: 'b word) = unat w"
  by (simp add: unsigned_ucast_eq take_bit_nat_eq_self unsigned_less order_less_le_trans [OF unsigned_less])

section \<open>encoding/binary: byte orders\<close>

text \<open>
  \<open>binary.LittleEndian.PutUintN\<close> and \<open>UintN\<close> store and read the bytes of a word from the least
  significant one, \<open>binary.BigEndian\<close> from the most significant one.
\<close>

fun le_bytes :: "nat \<Rightarrow> 'a::len word \<Rightarrow> byte list" where
  "le_bytes 0 v = []"
| "le_bytes (Suc n) v = ucast v # le_bytes n (drop_bit 8 v)"

fun le_word :: "byte list \<Rightarrow> 'a::len word" where
  "le_word [] = 0"
| "le_word (b # bs) = or (ucast b) (push_bit 8 (le_word bs))"

definition be_bytes :: "nat \<Rightarrow> 'a::len word \<Rightarrow> byte list" where
  "be_bytes n v = rev (le_bytes n v)"

definition be_word :: "byte list \<Rightarrow> 'a::len word" where
  "be_word bs = le_word (rev bs)"

lemma length_le_bytes [simp]: "length (le_bytes n v) = n"
  by (induction n arbitrary: v) auto

lemma length_be_bytes [simp]: "length (be_bytes n v) = n"
  by (simp add: be_bytes_def)

lemma le_word_le_bytes: "le_word (le_bytes n v) = take_bit (8 * n) (v :: 'a::len word)"
proof (induction n arbitrary: v)
  case 0
  then show ?case by simp
next
  case (Suc n)
  show ?case
    by (rule bit_word_eqI) (auto simp: Suc.IH bit_simps not_less le_less_Suc_eq)
qed

lemma le_bytes_cong:
  "(\<And>i. i < 8 * n \<Longrightarrow> bit v i = bit w i) \<Longrightarrow> le_bytes n v = le_bytes n (w :: 'a::len word)"
proof (induction n arbitrary: v w)
  case 0
  then show ?case by simp
next
  case (Suc n)
  have "ucast v = (ucast w :: byte)"
    using Suc.prems by (intro bit_word_eqI) (auto simp: bit_simps)
  moreover have "le_bytes n (drop_bit 8 v) = le_bytes n (drop_bit 8 w)"
    using Suc.prems by (intro Suc.IH) (simp add: bit_simps)
  ultimately show ?case by simp
qed

lemma le_bytes_le_word:
  "8 * length bs \<le> LENGTH('a::len) \<Longrightarrow> le_bytes (length bs) (le_word bs :: 'a word) = bs"
proof (induction bs)
  case Nil
  then show ?case by simp
next
  case (Cons b bs)
  let ?w = "le_word bs :: 'a word"
  have low: "(ucast (or (ucast b) (push_bit 8 ?w)) :: byte) = b"
    using Cons.prems by (intro bit_word_eqI) (auto simp: bit_simps)
  have "le_bytes (length bs) (drop_bit 8 (or (ucast b) (push_bit 8 ?w))) = le_bytes (length bs) ?w"
    using Cons.prems by (intro le_bytes_cong) (auto simp: bit_simps dest: bit_imp_le_length)
  with Cons low show ?case by simp
qed

lemma le_bytes_le_word_n:
  "length bs = n \<Longrightarrow> 8 * n \<le> LENGTH('a::len) \<Longrightarrow> le_bytes n (le_word bs :: 'a word) = bs"
  using le_bytes_le_word [where 'a = 'a, of bs] by simp

lemma be_word_be_bytes: "be_word (be_bytes n v) = take_bit (8 * n) (v :: 'a::len word)"
  by (simp add: be_word_def be_bytes_def le_word_le_bytes)

lemma be_bytes_be_word:
  "8 * length bs \<le> LENGTH('a::len) \<Longrightarrow> be_bytes (length bs) (be_word bs :: 'a word) = bs"
  using le_bytes_le_word [where 'a = 'a, of "rev bs"] by (simp add: be_word_def be_bytes_def)

lemma be_bytes_be_word_n:
  "length bs = n \<Longrightarrow> 8 * n \<le> LENGTH('a::len) \<Longrightarrow> be_bytes n (be_word bs :: 'a word) = bs"
  using be_bytes_be_word [where 'a = 'a, of bs] by simp

lemma le_word_le_bytes_id: "LENGTH('a) \<le> 8 * n \<Longrightarrow> le_word (le_bytes n v) = (v :: 'a::len word)"
  by (simp add: le_word_le_bytes take_bit_word_eq_self)

lemma be_word_be_bytes_id: "LENGTH('a) \<le> 8 * n \<Longrightarrow> be_word (be_bytes n v) = (v :: 'a::len word)"
  by (simp add: be_word_be_bytes take_bit_word_eq_self)

text \<open>The two-byte case the frame headers use, by its bytes.\<close>

lemma le_bytes_2: "le_bytes 2 v = [ucast v, ucast (drop_bit 8 v)]"
  by (simp add: numeral_2_eq_2)

lemma be_bytes_2: "be_bytes 2 v = [ucast (drop_bit 8 v), ucast v]"
  by (simp add: be_bytes_def le_bytes_2)

lemma le_word_inj:
  assumes "length xs = length ys" and "8 * length xs \<le> LENGTH('a::len)"
    and "le_word xs = (le_word ys :: 'a word)"
  shows "xs = ys"
proof -
  have "xs = le_bytes (length xs) (le_word xs :: 'a word)"
    using assms(2) by (simp add: le_bytes_le_word)
  also have "\<dots> = le_bytes (length ys) (le_word ys :: 'a word)"
    by (simp only: assms(1,3))
  also have "\<dots> = ys"
    using assms(1,2) by (simp add: le_bytes_le_word)
  finally show ?thesis .
qed

declare le_word.simps [simp del] le_bytes.simps [simp del]

lemmas byte_order_eval = le_word.simps le_bytes.simps le_bytes_2 be_bytes_2 be_word_def

end
