(* ===== verification/Encoding.thy ===== *)
theory Encoding
  imports Go_Prelude
begin

text \<open>
  internal/modbus/encoding.go: words, floats and coils as bytes.  \<open>Endianness\<close> and
  \<open>WordOrder\<close> are unsigned integers with two named values each; the code leaves every other
  value to the zero value of its result, and so do these definitions.
\<close>

section \<open>Byte and word orders\<close>

type_synonym endianness = uint
type_synonym word_order = uint

abbreviation BIG_ENDIAN :: endianness where "BIG_ENDIAN \<equiv> 1"
abbreviation LITTLE_ENDIAN :: endianness where "LITTLE_ENDIAN \<equiv> 2"
abbreviation HIGH_WORD_FIRST :: word_order where "HIGH_WORD_FIRST \<equiv> 1"
abbreviation LOW_WORD_FIRST :: word_order where "LOW_WORD_FIRST \<equiv> 2"

text \<open>A float is its IEEE 754 bit pattern; \<open>math.Float32bits\<close> and its kin are the selector
  and the constructor.\<close>

datatype float32 = Float32frombits (Float32bits: uint32)
datatype float64 = Float64frombits (Float64bits: uint64)

section \<open>16-bit registers\<close>

definition uint16ToBytes :: "endianness \<Rightarrow> uint16 \<Rightarrow> byte list" where
  "uint16ToBytes endianness v =
     (if endianness = BIG_ENDIAN then be_bytes 2 v
      else if endianness = LITTLE_ENDIAN then le_bytes 2 v
      else [0, 0])"

fun uint16sToBytes :: "endianness \<Rightarrow> uint16 list \<Rightarrow> byte list" where
  "uint16sToBytes endianness [] = []"
| "uint16sToBytes endianness (v # vs) = uint16ToBytes endianness v @ uint16sToBytes endianness vs"

text \<open>\<open>binary.BigEndian.Uint16(b)\<close> panics unless \<open>b\<close> has two bytes, and reads the first two.\<close>

definition bytesToUint16 :: "endianness \<Rightarrow> byte list \<Rightarrow> uint16 option" where
  "bytesToUint16 endianness bs =
     (if endianness = BIG_ENDIAN then do { b \<leftarrow> go_slice bs 0 2; Some (be_word b) }
      else if endianness = LITTLE_ENDIAN then do { b \<leftarrow> go_slice bs 0 2; Some (le_word b) }
      else Some 0)"

text \<open>The loop advances by two bytes and slices \<open>in[i:i+2]\<close>: a single trailing byte panics.\<close>

fun bytesToUint16s :: "endianness \<Rightarrow> byte list \<Rightarrow> uint16 list option" where
  "bytesToUint16s endianness [] = Some []"
| "bytesToUint16s endianness [b] = None"
| "bytesToUint16s endianness (b # b' # bs) = do {
     v \<leftarrow> bytesToUint16 endianness [b, b'];
     vs \<leftarrow> bytesToUint16s endianness bs;
     Some (v # vs) }"

section \<open>32-bit registers\<close>

definition uint32ToBytes :: "endianness \<Rightarrow> word_order \<Rightarrow> uint32 \<Rightarrow> byte list" where
  "uint32ToBytes endianness wordOrder v =
     (if endianness = BIG_ENDIAN then
        let out = be_bytes 4 v in
        if wordOrder = LOW_WORD_FIRST then [out ! 2, out ! 3, out ! 0, out ! 1] else out
      else if endianness = LITTLE_ENDIAN then
        let out = le_bytes 4 v in
        if wordOrder = HIGH_WORD_FIRST then [out ! 2, out ! 3, out ! 0, out ! 1] else out
      else [0, 0, 0, 0])"

text \<open>One turn of the loop of \<open>bytesToUint32s\<close>, on the four bytes at \<open>in[i]\<close>.\<close>

definition bytesToUint32 :: "endianness \<Rightarrow> word_order \<Rightarrow> byte list \<Rightarrow> uint32" where
  "bytesToUint32 endianness wordOrder q =
     (if endianness = BIG_ENDIAN then
        (if wordOrder = HIGH_WORD_FIRST then be_word q
         else be_word [q ! 2, q ! 3, q ! 0, q ! 1])
      else if endianness = LITTLE_ENDIAN then
        (if wordOrder = LOW_WORD_FIRST then le_word q
         else le_word [q ! 2, q ! 3, q ! 0, q ! 1])
      else 0)"

text \<open>With an unknown byte order the loop reads nothing, so it never panics.\<close>

fun bytesToUint32s :: "endianness \<Rightarrow> word_order \<Rightarrow> byte list \<Rightarrow> uint32 list option" where
  "bytesToUint32s endianness wordOrder [] = Some []"
| "bytesToUint32s endianness wordOrder (b # bs) =
     (if length (b # bs) < 4 \<and> (endianness = BIG_ENDIAN \<or> endianness = LITTLE_ENDIAN) then None
      else do {
        vs \<leftarrow> bytesToUint32s endianness wordOrder (drop 4 (b # bs));
        Some (bytesToUint32 endianness wordOrder (take 4 (b # bs)) # vs) })"

definition bytesToFloat32s :: "endianness \<Rightarrow> word_order \<Rightarrow> byte list \<Rightarrow> float32 list option" where
  "bytesToFloat32s endianness wordOrder bs = do {
     u32s \<leftarrow> bytesToUint32s endianness wordOrder bs;
     Some (map Float32frombits u32s) }"

definition float32ToBytes :: "endianness \<Rightarrow> word_order \<Rightarrow> float32 \<Rightarrow> byte list" where
  "float32ToBytes endianness wordOrder v = uint32ToBytes endianness wordOrder (Float32bits v)"

section \<open>64-bit registers\<close>

definition uint64ToBytes :: "endianness \<Rightarrow> word_order \<Rightarrow> uint64 \<Rightarrow> byte list" where
  "uint64ToBytes endianness wordOrder v =
     (if endianness = BIG_ENDIAN then
        let out = be_bytes 8 v in
        if wordOrder = LOW_WORD_FIRST
        then [out ! 6, out ! 7, out ! 4, out ! 5, out ! 2, out ! 3, out ! 0, out ! 1] else out
      else if endianness = LITTLE_ENDIAN then
        let out = le_bytes 8 v in
        if wordOrder = HIGH_WORD_FIRST
        then [out ! 6, out ! 7, out ! 4, out ! 5, out ! 2, out ! 3, out ! 0, out ! 1] else out
      else replicate 8 0)"

definition bytesToUint64 :: "endianness \<Rightarrow> word_order \<Rightarrow> byte list \<Rightarrow> uint64" where
  "bytesToUint64 endianness wordOrder q =
     (if endianness = BIG_ENDIAN then
        (if wordOrder = HIGH_WORD_FIRST then be_word q
         else be_word [q ! 6, q ! 7, q ! 4, q ! 5, q ! 2, q ! 3, q ! 0, q ! 1])
      else if endianness = LITTLE_ENDIAN then
        (if wordOrder = LOW_WORD_FIRST then le_word q
         else le_word [q ! 6, q ! 7, q ! 4, q ! 5, q ! 2, q ! 3, q ! 0, q ! 1])
      else 0)"

fun bytesToUint64s :: "endianness \<Rightarrow> word_order \<Rightarrow> byte list \<Rightarrow> uint64 list option" where
  "bytesToUint64s endianness wordOrder [] = Some []"
| "bytesToUint64s endianness wordOrder (b # bs) =
     (if length (b # bs) < 8 \<and> (endianness = BIG_ENDIAN \<or> endianness = LITTLE_ENDIAN) then None
      else do {
        vs \<leftarrow> bytesToUint64s endianness wordOrder (drop 8 (b # bs));
        Some (bytesToUint64 endianness wordOrder (take 8 (b # bs)) # vs) })"

definition bytesToFloat64s :: "endianness \<Rightarrow> word_order \<Rightarrow> byte list \<Rightarrow> float64 list option" where
  "bytesToFloat64s endianness wordOrder bs = do {
     u64s \<leftarrow> bytesToUint64s endianness wordOrder bs;
     Some (map Float64frombits u64s) }"

definition float64ToBytes :: "endianness \<Rightarrow> word_order \<Rightarrow> float64 \<Rightarrow> byte list" where
  "float64ToBytes endianness wordOrder v = uint64ToBytes endianness wordOrder (Float64bits v)"

section \<open>Coils and discrete inputs\<close>

text \<open>The byte count of \<open>n\<close> coils, computed in several places of the code.\<close>

definition boolByteCount :: "nat \<Rightarrow> nat" where
  "boolByteCount n = n div 8 + (if n mod 8 \<noteq> 0 then 1 else 0)"

definition setCoilBit :: "bool list \<Rightarrow> nat \<Rightarrow> byte list \<Rightarrow> byte list" where
  "setCoilBit bs i out =
     (if bs ! i then out[i div 8 := or (out ! (i div 8)) (push_bit (i mod 8) 1)] else out)"

definition encodeBools :: "bool list \<Rightarrow> byte list" where
  "encodeBools bs = fold (setCoilBit bs) [0..<length bs] (replicate (boolByteCount (length bs)) 0)"

definition decodeBools :: "uint16 \<Rightarrow> byte list \<Rightarrow> bool list option" where
  "decodeBools quantity bs =
     those (map (\<lambda>i. do { b \<leftarrow> go_index bs (i div 8);
                          Some (and (drop_bit (i mod 8) b) 1 = 1) })
                [0..<unat quantity])"


section \<open>Codecs of registers\<close>

text \<open>
  The contract the client relies on, whatever the width of its values: \<open>enc\<close> writes one value
  as \<open>w\<close> bytes and \<open>decs\<close> reads a slice of such values back.  \<open>ok\<close> says that the byte and
  word order in use are named ones.
\<close>

locale register_codec =
  fixes ok :: bool
    and w :: nat
    and enc :: "'v \<Rightarrow> byte list"
    and decs :: "byte list \<Rightarrow> 'v list option"
  assumes width: "0 < w"
    and length_enc: "length (enc v) = w"
    and decs_Nil: "decs [] = Some []"
    and decs_enc: "ok \<Longrightarrow> decs (enc v @ bs) = map_option ((#) v) (decs bs)"
    and decs_short: "ok \<Longrightarrow> bs \<noteq> [] \<Longrightarrow> length bs < w \<Longrightarrow> decs bs = None"
    and enc_surj: "ok \<Longrightarrow> length q = w \<Longrightarrow> \<exists>v. q = enc v"
begin

lemma length_concat_enc: "length (concat (map enc vs)) = w * length vs"
  by (induction vs) (simp_all add: length_enc)

lemma decs_concat: "ok \<Longrightarrow> decs (concat (map enc vs)) = Some vs"
  by (induction vs) (simp_all add: decs_Nil decs_enc)

lemma decs_Some_enc:
  assumes ok
  shows "decs bs = Some vs \<Longrightarrow> concat (map enc vs) = bs"
proof (induction "length bs" arbitrary: bs vs rule: less_induct)
  case less
  show ?case
  proof (cases "bs = []")
    case True
    with less.prems show ?thesis by (simp add: decs_Nil)
  next
    case False
    with less.prems assms have "w \<le> length bs"
      using decs_short by (metis not_le option.distinct(1))
    then obtain v where v: "take w bs = enc v"
      using enc_surj [OF assms, of "take w bs"] by auto
    then have bs: "bs = enc v @ drop w bs"
      by (metis append_take_drop_id)
    with less.prems assms obtain vs' where vs': "decs (drop w bs) = Some vs'" "vs = v # vs'"
      by (metis (no_types, opaque_lifting) decs_enc map_option_eq_Some)
    moreover have "length (drop w bs) < length bs"
      using False width by simp
    ultimately have "concat (map enc vs') = drop w bs"
      by (intro less.hyps)
    with bs vs' show ?thesis by simp
  qed
qed

lemma decs_iff: "ok \<Longrightarrow> decs bs = Some vs \<longleftrightarrow> concat (map enc vs) = bs"
  using decs_Some_enc decs_concat by blast

lemma decs_total: "ok \<Longrightarrow> length bs = w * n \<Longrightarrow> \<exists>vs. decs bs = Some vs \<and> length vs = n"
proof (induction n arbitrary: bs)
  case 0
  then show ?case by (simp add: decs_Nil)
next
  case (Suc n)
  from Suc.prems obtain v where "take w bs = enc v"
    using enc_surj [of "take w bs"] by auto
  then have bs: "bs = enc v @ drop w bs"
    by (metis append_take_drop_id)
  from Suc.prems have "length (drop w bs) = w * n" by simp
  with Suc.IH Suc.prems(1) obtain vs where "decs (drop w bs) = Some vs" "length vs = n"
    by blast
  with decs_enc [OF Suc.prems(1), of v "drop w bs"] bs show ?case by auto
qed

lemma decs_length: "ok \<Longrightarrow> decs bs = Some vs \<Longrightarrow> length bs = w * length vs"
  using decs_Some_enc length_concat_enc by metis

end

section \<open>The five codecs\<close>

definition valid_endianness :: "endianness \<Rightarrow> bool" where
  "valid_endianness e \<longleftrightarrow> e = BIG_ENDIAN \<or> e = LITTLE_ENDIAN"

definition valid_word_order :: "word_order \<Rightarrow> bool" where
  "valid_word_order wo \<longleftrightarrow> wo = HIGH_WORD_FIRST \<or> wo = LOW_WORD_FIRST"

definition valid_encoding :: "endianness \<Rightarrow> word_order \<Rightarrow> bool" where
  "valid_encoding e wo \<longleftrightarrow> valid_endianness e \<and> valid_word_order wo"

lemma valid_encoding_cases:
  assumes "valid_encoding e wo"
  obtains "e = BIG_ENDIAN" "wo = HIGH_WORD_FIRST" | "e = BIG_ENDIAN" "wo = LOW_WORD_FIRST"
    | "e = LITTLE_ENDIAN" "wo = HIGH_WORD_FIRST" | "e = LITTLE_ENDIAN" "wo = LOW_WORD_FIRST"
  using assms by (auto simp: valid_encoding_def valid_endianness_def valid_word_order_def)

lemma valid_encoding_endianness: "valid_encoding e wo \<Longrightarrow> valid_endianness e"
  by (simp add: valid_encoding_def)

lemma length_uint16ToBytes [simp]: "length (uint16ToBytes e v) = 2"
  by (simp add: uint16ToBytes_def)

lemma length_uint32ToBytes [simp]: "length (uint32ToBytes e wo v) = 4"
  by (simp add: uint32ToBytes_def Let_def)

lemma length_uint64ToBytes [simp]: "length (uint64ToBytes e wo v) = 8"
  by (simp add: uint64ToBytes_def Let_def)

lemma bytesToUint16_uint16ToBytes [simp]:
  "valid_endianness e \<Longrightarrow> bytesToUint16 e (uint16ToBytes e v) = Some v"
  by (auto simp: valid_endianness_def bytesToUint16_def uint16ToBytes_def go_slice_def
      be_word_be_bytes_id le_word_le_bytes_id)

lemma uint16ToBytes_surj:
  assumes "valid_endianness e" "length q = 2"
  shows "\<exists>v. q = uint16ToBytes e v"
proof (cases "e = BIG_ENDIAN")
  case True
  with assms show ?thesis
    using be_bytes_be_word [where 'a = 16, of q]
    by (intro exI [of _ "be_word q"]) (simp add: uint16ToBytes_def)
next
  case False
  with assms show ?thesis
    using le_bytes_le_word [where 'a = 16, of q]
    by (intro exI [of _ "le_word q"]) (auto simp: uint16ToBytes_def valid_endianness_def)
qed

lemma bytesToUint32_uint32ToBytes:
  assumes "valid_encoding e wo"
  shows "bytesToUint32 e wo (uint32ToBytes e wo v) = v"
proof -
  obtain a b c d where be: "be_bytes 4 v = [a, b, c, d]"
    using length_be_bytes [of 4 v] by (rule list4E)
  obtain a' b' c' d' where le: "le_bytes 4 v = [a', b', c', d']"
    using length_le_bytes [of 4 v] by (rule list4E)
  have "be_word [a, b, c, d] = v" "le_word [a', b', c', d'] = v"
    using be_word_be_bytes_id [of 4 v] le_word_le_bytes_id [of 4 v] by (simp_all add: be le)
  with assms show ?thesis
    by (cases rule: valid_encoding_cases) (simp_all add: bytesToUint32_def uint32ToBytes_def be le)
qed

lemma uint32ToBytes_surj:
  assumes "valid_encoding e wo" "length q = 4"
  shows "\<exists>v. q = uint32ToBytes e wo v"
proof -
  obtain a b c d where q: "q = [a, b, c, d]"
    using assms(2) by (rule list4E)
  have "q = uint32ToBytes e wo (bytesToUint32 e wo q)"
    using assms(1)
    by (cases rule: valid_encoding_cases)
      (simp_all add: q bytesToUint32_def uint32ToBytes_def be_bytes_be_word_n le_bytes_le_word_n)
  then show ?thesis by blast
qed

lemma bytesToUint64_uint64ToBytes:
  assumes "valid_encoding e wo"
  shows "bytesToUint64 e wo (uint64ToBytes e wo v) = v"
proof -
  obtain b0 b1 b2 b3 b4 b5 b6 b7 where be: "be_bytes 8 v = [b0, b1, b2, b3, b4, b5, b6, b7]"
    using length_be_bytes [of 8 v] by (rule list8E)
  obtain l0 l1 l2 l3 l4 l5 l6 l7 where le: "le_bytes 8 v = [l0, l1, l2, l3, l4, l5, l6, l7]"
    using length_le_bytes [of 8 v] by (rule list8E)
  have "be_word [b0, b1, b2, b3, b4, b5, b6, b7] = v" "le_word [l0, l1, l2, l3, l4, l5, l6, l7] = v"
    using be_word_be_bytes_id [of 8 v] le_word_le_bytes_id [of 8 v] by (simp_all add: be le)
  with assms show ?thesis
    by (cases rule: valid_encoding_cases) (simp_all add: bytesToUint64_def uint64ToBytes_def be le)
qed

lemma uint64ToBytes_surj:
  assumes "valid_encoding e wo" "length q = 8"
  shows "\<exists>v. q = uint64ToBytes e wo v"
proof -
  obtain b0 b1 b2 b3 b4 b5 b6 b7 where q: "q = [b0, b1, b2, b3, b4, b5, b6, b7]"
    using assms(2) by (rule list8E)
  have "q = uint64ToBytes e wo (bytesToUint64 e wo q)"
    using assms(1)
    by (cases rule: valid_encoding_cases)
      (simp_all add: q bytesToUint64_def uint64ToBytes_def be_bytes_be_word_n le_bytes_le_word_n)
  then show ?thesis by blast
qed

lemma bytesToUint16s_append:
  "valid_endianness e \<Longrightarrow>
   bytesToUint16s e (uint16ToBytes e v @ bs) = map_option ((#) v) (bytesToUint16s e bs)"
proof -
  assume e: "valid_endianness e"
  obtain a b where "uint16ToBytes e v = [a, b]"
    using length_uint16ToBytes by (rule list2E)
  with bytesToUint16_uint16ToBytes [OF e, of v] show ?thesis
    by simp
qed

lemma uint16sToBytes_concat: "uint16sToBytes e vs = concat (map (uint16ToBytes e) vs)"
  by (induction vs) simp_all

interpretation u16: register_codec "valid_endianness e" 2 "uint16ToBytes e" "bytesToUint16s e"
  for e
proof
  fix bs :: "byte list"
  assume "bs \<noteq> []" "length bs < 2"
  then show "bytesToUint16s e bs = None"
    by (cases "(e, bs)" rule: bytesToUint16s.cases) auto
qed (simp_all add: bytesToUint16s_append uint16ToBytes_surj)

lemma bytesToUint32s_append:
  assumes "valid_encoding e wo"
  shows "bytesToUint32s e wo (uint32ToBytes e wo v @ bs) = map_option ((#) v) (bytesToUint32s e wo bs)"
proof -
  obtain a b c d where q: "uint32ToBytes e wo v = [a, b, c, d]"
    using length_uint32ToBytes by (rule list4E)
  with bytesToUint32_uint32ToBytes [OF assms, of v] show ?thesis
    by simp
qed

lemma bytesToUint64s_append:
  assumes "valid_encoding e wo"
  shows "bytesToUint64s e wo (uint64ToBytes e wo v @ bs) = map_option ((#) v) (bytesToUint64s e wo bs)"
proof -
  obtain b0 b1 b2 b3 b4 b5 b6 b7 where q: "uint64ToBytes e wo v = [b0, b1, b2, b3, b4, b5, b6, b7]"
    using length_uint64ToBytes by (rule list8E)
  with bytesToUint64_uint64ToBytes [OF assms, of v] show ?thesis
    by simp
qed

lemma bytesToUint32s_short:
  "valid_encoding e wo \<Longrightarrow> bs \<noteq> [] \<Longrightarrow> length bs < 4 \<Longrightarrow> bytesToUint32s e wo bs = None"
  by (cases bs) (auto simp: valid_encoding_def valid_endianness_def)

lemma bytesToUint64s_short:
  "valid_encoding e wo \<Longrightarrow> bs \<noteq> [] \<Longrightarrow> length bs < 8 \<Longrightarrow> bytesToUint64s e wo bs = None"
  by (cases bs) (auto simp: valid_encoding_def valid_endianness_def)

interpretation u32: register_codec "valid_encoding e wo" 4 "uint32ToBytes e wo" "bytesToUint32s e wo"
  for e wo
  by unfold_locales
    (simp_all add: bytesToUint32s_append bytesToUint32s_short uint32ToBytes_surj)

interpretation u64: register_codec "valid_encoding e wo" 8 "uint64ToBytes e wo" "bytesToUint64s e wo"
  for e wo
  by unfold_locales
    (simp_all add: bytesToUint64s_append bytesToUint64s_short uint64ToBytes_surj)

text \<open>The float codecs are the integer codecs under the bijection of bit patterns.\<close>

interpretation f32: register_codec "valid_encoding e wo" 4 "float32ToBytes e wo" "bytesToFloat32s e wo"
  for e wo
proof
  fix q :: "byte list"
  assume "valid_encoding e wo" "length q = 4"
  then show "\<exists>v. q = float32ToBytes e wo v"
    using uint32ToBytes_surj by (metis float32.sel float32ToBytes_def)
qed (auto simp: float32ToBytes_def bytesToFloat32s_def bytesToUint32s_append bytesToUint32s_short
    map_option_case split: option.split)

interpretation f64: register_codec "valid_encoding e wo" 8 "float64ToBytes e wo" "bytesToFloat64s e wo"
  for e wo
proof
  fix q :: "byte list"
  assume "valid_encoding e wo" "length q = 8"
  then show "\<exists>v. q = float64ToBytes e wo v"
    using uint64ToBytes_surj by (metis float64.sel float64ToBytes_def)
qed (auto simp: float64ToBytes_def bytesToFloat64s_def bytesToUint64s_append bytesToUint64s_short
    map_option_case split: option.split)

section \<open>Packed coils\<close>

text \<open>The byte count is the quotient rounded up.\<close>

lemma boolByteCount_up: "boolByteCount n = (n + 7) div 8"
proof -
  let ?m = "n mod 8"
  have "(n + 7) div 8 = (?m + 7 + 8 * (n div 8)) div 8"
    by (rule arg_cong [of _ _ "\<lambda>k. k div 8"]) (use mult_div_mod_eq [of 8 n] in linarith)
  also have "\<dots> = n div 8 + (?m + 7) div 8"
    by (rule div_mult_self2) simp
  also have "(?m + 7) div 8 = (if ?m \<noteq> 0 then 1 else 0)"
  proof (cases ?m)
    case (Suc k)
    moreover have "?m < 8"
      by simp
    ultimately show ?thesis
      by (simp add: div_if)
  qed simp
  finally show ?thesis
    by (simp add: boolByteCount_def)
qed

lemma boolByteCount_less: "k div 8 < boolByteCount n \<longleftrightarrow> k div 8 * 8 < n"
  by (simp add: boolByteCount_up less_eq_div_iff_mult_less_eq Suc_le_eq [symmetric])

lemma boolByteCount_in: "k < n \<Longrightarrow> k div 8 < boolByteCount n"
  by (simp add: boolByteCount_less)

lemma boolByteCount_le: "n \<le> 8 * boolByteCount n"
  unfolding boolByteCount_up by linarith

lemma boolByteCount_bound: "n \<le> 2000 \<Longrightarrow> boolByteCount n \<le> 250"
  unfolding boolByteCount_up by linarith

lemma boolByteCount_pos: "0 < n \<Longrightarrow> 0 < boolByteCount n"
  using boolByteCount_le [of n] by linarith

lemma length_setCoilBit [simp]: "length (setCoilBit bs i out) = length out"
  by (simp add: setCoilBit_def)

lemma bit_setCoilBit:
  assumes "j < 8" "k < length out" "i div 8 < length out"
  shows "bit (setCoilBit bs i out ! k) j \<longleftrightarrow> (8 * k + j = i \<and> bs ! i) \<or> bit (out ! k) j"
proof -
  have "i div 8 = k \<and> i mod 8 = j \<longleftrightarrow> 8 * k + j = i"
    using assms(1) by auto
  with assms show ?thesis
    by (auto simp: setCoilBit_def nth_list_update bit_simps)
qed

text \<open>Loop invariant of \<open>encodeBools\<close>: after \<open>n\<close> turns the first \<open>n\<close> coils are stored.\<close>

lemma encodeBools_upto:
  assumes "n \<le> length bs"
  shows "length (fold (setCoilBit bs) [0..<n] (replicate (boolByteCount (length bs)) 0)) =
           boolByteCount (length bs)
    \<and> (\<forall>k < boolByteCount (length bs). \<forall>j < 8.
        bit (fold (setCoilBit bs) [0..<n] (replicate (boolByteCount (length bs)) 0) ! k) j \<longleftrightarrow>
          8 * k + j < n \<and> bs ! (8 * k + j))"
  using assms
proof (induction n)
  case 0
  then show ?case by simp
next
  case (Suc n)
  then have "n div 8 < boolByteCount (length bs)"
    by (intro boolByteCount_in) simp
  with Suc show ?case
    by (auto simp: bit_setCoilBit less_Suc_eq)
qed

lemma length_encodeBools [simp]: "length (encodeBools bs) = boolByteCount (length bs)"
  using encodeBools_upto [of "length bs" bs] by (simp add: encodeBools_def)

lemma bit_encodeBools:
  "k < boolByteCount (length bs) \<Longrightarrow> j < 8 \<Longrightarrow>
   bit (encodeBools bs ! k) j \<longleftrightarrow> 8 * k + j < length bs \<and> bs ! (8 * k + j)"
  using encodeBools_upto [of "length bs" bs] by (simp add: encodeBools_def)

lemma coil_bit: "(and (drop_bit j (b :: byte)) 1 = 1) = bit b j"
  by (simp add: and_one_eq bit_iff_odd_drop_bit odd_iff_mod_2_eq_one)

lemma decodeBools_Some:
  assumes "boolByteCount (unat quantity) \<le> length bs"
  shows "decodeBools quantity bs = Some (map (\<lambda>i. bit (bs ! (i div 8)) (i mod 8)) [0..<unat quantity])"
  unfolding decodeBools_def
proof (rule those_map_cong)
  fix i
  assume "i \<in> set [0..<unat quantity]"
  with assms have "i div 8 < length bs"
    using boolByteCount_in [of i "unat quantity"] by simp
  then show "Option.bind (go_index bs (i div 8)) (\<lambda>b. Some (and (drop_bit (i mod 8) b) 1 = 1)) =
      Some (bit (bs ! (i div 8)) (i mod 8))"
    by (simp add: go_simps coil_bit)
qed

lemma decodeBools_length: "decodeBools quantity bs = Some vs \<Longrightarrow> length vs = unat quantity"
  by (auto simp: decodeBools_def those_Some_iff dest: map_eq_imp_length_eq)

lemma boolByteCount_last: "0 < n \<Longrightarrow> (n - 1) div 8 = boolByteCount n - 1"
  unfolding boolByteCount_up by (cases n) simp_all

lemma decodeBools_None:
  assumes "length bs < boolByteCount (unat quantity)"
  shows "decodeBools quantity bs = None"
proof (rule ccontr)
  let ?n = "unat quantity"
  assume "decodeBools quantity bs \<noteq> None"
  then obtain ys where ys: "map (\<lambda>i. do { b \<leftarrow> go_index bs (i div 8);
      Some (and (drop_bit (i mod 8) b) 1 = 1) }) [0..<?n] = map Some ys"
    by (auto simp: decodeBools_def those_Some_iff)
  have n: "0 < ?n"
    using assms by (cases "?n") (simp_all add: boolByteCount_def)
  then have "go_index bs ((?n - 1) div 8) = None"
    using assms boolByteCount_last [OF n] by (simp add: go_index_None_iff)
  moreover have "length ys = ?n"
    using ys [THEN map_eq_imp_length_eq] by simp
  ultimately show False
    using n arg_cong [OF ys, of "\<lambda>xs. xs ! (?n - 1)"] by simp
qed

text \<open>
  C19: register values survive the wire.  For the two named byte orders and the two named word
  orders, decoding a byte string gives exactly the values whose encoding is that byte string: the
  16-, 32- and 64-bit integer codecs and both float codecs are inverse to each other, and a byte
  string that is no encoding (a partial register) has no decoding.
\<close>

theorem register_codecs_inverse:
  assumes "valid_encoding e wo"
  shows "(bytesToUint16s e bs = Some us \<longleftrightarrow> uint16sToBytes e us = bs)
    \<and> (bytesToUint32s e wo bs = Some vs \<longleftrightarrow> concat (map (uint32ToBytes e wo) vs) = bs)
    \<and> (bytesToUint64s e wo bs = Some ws \<longleftrightarrow> concat (map (uint64ToBytes e wo) ws) = bs)
    \<and> (bytesToFloat32s e wo bs = Some fs \<longleftrightarrow> concat (map (float32ToBytes e wo) fs) = bs)
    \<and> (bytesToFloat64s e wo bs = Some gs \<longleftrightarrow> concat (map (float64ToBytes e wo) gs) = bs)"
  using assms valid_encoding_endianness [OF assms] by (simp add: uint16sToBytes_concat
      u16.decs_iff u32.decs_iff u64.decs_iff f32.decs_iff f64.decs_iff)

theorem register_codecs_inverse_witness:
  "valid_encoding LITTLE_ENDIAN HIGH_WORD_FIRST
   \<and> (bytesToUint32s LITTLE_ENDIAN HIGH_WORD_FIRST [0x65, 0x87, 0x21, 0x43] = Some [0x87654321]
     \<longleftrightarrow> concat (map (uint32ToBytes LITTLE_ENDIAN HIGH_WORD_FIRST) [0x87654321]) = [0x65, 0x87, 0x21, 0x43])
   \<and> uint32ToBytes LITTLE_ENDIAN HIGH_WORD_FIRST 0x87654321 = [0x65, 0x87, 0x21, 0x43]"
proof -
  have v: "valid_encoding LITTLE_ENDIAN HIGH_WORD_FIRST"
    by (simp add: valid_encoding_def valid_endianness_def valid_word_order_def)
  have "uint32ToBytes LITTLE_ENDIAN HIGH_WORD_FIRST 0x87654321 = [0x65, 0x87, 0x21, 0x43]"
    by code_simp
  then show ?thesis
    using v register_codecs_inverse [OF v, where bs = "[0x65, 0x87, 0x21, 0x43]" and vs = "[0x87654321]"]
    by blast
qed

text \<open>
  C20: coils survive the wire.  A slice of at most 65535 coils is packed into one byte per eight
  coils, coil \<open>8 * k + j\<close> in bit \<open>j\<close> of byte \<open>k\<close> and zeros in the padding, and unpacking the same
  number of coils gives them back.
\<close>

theorem coils_roundtrip:
  assumes "length bs < 2 ^ 16"
  shows "decodeBools (of_nat (length bs)) (encodeBools bs) = Some bs
    \<and> length (encodeBools bs) = boolByteCount (length bs)
    \<and> (\<forall>k j. bit (encodeBools bs ! k) j \<and> k < length (encodeBools bs) \<longleftrightarrow>
          j < 8 \<and> 8 * k + j < length bs \<and> bs ! (8 * k + j))"
proof -
  have n: "unat (of_nat (length bs) :: uint16) = length bs"
    using assms by (simp add: unat_of_nat)
  have "map (\<lambda>i. bit (encodeBools bs ! (i div 8)) (i mod 8)) [0..<length bs] = map (\<lambda>i. bs ! i) [0..<length bs]"
    by (rule map_cong) (simp_all add: bit_encodeBools boolByteCount_in)
  then have "decodeBools (of_nat (length bs)) (encodeBools bs) = Some bs"
    by (simp add: decodeBools_Some n map_nth)
  moreover have "bit (encodeBools bs ! k) j \<and> k < boolByteCount (length bs) \<longleftrightarrow>
      j < 8 \<and> 8 * k + j < length bs \<and> bs ! (8 * k + j)" for k j
  proof -
    have "k < boolByteCount (length bs)" if "8 * k + j < length bs" "j < 8"
      using boolByteCount_in [OF that(1)] that(2) by simp
    moreover have "j < 8" if "bit (encodeBools bs ! k) j"
      using bit_imp_le_length [OF that] by simp
    ultimately show ?thesis
      using bit_encodeBools by blast
  qed
  ultimately show ?thesis by simp
qed

theorem coils_roundtrip_witness:
  "length [True, False, True, True, False, False, False, False, True] < 2 ^ 16
   \<and> decodeBools 9 (encodeBools [True, False, True, True, False, False, False, False, True]) =
       Some [True, False, True, True, False, False, False, False, True]"
  using coils_roundtrip [of "[True, False, True, True, False, False, False, False, True]"] by simp

text \<open>
  Decoding coils never reads past the bytes it was given, and needs no more of them than the
  coils occupy: it panics exactly when a byte is missing.
\<close>

lemma decodeBools_panics_iff:
  "decodeBools quantity bs = None \<longleftrightarrow> length bs < boolByteCount (unat quantity)"
  by (cases "length bs < boolByteCount (unat quantity)")
    (simp_all add: decodeBools_None decodeBools_Some not_less)

end
