(* ===== verification/Modbus_Pdu.thy ===== *)
theory Modbus_Pdu
  imports Go_Prelude
begin

text \<open>
  internal/modbus/modbus.go and transport.go: protocol data units, function codes, exception
  codes, their mapping to errors and back, and the \<open>transport\<close> interface.
\<close>

section \<open>Constants\<close>

abbreviation fcReadCoils :: uint8 where "fcReadCoils \<equiv> 0x01"
abbreviation fcReadDiscreteInputs :: uint8 where "fcReadDiscreteInputs \<equiv> 0x02"
abbreviation fcReadHoldingRegisters :: uint8 where "fcReadHoldingRegisters \<equiv> 0x03"
abbreviation fcReadInputRegisters :: uint8 where "fcReadInputRegisters \<equiv> 0x04"
abbreviation fcWriteSingleCoil :: uint8 where "fcWriteSingleCoil \<equiv> 0x05"
abbreviation fcWriteSingleRegister :: uint8 where "fcWriteSingleRegister \<equiv> 0x06"
abbreviation fcWriteMultipleCoils :: uint8 where "fcWriteMultipleCoils \<equiv> 0x0f"
abbreviation fcWriteMultipleRegisters :: uint8 where "fcWriteMultipleRegisters \<equiv> 0x10"
abbreviation fcMaskWriteRegister :: uint8 where "fcMaskWriteRegister \<equiv> 0x16"

abbreviation exIllegalFunction :: uint8 where "exIllegalFunction \<equiv> 0x01"
abbreviation exIllegalDataAddress :: uint8 where "exIllegalDataAddress \<equiv> 0x02"
abbreviation exIllegalDataValue :: uint8 where "exIllegalDataValue \<equiv> 0x03"
abbreviation exServerDeviceFailure :: uint8 where "exServerDeviceFailure \<equiv> 0x04"
abbreviation exAcknowledge :: uint8 where "exAcknowledge \<equiv> 0x05"
abbreviation exServerDeviceBusy :: uint8 where "exServerDeviceBusy \<equiv> 0x06"
abbreviation exMemoryParityError :: uint8 where "exMemoryParityError \<equiv> 0x08"
abbreviation exGWPathUnavailable :: uint8 where "exGWPathUnavailable \<equiv> 0x0a"
abbreviation exGWTargetFailedToRespond :: uint8 where "exGWTargetFailedToRespond \<equiv> 0x0b"

section \<open>Protocol data units\<close>

record pdu =
  unitId :: uint8
  functionCode :: uint8
  payload :: "byte list"

section \<open>Exception codes and errors\<close>

definition mapExceptionCodeToError :: "uint8 \<Rightarrow> go_error" where
  "mapExceptionCodeToError exceptionCode =
     (if exceptionCode = exIllegalFunction then ErrIllegalFunction
      else if exceptionCode = exIllegalDataAddress then ErrIllegalDataAddress
      else if exceptionCode = exIllegalDataValue then ErrIllegalDataValue
      else if exceptionCode = exServerDeviceFailure then ErrServerDeviceFailure
      else if exceptionCode = exAcknowledge then ErrAcknowledge
      else if exceptionCode = exMemoryParityError then ErrMemoryParityError
      else if exceptionCode = exServerDeviceBusy then ErrServerDeviceBusy
      else if exceptionCode = exGWPathUnavailable then ErrGWPathUnavailable
      else if exceptionCode = exGWTargetFailedToRespond then ErrGWTargetFailedToRespond
      else UnknownExceptionCode exceptionCode)"

fun mapErrorToExceptionCode :: "go_error \<Rightarrow> uint8" where
  "mapErrorToExceptionCode ErrIllegalFunction = exIllegalFunction"
| "mapErrorToExceptionCode ErrIllegalDataAddress = exIllegalDataAddress"
| "mapErrorToExceptionCode ErrIllegalDataValue = exIllegalDataValue"
| "mapErrorToExceptionCode ErrServerDeviceFailure = exServerDeviceFailure"
| "mapErrorToExceptionCode ErrAcknowledge = exAcknowledge"
| "mapErrorToExceptionCode ErrMemoryParityError = exMemoryParityError"
| "mapErrorToExceptionCode ErrServerDeviceBusy = exServerDeviceBusy"
| "mapErrorToExceptionCode ErrGWPathUnavailable = exGWPathUnavailable"
| "mapErrorToExceptionCode ErrGWTargetFailedToRespond = exGWTargetFailedToRespond"
| "mapErrorToExceptionCode _ = exServerDeviceFailure"

text \<open>The errors that have an exception code of their own.\<close>

definition modbus_exception :: "go_error \<Rightarrow> bool" where
  "modbus_exception e \<longleftrightarrow> e \<in> {ErrIllegalFunction, ErrIllegalDataAddress, ErrIllegalDataValue,
     ErrServerDeviceFailure, ErrAcknowledge, ErrMemoryParityError, ErrServerDeviceBusy,
     ErrGWPathUnavailable, ErrGWTargetFailedToRespond}"

lemma mapErrorToExceptionCode_cases:
  "modbus_exception e \<or> mapErrorToExceptionCode e = exServerDeviceFailure"
  by (cases e) (simp_all add: modbus_exception_def)

lemma map_exception_of_error:
  "mapExceptionCodeToError (mapErrorToExceptionCode e) =
     (if modbus_exception e then e else ErrServerDeviceFailure)"
  by (cases e) (simp_all add: modbus_exception_def mapExceptionCodeToError_def)

text \<open>
  The two maps are inverse on the wire.  An error the server turns into an exception code
  is read back by the client as the same error when it is one of the nine Modbus exceptions, and
  as \<open>ErrServerDeviceFailure\<close> otherwise; a code that the client reads as a Modbus
  exception is sent for it, and every other code is reported as unknown.
\<close>

lemma exception_code_roundtrip:
  "mapExceptionCodeToError (mapErrorToExceptionCode e) =
     (if modbus_exception e then e else ErrServerDeviceFailure)
   \<and> (if modbus_exception (mapExceptionCodeToError c)
      then mapErrorToExceptionCode (mapExceptionCodeToError c) = c
      else mapExceptionCodeToError c = UnknownExceptionCode c)"
  by (simp add: map_exception_of_error) (simp add: mapExceptionCodeToError_def modbus_exception_def)

section \<open>The transport interface\<close>

text \<open>
  transport.go: the four methods, over the state \<open>'t\<close> of the implementation.  \<open>None\<close> is a
  call that does not return.
\<close>

record 't transport =
  t_Close :: "'t \<Rightarrow> unit result \<times> 't"
  t_ExecuteRequest :: "pdu \<Rightarrow> 't \<Rightarrow> (pdu result \<times> 't) option"
  t_ReadRequest :: "'t \<Rightarrow> (pdu result \<times> 't) option"
  t_WriteResponse :: "pdu \<Rightarrow> 't \<Rightarrow> unit result \<times> 't"

text \<open>
  What a client relies on: a request always comes back, with a response or an error, and leaves
  the transport usable; exactly one frame, that of the request, goes out on the wire.
\<close>

locale transport_contract =
  fixes T :: "'t transport"
    and tinv :: "'t \<Rightarrow> bool"
    and wire :: "'t \<Rightarrow> byte list"
    and framed :: "pdu \<Rightarrow> 't \<Rightarrow> byte list"
  assumes execute_returns: "tinv t \<Longrightarrow> \<exists>r t'. t_ExecuteRequest T req t = Some (r, t') \<and> tinv t'
      \<and> wire t' = wire t @ framed req t"

end
