(* ===== verification/Server.thy ===== *)
theory Server
  imports Encoding Modbus_Pdu
begin

text \<open>
  internal/modbus/server.go: the configuration of a server, the requests it hands to its
  handler, and \<open>handleTransport\<close>, which decodes, validates and answers the requests of one
  connection.  The user's handler is a parameter, a record of the four methods over its own state.
\<close>

section \<open>Requests and handlers\<close>

record CoilsRequest =
  cr_ClientAddr :: string
  cr_ClientRole :: string
  cr_UnitId :: uint8
  cr_Addr :: uint16
  cr_Quantity :: uint16
  cr_IsWrite :: bool
  cr_Args :: "bool list"

record DiscreteInputsRequest =
  dr_ClientAddr :: string
  dr_ClientRole :: string
  dr_UnitId :: uint8
  dr_Addr :: uint16
  dr_Quantity :: uint16

record HoldingRegistersRequest =
  hr_ClientAddr :: string
  hr_ClientRole :: string
  hr_UnitId :: uint8
  hr_Addr :: uint16
  hr_Quantity :: uint16
  hr_IsWrite :: bool
  hr_Args :: "uint16 list"

record InputRegistersRequest =
  ir_ClientAddr :: string
  ir_ClientRole :: string
  ir_UnitId :: uint8
  ir_Addr :: uint16
  ir_Quantity :: uint16

text \<open>Each method returns its values and an error, \<open>None\<close> for \<open>nil\<close>; it may return both.\<close>

record 'h RequestHandler =
  HandleCoils :: "CoilsRequest \<Rightarrow> 'h \<Rightarrow> (bool list \<times> go_error option) \<times> 'h"
  HandleDiscreteInputs :: "DiscreteInputsRequest \<Rightarrow> 'h \<Rightarrow> (bool list \<times> go_error option) \<times> 'h"
  HandleHoldingRegisters :: "HoldingRegistersRequest \<Rightarrow> 'h \<Rightarrow> (uint16 list \<times> go_error option) \<times> 'h"
  HandleInputRegisters :: "InputRegistersRequest \<Rightarrow> 'h \<Rightarrow> (uint16 list \<times> go_error option) \<times> 'h"

section \<open>The cases of the switch\<close>

text \<open>
  What a case leaves behind: the variables \<open>err\<close> and \<open>res\<close> after the switch (both are \<open>nil\<close> before
  it) and the handler's state.  A \<open>break\<close> leaves \<open>res\<close> at \<open>nil\<close>.  \<open>None\<close> is a panic.
\<close>

type_synonym 'h served = "((go_error option \<times> pdu option) \<times> 'h) option"

abbreviation fails :: "go_error \<Rightarrow> 'h \<Rightarrow> 'h served" where
  "fails e h \<equiv> Some ((Some e, None), h)"

abbreviation replies :: "pdu \<Rightarrow> 'h \<Rightarrow> 'h served" where
  "replies res h \<equiv> Some ((None, Some res), h)"

text \<open>\<open>bytesToUint16(BIG_ENDIAN, payload[i:i+2])\<close>\<close>

definition fieldAt :: "byte list \<Rightarrow> nat \<Rightarrow> uint16 option" where
  "fieldAt pl i = do { b \<leftarrow> go_slice pl i (i + 2); bytesToUint16 BIG_ENDIAN b }"

text \<open>\<open>uint32(addr)+uint32(quantity)-1 > 0xffff\<close>\<close>

definition pastEnd :: "uint16 \<Rightarrow> uint16 \<Rightarrow> bool" where
  "pastEnd addr quantity \<longleftrightarrow> (0xffff :: uint32) < ucast addr + ucast quantity - 1"

definition serveReadBools ::
  "'h RequestHandler \<Rightarrow> string \<Rightarrow> string \<Rightarrow> pdu \<Rightarrow> 'h \<Rightarrow> 'h served" where
  "serveReadBools H clientAddr clientRole req h =
     (if length (payload req) \<noteq> 4 then fails ErrProtocolError h
      else do {
        addr \<leftarrow> fieldAt (payload req) 0;
        quantity \<leftarrow> fieldAt (payload req) 2;
        (if 2000 < quantity \<or> quantity = 0 then fails ErrProtocolError h
         else if pastEnd addr quantity then fails ErrIllegalDataAddress h
         else
           let ((coils, err), h1) =
                 (if functionCode req = fcReadCoils
                  then HandleCoils H \<lparr>cr_ClientAddr = clientAddr, cr_ClientRole = clientRole,
                         cr_UnitId = unitId req, cr_Addr = addr, cr_Quantity = quantity,
                         cr_IsWrite = False, cr_Args = []\<rparr> h
                  else HandleDiscreteInputs H \<lparr>dr_ClientAddr = clientAddr, dr_ClientRole = clientRole,
                         dr_UnitId = unitId req, dr_Addr = addr, dr_Quantity = quantity\<rparr> h);
               resCount = length coils
           in (if err = None \<and> resCount \<noteq> unat quantity then fails ErrServerDeviceFailure h1
               else if err \<noteq> None then Some ((err, None), h1)
               else
                 let byteCount = (of_nat (resCount div 8) :: uint8) + (if resCount mod 8 \<noteq> 0 then 1 else 0)
                 in replies \<lparr>unitId = unitId req, functionCode = functionCode req,
                      payload = [byteCount] @ encodeBools coils\<rparr> h1)) })"

definition serveWriteSingleCoil ::
  "'h RequestHandler \<Rightarrow> string \<Rightarrow> string \<Rightarrow> pdu \<Rightarrow> 'h \<Rightarrow> 'h served" where
  "serveWriteSingleCoil H clientAddr clientRole req h =
     (if length (payload req) \<noteq> 4 then fails ErrProtocolError h
      else do {
        addr \<leftarrow> fieldAt (payload req) 0;
        hi \<leftarrow> go_index (payload req) 2;
        lo \<leftarrow> go_index (payload req) 3;
        (if (hi \<noteq> 0xff \<and> hi \<noteq> 0x00) \<or> lo \<noteq> 0x00 then fails ErrProtocolError h
         else
           let ((_, err), h1) =
                 HandleCoils H \<lparr>cr_ClientAddr = clientAddr, cr_ClientRole = clientRole,
                   cr_UnitId = unitId req, cr_Addr = addr, cr_Quantity = 1, cr_IsWrite = True,
                   cr_Args = [hi = 0xff]\<rparr> h
           in (if err \<noteq> None then Some ((err, None), h1)
               else replies \<lparr>unitId = unitId req, functionCode = functionCode req,
                      payload = uint16ToBytes BIG_ENDIAN addr @ [hi, lo]\<rparr> h1)) })"

definition serveWriteMultipleCoils ::
  "'h RequestHandler \<Rightarrow> string \<Rightarrow> string \<Rightarrow> pdu \<Rightarrow> 'h \<Rightarrow> 'h served" where
  "serveWriteMultipleCoils H clientAddr clientRole req h =
     (if length (payload req) < 6 then fails ErrProtocolError h
      else do {
        addr \<leftarrow> fieldAt (payload req) 0;
        quantity \<leftarrow> fieldAt (payload req) 2;
        (if 0x7b0 < quantity \<or> quantity = 0 then fails ErrProtocolError h
         else if pastEnd addr quantity then fails ErrIllegalDataAddress h
         else do {
           let expectedLen = boolByteCount (unat quantity);
           count \<leftarrow> go_index (payload req) 4;
           (if count \<noteq> of_nat expectedLen then fails ErrProtocolError h
            else if length (payload req) - 5 \<noteq> expectedLen then fails ErrProtocolError h
            else do {
              data \<leftarrow> go_slice (payload req) 5 (length (payload req));
              args \<leftarrow> decodeBools quantity data;
              (let ((_, err), h1) =
                     HandleCoils H \<lparr>cr_ClientAddr = clientAddr, cr_ClientRole = clientRole,
                       cr_UnitId = unitId req, cr_Addr = addr, cr_Quantity = quantity,
                       cr_IsWrite = True, cr_Args = args\<rparr> h
               in (if err \<noteq> None then Some ((err, None), h1)
                   else replies \<lparr>unitId = unitId req, functionCode = functionCode req,
                          payload = uint16ToBytes BIG_ENDIAN addr @ uint16ToBytes BIG_ENDIAN quantity\<rparr> h1)) }) }) })"

definition serveReadRegisters ::
  "'h RequestHandler \<Rightarrow> string \<Rightarrow> string \<Rightarrow> pdu \<Rightarrow> 'h \<Rightarrow> 'h served" where
  "serveReadRegisters H clientAddr clientRole req h =
     (if length (payload req) \<noteq> 4 then fails ErrProtocolError h
      else do {
        addr \<leftarrow> fieldAt (payload req) 0;
        quantity \<leftarrow> fieldAt (payload req) 2;
        (if 0x007d < quantity \<or> quantity = 0 then fails ErrProtocolError h
         else if pastEnd addr quantity then fails ErrIllegalDataAddress h
         else
           let ((regs, err), h1) =
                 (if functionCode req = fcReadHoldingRegisters
                  then HandleHoldingRegisters H \<lparr>hr_ClientAddr = clientAddr, hr_ClientRole = clientRole,
                         hr_UnitId = unitId req, hr_Addr = addr, hr_Quantity = quantity,
                         hr_IsWrite = False, hr_Args = []\<rparr> h
                  else HandleInputRegisters H \<lparr>ir_ClientAddr = clientAddr, ir_ClientRole = clientRole,
                         ir_UnitId = unitId req, ir_Addr = addr, ir_Quantity = quantity\<rparr> h);
               resCount = length regs
           in (if err = None \<and> resCount \<noteq> unat quantity then fails ErrServerDeviceFailure h1
               else if err \<noteq> None then Some ((err, None), h1)
               else replies \<lparr>unitId = unitId req, functionCode = functionCode req,
                      payload = [of_nat (resCount * 2)] @ uint16sToBytes BIG_ENDIAN regs\<rparr> h1)) })"

definition serveWriteSingleRegister ::
  "'h RequestHandler \<Rightarrow> string \<Rightarrow> string \<Rightarrow> pdu \<Rightarrow> 'h \<Rightarrow> 'h served" where
  "serveWriteSingleRegister H clientAddr clientRole req h =
     (if length (payload req) \<noteq> 4 then fails ErrProtocolError h
      else do {
        addr \<leftarrow> fieldAt (payload req) 0;
        val \<leftarrow> fieldAt (payload req) 2;
        (let ((_, err), h1) =
               HandleHoldingRegisters H \<lparr>hr_ClientAddr = clientAddr, hr_ClientRole = clientRole,
                 hr_UnitId = unitId req, hr_Addr = addr, hr_Quantity = 1, hr_IsWrite = True,
                 hr_Args = [val]\<rparr> h
         in (if err \<noteq> None then Some ((err, None), h1)
             else replies \<lparr>unitId = unitId req, functionCode = functionCode req,
                    payload = uint16ToBytes BIG_ENDIAN addr @ uint16ToBytes BIG_ENDIAN val\<rparr> h1)) })"

definition serveWriteMultipleRegisters ::
  "'h RequestHandler \<Rightarrow> string \<Rightarrow> string \<Rightarrow> pdu \<Rightarrow> 'h \<Rightarrow> 'h served" where
  "serveWriteMultipleRegisters H clientAddr clientRole req h =
     (if length (payload req) < 6 then fails ErrProtocolError h
      else do {
        addr \<leftarrow> fieldAt (payload req) 0;
        quantity \<leftarrow> fieldAt (payload req) 2;
        (if 0x007b < quantity \<or> quantity = 0 then fails ErrProtocolError h
         else if pastEnd addr quantity then fails ErrIllegalDataAddress h
         else do {
           let expectedLen = unat quantity * 2;
           count \<leftarrow> go_index (payload req) 4;
           (if count \<noteq> of_nat expectedLen then fails ErrProtocolError h
            else if length (payload req) - 5 \<noteq> expectedLen then fails ErrProtocolError h
            else do {
              data \<leftarrow> go_slice (payload req) 5 (length (payload req));
              args \<leftarrow> bytesToUint16s BIG_ENDIAN data;
              (let ((_, err), h1) =
                     HandleHoldingRegisters H \<lparr>hr_ClientAddr = clientAddr, hr_ClientRole = clientRole,
                       hr_UnitId = unitId req, hr_Addr = addr, hr_Quantity = quantity,
                       hr_IsWrite = True, hr_Args = args\<rparr> h
               in (if err \<noteq> None then Some ((err, None), h1)
                   else replies \<lparr>unitId = unitId req, functionCode = functionCode req,
                          payload = uint16ToBytes BIG_ENDIAN addr @ uint16ToBytes BIG_ENDIAN quantity\<rparr> h1)) }) }) })"

definition serveUnknown :: "pdu \<Rightarrow> 'h \<Rightarrow> 'h served" where
  "serveUnknown req h =
     replies \<lparr>unitId = unitId req, functionCode = or 0x80 (functionCode req),
       payload = [exIllegalFunction]\<rparr> h"

definition serveSwitch ::
  "'h RequestHandler \<Rightarrow> string \<Rightarrow> string \<Rightarrow> pdu \<Rightarrow> 'h \<Rightarrow> 'h served" where
  "serveSwitch H clientAddr clientRole req h =
     (let fc = functionCode req in
      if fc = fcReadCoils \<or> fc = fcReadDiscreteInputs then serveReadBools H clientAddr clientRole req h
      else if fc = fcWriteSingleCoil then serveWriteSingleCoil H clientAddr clientRole req h
      else if fc = fcWriteMultipleCoils then serveWriteMultipleCoils H clientAddr clientRole req h
      else if fc = fcReadHoldingRegisters \<or> fc = fcReadInputRegisters
        then serveReadRegisters H clientAddr clientRole req h
      else if fc = fcWriteSingleRegister then serveWriteSingleRegister H clientAddr clientRole req h
      else if fc = fcWriteMultipleRegisters then serveWriteMultipleRegisters H clientAddr clientRole req h
      else serveUnknown req h)"

section \<open>One request, one connection\<close>

text \<open>After the switch: \<open>None\<close> closes the link, \<open>Some res\<close> is the response that is written.\<close>

definition finishResponse :: "pdu \<Rightarrow> go_error option \<Rightarrow> pdu option \<Rightarrow> pdu option" where
  "finishResponse req err res =
     (let err1 = (if err = None \<and> res = None then Some ErrServerDeviceFailure else err) in
      case err1 of
        Some e \<Rightarrow>
          if e = ErrProtocolError then None
          else Some \<lparr>unitId = unitId req, functionCode = or 0x80 (functionCode req),
                 payload = [mapErrorToExceptionCode e]\<rparr>
      | None \<Rightarrow> res)"

definition serveRequest ::
  "'h RequestHandler \<Rightarrow> string \<Rightarrow> string \<Rightarrow> pdu \<Rightarrow> 'h \<Rightarrow> (pdu option \<times> 'h) option" where
  "serveRequest H clientAddr clientRole req h = do {
     ((err, res), h1) \<leftarrow> serveSwitch H clientAddr clientRole req h;
     Some (finishResponse req err res, h1) }"

text \<open>
  The loop of \<open>handleTransport\<close>: it returns when a request cannot be read or after a protocol
  error.  A peer can keep it going for ever, so it is an \<open>option\<close>.  A failed write is only logged.
\<close>

partial_function (option) handleTransport ::
  "'t transport \<Rightarrow> 'h RequestHandler \<Rightarrow> string \<Rightarrow> string \<Rightarrow> 't \<Rightarrow> 'h \<Rightarrow> ('t \<times> 'h) option" where
  [code]: "handleTransport T H clientAddr clientRole t h = do {
     (r, t1) \<leftarrow> t_ReadRequest T t;
     (case r of
        Inl e \<Rightarrow> Some (t1, h)
      | Inr req \<Rightarrow> do {
          (reply, h1) \<leftarrow> serveRequest H clientAddr clientRole req h;
          (case reply of
             None \<Rightarrow> Some (snd (t_Close T t1), h1)
           | Some res \<Rightarrow> handleTransport T H clientAddr clientRole (snd (t_WriteResponse T res t1)) h1) }) }"

end
