(* ===== verification/Modbus_Spec.thy ===== *)
theory Modbus_Spec
  imports Server
begin

text \<open>
  The Modbus requests the program knows, as an abstract data type: what they ask for, how they
  are laid out in a PDU, and how a PDU is read back.  Server and client are both measured
  against it.
\<close>

section \<open>Requests\<close>

text \<open>The boolean of a read chooses the read-only table (discrete inputs, input registers).\<close>

datatype mb_request =
    ReadBits bool uint16 nat
  | ReadRegs bool uint16 nat
  | SetBit uint16 bool
  | SetBits uint16 "bool list"
  | SetReg uint16 uint16
  | SetRegs uint16 "uint16 list"

datatype mb_values = Bits "bool list" | Regs "uint16 list"

fun fc_of :: "mb_request \<Rightarrow> uint8" where
  "fc_of (ReadBits ro _ _) = (if ro then fcReadDiscreteInputs else fcReadCoils)"
| "fc_of (ReadRegs ro _ _) = (if ro then fcReadInputRegisters else fcReadHoldingRegisters)"
| "fc_of (SetBit _ _) = fcWriteSingleCoil"
| "fc_of (SetBits _ _) = fcWriteMultipleCoils"
| "fc_of (SetReg _ _) = fcWriteSingleRegister"
| "fc_of (SetRegs _ _) = fcWriteMultipleRegisters"

text \<open>The limits of the protocol: how many items one request may span, and that they exist.\<close>

fun in_range :: "nat \<Rightarrow> uint16 \<Rightarrow> nat \<Rightarrow> bool" where
  "in_range most addr n \<longleftrightarrow> 0 < n \<and> n \<le> most \<and> unat addr + n \<le> 65536"

fun valid_request :: "mb_request \<Rightarrow> bool" where
  "valid_request (ReadBits _ addr n) = in_range 2000 addr n"
| "valid_request (ReadRegs _ addr n) = in_range 125 addr n"
| "valid_request (SetBit _ _) = True"
| "valid_request (SetBits addr vs) = in_range 1968 addr (length vs)"
| "valid_request (SetReg _ _) = True"
| "valid_request (SetRegs addr vs) = in_range 123 addr (length vs)"

abbreviation be16 :: "uint16 \<Rightarrow> byte list" where
  "be16 \<equiv> uint16ToBytes BIG_ENDIAN"

fun request_payload :: "mb_request \<Rightarrow> byte list" where
  "request_payload (ReadBits _ addr n) = be16 addr @ be16 (of_nat n)"
| "request_payload (ReadRegs _ addr n) = be16 addr @ be16 (of_nat n)"
| "request_payload (SetBit addr v) = be16 addr @ [if v then 0xff else 0, 0]"
| "request_payload (SetBits addr vs) =
     be16 addr @ be16 (of_nat (length vs)) @ [of_nat (boolByteCount (length vs))] @ encodeBools vs"
| "request_payload (SetReg addr v) = be16 addr @ be16 v"
| "request_payload (SetRegs addr vs) =
     be16 addr @ be16 (of_nat (length vs)) @ [of_nat (2 * length vs)] @ uint16sToBytes BIG_ENDIAN vs"

definition encode_request :: "uint8 \<Rightarrow> mb_request \<Rightarrow> pdu" where
  "encode_request u q = \<lparr>unitId = u, functionCode = fc_of q, payload = request_payload q\<rparr>"

section \<open>Reading a request\<close>

datatype decoded = Request mb_request | Malformed | BadAddress | UnknownFunction

fun decode_span :: "nat \<Rightarrow> uint16 \<Rightarrow> nat \<Rightarrow> mb_request \<Rightarrow> decoded" where
  "decode_span most addr n q =
     (if n = 0 \<or> most < n then Malformed else if 65536 < unat addr + n then BadAddress else Request q)"

fun words_of :: "byte list \<Rightarrow> uint16 list" where
  "words_of (b # c # bs) = be_word [b, c] # words_of bs"
| "words_of _ = []"

definition bits_of :: "nat \<Rightarrow> byte list \<Rightarrow> bool list" where
  "bits_of n bs = map (\<lambda>i. bit (bs ! (i div 8)) (i mod 8)) [0..<n]"

fun decode_read :: "nat \<Rightarrow> (uint16 \<Rightarrow> nat \<Rightarrow> mb_request) \<Rightarrow> byte list \<Rightarrow> decoded" where
  "decode_read most mk [a1, a0, n1, n0] =
     (let addr = be_word [a1, a0]; n = unat (be_word [n1, n0] :: uint16) in decode_span most addr n (mk addr n))"
| "decode_read most mk _ = Malformed"

fun decode_set_bit :: "byte list \<Rightarrow> decoded" where
  "decode_set_bit [a1, a0, v1, v0] =
     (if (v1 = 0xff \<or> v1 = 0) \<and> v0 = 0 then Request (SetBit (be_word [a1, a0]) (v1 = 0xff)) else Malformed)"
| "decode_set_bit _ = Malformed"

fun decode_set_reg :: "byte list \<Rightarrow> decoded" where
  "decode_set_reg [a1, a0, v1, v0] = Request (SetReg (be_word [a1, a0]) (be_word [v1, v0]))"
| "decode_set_reg _ = Malformed"

text \<open>A write of several items: \<open>width n\<close> bytes hold \<open>n\<close> of them; the byte count must agree.\<close>

fun decode_set ::
  "nat \<Rightarrow> (nat \<Rightarrow> nat) \<Rightarrow> (uint16 \<Rightarrow> nat \<Rightarrow> byte list \<Rightarrow> mb_request) \<Rightarrow> byte list \<Rightarrow> decoded" where
  "decode_set most width mk (a1 # a0 # n1 # n0 # c # d # ds) =
     (let addr = be_word [a1, a0]; n = unat (be_word [n1, n0] :: uint16) in
      case decode_span most addr n (mk addr n (d # ds)) of
        Request q \<Rightarrow> if unat c = width n \<and> length (d # ds) = width n then Request q else Malformed
      | err \<Rightarrow> err)"
| "decode_set most width mk _ = Malformed"

definition decode_request :: "pdu \<Rightarrow> decoded" where
  "decode_request p =
     (let fc = functionCode p; pl = payload p in
      if fc = fcReadCoils then decode_read 2000 (ReadBits False) pl
      else if fc = fcReadDiscreteInputs then decode_read 2000 (ReadBits True) pl
      else if fc = fcReadHoldingRegisters then decode_read 125 (ReadRegs False) pl
      else if fc = fcReadInputRegisters then decode_read 125 (ReadRegs True) pl
      else if fc = fcWriteSingleCoil then decode_set_bit pl
      else if fc = fcWriteSingleRegister then decode_set_reg pl
      else if fc = fcWriteMultipleCoils
        then decode_set 1968 boolByteCount (\<lambda>addr n bs. SetBits addr (bits_of n bs)) pl
      else if fc = fcWriteMultipleRegisters
        then decode_set 123 (\<lambda>n. 2 * n) (\<lambda>addr n bs. SetRegs addr (words_of bs)) pl
      else UnknownFunction)"

section \<open>Answers\<close>

text \<open>The call of the handler a request stands for.\<close>

fun ask :: "'h RequestHandler \<Rightarrow> string \<Rightarrow> string \<Rightarrow> uint8 \<Rightarrow> mb_request \<Rightarrow> 'h
    \<Rightarrow> (mb_values \<times> go_error option) \<times> 'h" where
  "ask H ca cr u (ReadBits ro addr n) h =
     apfst (apfst Bits)
       (if ro then HandleDiscreteInputs H \<lparr>dr_ClientAddr = ca, dr_ClientRole = cr, dr_UnitId = u,
            dr_Addr = addr, dr_Quantity = of_nat n\<rparr> h
        else HandleCoils H \<lparr>cr_ClientAddr = ca, cr_ClientRole = cr, cr_UnitId = u, cr_Addr = addr,
            cr_Quantity = of_nat n, cr_IsWrite = False, cr_Args = []\<rparr> h)"
| "ask H ca cr u (ReadRegs ro addr n) h =
     apfst (apfst Regs)
       (if ro then HandleInputRegisters H \<lparr>ir_ClientAddr = ca, ir_ClientRole = cr, ir_UnitId = u,
            ir_Addr = addr, ir_Quantity = of_nat n\<rparr> h
        else HandleHoldingRegisters H \<lparr>hr_ClientAddr = ca, hr_ClientRole = cr, hr_UnitId = u,
            hr_Addr = addr, hr_Quantity = of_nat n, hr_IsWrite = False, hr_Args = []\<rparr> h)"
| "ask H ca cr u (SetBit addr v) h =
     apfst (apfst Bits) (HandleCoils H \<lparr>cr_ClientAddr = ca, cr_ClientRole = cr, cr_UnitId = u,
       cr_Addr = addr, cr_Quantity = 1, cr_IsWrite = True, cr_Args = [v]\<rparr> h)"
| "ask H ca cr u (SetBits addr vs) h =
     apfst (apfst Bits) (HandleCoils H \<lparr>cr_ClientAddr = ca, cr_ClientRole = cr, cr_UnitId = u,
       cr_Addr = addr, cr_Quantity = of_nat (length vs), cr_IsWrite = True, cr_Args = vs\<rparr> h)"
| "ask H ca cr u (SetReg addr v) h =
     apfst (apfst Regs) (HandleHoldingRegisters H \<lparr>hr_ClientAddr = ca, hr_ClientRole = cr,
       hr_UnitId = u, hr_Addr = addr, hr_Quantity = 1, hr_IsWrite = True, hr_Args = [v]\<rparr> h)"
| "ask H ca cr u (SetRegs addr vs) h =
     apfst (apfst Regs) (HandleHoldingRegisters H \<lparr>hr_ClientAddr = ca, hr_ClientRole = cr,
       hr_UnitId = u, hr_Addr = addr, hr_Quantity = of_nat (length vs), hr_IsWrite = True,
       hr_Args = vs\<rparr> h)"

text \<open>The values a read must bring; a write has none.\<close>

fun fits :: "mb_request \<Rightarrow> mb_values \<Rightarrow> bool" where
  "fits (ReadBits _ _ n) (Bits bs) = (length bs = n)"
| "fits (ReadRegs _ _ n) (Regs rs) = (length rs = n)"
| "fits (ReadBits _ _ _) (Regs _) = False"
| "fits (ReadRegs _ _ _) (Bits _) = False"
| "fits _ _ = True"

fun response_payload :: "mb_request \<Rightarrow> mb_values \<Rightarrow> byte list" where
  "response_payload (ReadBits _ _ n) (Bits bs) = of_nat (boolByteCount n) # encodeBools bs"
| "response_payload (ReadRegs _ _ n) (Regs rs) = of_nat (2 * n) # uint16sToBytes BIG_ENDIAN rs"
| "response_payload (SetBits addr vs) _ = be16 addr @ be16 (of_nat (length vs))"
| "response_payload (SetRegs addr vs) _ = be16 addr @ be16 (of_nat (length vs))"
| "response_payload q _ = request_payload q"

definition exception_pdu :: "uint8 \<Rightarrow> uint8 \<Rightarrow> go_error \<Rightarrow> pdu" where
  "exception_pdu u fc e = \<lparr>unitId = u, functionCode = or 0x80 fc, payload = [mapErrorToExceptionCode e]\<rparr>"

text \<open>The reply to a request whose handler call returned \<open>vals\<close> and \<open>err\<close>; \<open>None\<close> hangs up.\<close>

definition answer :: "uint8 \<Rightarrow> mb_request \<Rightarrow> mb_values \<Rightarrow> go_error option \<Rightarrow> pdu option" where
  "answer u q vals err =
     (case err of
        Some e \<Rightarrow> if e = ErrProtocolError then None else Some (exception_pdu u (fc_of q) e)
      | None \<Rightarrow>
          if fits q vals then Some \<lparr>unitId = u, functionCode = fc_of q, payload = response_payload q vals\<rparr>
          else Some (exception_pdu u (fc_of q) ErrServerDeviceFailure))"

text \<open>What a server does with a PDU.\<close>

definition serve_decoded ::
  "'h RequestHandler \<Rightarrow> string \<Rightarrow> string \<Rightarrow> pdu \<Rightarrow> decoded \<Rightarrow> 'h \<Rightarrow> pdu option \<times> 'h" where
  "serve_decoded H ca cr req d h =
     (case d of
        Malformed \<Rightarrow> (None, h)
      | BadAddress \<Rightarrow> (Some (exception_pdu (unitId req) (functionCode req) ErrIllegalDataAddress), h)
      | UnknownFunction \<Rightarrow> (Some (exception_pdu (unitId req) (functionCode req) ErrIllegalFunction), h)
      | Request q \<Rightarrow>
          (case ask H ca cr (unitId req) q h of
             ((vals, err), h1) \<Rightarrow> (answer (unitId req) q vals err, h1)))"

definition serve_spec ::
  "'h RequestHandler \<Rightarrow> string \<Rightarrow> string \<Rightarrow> pdu \<Rightarrow> 'h \<Rightarrow> pdu option \<times> 'h" where
  "serve_spec H ca cr req h = serve_decoded H ca cr req (decode_request req) h"

section \<open>Encoding and decoding\<close>

lemma be16_parts:
  obtains b1 b0 where "be16 v = [b1, b0]" "be_word [b1, b0] = (v :: uint16)"
proof -
  obtain b1 b0 where "be16 v = [b1, b0]"
    by (rule list2E [of "be16 v"]) simp_all
  moreover have "be_word (be16 v) = v"
    by (simp add: uint16ToBytes_def be_word_be_bytes_id)
  ultimately show ?thesis
    using that by metis
qed

lemma be16_be_word: "be16 (be_word [b1, b0]) = [b1, b0]"
  by (simp add: uint16ToBytes_def be_bytes_be_word_n)

lemma words_of_uint16s: "words_of (uint16sToBytes BIG_ENDIAN vs) = vs"
proof (induction vs)
  case Nil
  then show ?case by simp
next
  case (Cons v vs)
  obtain b1 b0 where "be16 v = [b1, b0]" "be_word [b1, b0] = v"
    by (rule be16_parts)
  with Cons show ?case by simp
qed

lemma bytesToUint16s_words:
  "length bs = 2 * n \<Longrightarrow> bytesToUint16s BIG_ENDIAN bs = Some (words_of bs) \<and> length (words_of bs) = n"
  by (induction bs arbitrary: n rule: words_of.induct)
    (auto simp: bytesToUint16_def go_slice_def, (case_tac n; simp)+)

lemma bits_of_encodeBools: "bits_of (length vs) (encodeBools vs) = vs"
proof -
  have "map (\<lambda>i. bit (encodeBools vs ! (i div 8)) (i mod 8)) [0..<length vs] = map (\<lambda>i. vs ! i) [0..<length vs]"
    by (rule map_cong) (simp_all add: bit_encodeBools boolByteCount_in)
  then show ?thesis
    by (simp add: bits_of_def map_nth)
qed

lemma length_uint16sToBytes [simp]: "length (uint16sToBytes e vs) = 2 * length vs"
  by (induction vs) auto

section \<open>The server implements the specification\<close>

lemma pastEnd_iff:
  assumes "quantity \<noteq> 0"
  shows "pastEnd addr quantity \<longleftrightarrow> 65536 < unat addr + unat quantity"
proof -
  have q: "0 < unat quantity" "unat quantity < 65536" "unat addr < 65536"
    using assms unsigned_less [where 'a = nat, of quantity] unsigned_less [where 'a = nat, of addr]
    by (simp_all add: unat_gt_0)
  have "unat (ucast addr + ucast quantity - 1 :: uint32) = unat addr + unat quantity - 1"
  proof -
    have "(ucast addr + ucast quantity - 1 :: uint32) = of_nat (unat addr + unat quantity - 1)"
      using q by (simp add: of_nat_diff)
    moreover have "unat (of_nat (unat addr + unat quantity - 1) :: uint32) = unat addr + unat quantity - 1"
      by (rule unat_of_nat_eq) (use q in simp)
    ultimately show ?thesis by (simp only:)
  qed
  then have "pastEnd addr quantity \<longleftrightarrow> 65535 < unat addr + unat quantity - 1"
    by (simp only: pastEnd_def word_less_nat_alt) simp
  with q show ?thesis by linarith
qed

lemma fieldAt_in [simp]:
  "fieldAt (a # b # bs) 0 = Some (be_word [a, b])"
  "fieldAt (x # y # a # b # bs) 2 = Some (be_word [a, b])"
  by (simp_all add: fieldAt_def go_slice_def bytesToUint16_def)

text \<open>The two comparisons on \<open>quantity\<close> and the address check, as one case distinction.\<close>

lemma span_cases [consumes 1, case_names bad past good]:
  fixes quantity :: uint16
  assumes "most < 65536"
  obtains "of_nat most < quantity \<or> quantity = 0" "unat quantity = 0 \<or> most < unat quantity"
  | "\<not> of_nat most < quantity" "quantity \<noteq> 0" "pastEnd addr quantity"
    "unat quantity \<noteq> 0" "unat quantity \<le> most" "65536 < unat addr + unat quantity"
  | "\<not> of_nat most < quantity" "quantity \<noteq> 0" "\<not> pastEnd addr quantity"
    "unat quantity \<noteq> 0" "unat quantity \<le> most" "unat addr + unat quantity \<le> 65536"
proof -
  have "of_nat most < quantity \<longleftrightarrow> most < unat quantity"
    using assms by (simp add: word_less_nat_alt unat_of_nat)
  moreover have "quantity = 0 \<longleftrightarrow> unat quantity = 0"
    by (simp add: unat_0_iff)
  ultimately show ?thesis
    using pastEnd_iff [of quantity addr] that by force
qed

text \<open>A case of the switch, carried through to the reply.\<close>

definition finish :: "pdu \<Rightarrow> 'h served \<Rightarrow> (pdu option \<times> 'h) option" where
  "finish req s = do { ((err, res), h1) \<leftarrow> s; Some (finishResponse req err res, h1) }"

lemma finish_simps [simp]:
  "finish req (Some ((None, Some res), h)) = Some (Some res, h)"
  "finish req (Some ((Some e, None), h)) =
     Some (if e = ErrProtocolError then None else Some (exception_pdu (unitId req) (functionCode req) e), h)"
  by (simp_all add: finish_def finishResponse_def exception_pdu_def Let_def)

lemma decode_other:
  "length pl \<noteq> 4 \<Longrightarrow> decode_read most mk pl = Malformed"
  "length pl \<noteq> 4 \<Longrightarrow> decode_set_bit pl = Malformed"
  "length pl \<noteq> 4 \<Longrightarrow> decode_set_reg pl = Malformed"
  "length pl < 6 \<Longrightarrow> decode_set most width mk' pl = Malformed"
proof -
  show "length pl \<noteq> 4 \<Longrightarrow> decode_read most mk pl = Malformed"
    by (cases "(most, mk, pl)" rule: decode_read.cases) simp_all
  show "length pl \<noteq> 4 \<Longrightarrow> decode_set_bit pl = Malformed"
    by (cases pl rule: decode_set_bit.cases) simp_all
  show "length pl \<noteq> 4 \<Longrightarrow> decode_set_reg pl = Malformed"
    by (cases pl rule: decode_set_reg.cases) simp_all
  show "length pl < 6 \<Longrightarrow> decode_set most width mk' pl = Malformed"
    by (cases "(most, width, mk', pl)" rule: decode_set.cases) simp_all
qed

lemma serveReadBools_spec:
  assumes fc: "functionCode req = fc_of (ReadBits ro 0 0)"
  shows "finish req (serveReadBools H ca cr req h) =
    Some (serve_decoded H ca cr req (decode_read 2000 (ReadBits ro) (payload req)) h)"
proof (cases "length (payload req) = 4")
  case False
  then show ?thesis
    by (simp add: serveReadBools_def decode_other serve_decoded_def)
next
  case True
  then obtain a1 a0 n1 n0 where pl: "payload req = [a1, a0, n1, n0]"
    by (rule list4E)
  define addr :: uint16 where "addr = be_word [a1, a0]"
  define n :: uint16 where "n = be_word [n1, n0]"
  obtain vals err h1 where call: "(if functionCode req = fcReadCoils
      then HandleCoils H \<lparr>cr_ClientAddr = ca, cr_ClientRole = cr, cr_UnitId = unitId req, cr_Addr = addr,
             cr_Quantity = n, cr_IsWrite = False, cr_Args = []\<rparr> h
      else HandleDiscreteInputs H \<lparr>dr_ClientAddr = ca, dr_ClientRole = cr, dr_UnitId = unitId req,
             dr_Addr = addr, dr_Quantity = n\<rparr> h) = ((vals, err), h1)"
    by (metis surj_pair)
  then have ask: "ask H ca cr (unitId req) (ReadBits ro addr (unat n)) h = ((Bits vals, err), h1)"
    using fc by (cases ro) simp_all
  note defs = serveReadBools_def pl addr_def [symmetric] n_def [symmetric] serve_decoded_def Let_def
  have "(2000 :: nat) < 65536" by simp
  then show ?thesis
  proof (cases rule: span_cases [where quantity = n and addr = addr])
    case bad
    then show ?thesis by (auto simp: defs)
  next
    case past
    then show ?thesis by (simp add: defs)
  next
    case good
    with call ask fc show ?thesis
      by (cases err) (auto simp: defs answer_def boolByteCount_def exception_pdu_def)
  qed
qed

lemma serveReadRegisters_spec:
  assumes fc: "functionCode req = fc_of (ReadRegs ro 0 0)"
  shows "finish req (serveReadRegisters H ca cr req h) =
    Some (serve_decoded H ca cr req (decode_read 125 (ReadRegs ro) (payload req)) h)"
proof (cases "length (payload req) = 4")
  case False
  then show ?thesis
    by (simp add: serveReadRegisters_def decode_other serve_decoded_def)
next
  case True
  then obtain a1 a0 n1 n0 where pl: "payload req = [a1, a0, n1, n0]"
    by (rule list4E)
  define addr :: uint16 where "addr = be_word [a1, a0]"
  define n :: uint16 where "n = be_word [n1, n0]"
  obtain vals err h1 where call: "(if functionCode req = fcReadHoldingRegisters
      then HandleHoldingRegisters H \<lparr>hr_ClientAddr = ca, hr_ClientRole = cr, hr_UnitId = unitId req,
             hr_Addr = addr, hr_Quantity = n, hr_IsWrite = False, hr_Args = []\<rparr> h
      else HandleInputRegisters H \<lparr>ir_ClientAddr = ca, ir_ClientRole = cr, ir_UnitId = unitId req,
             ir_Addr = addr, ir_Quantity = n\<rparr> h) = ((vals, err), h1)"
    by (metis surj_pair)
  then have ask: "ask H ca cr (unitId req) (ReadRegs ro addr (unat n)) h = ((Regs vals, err), h1)"
    using fc by (cases ro) simp_all
  note defs = serveReadRegisters_def pl addr_def [symmetric] n_def [symmetric] serve_decoded_def Let_def
  have "(125 :: nat) < 65536" by simp
  then show ?thesis
  proof (cases rule: span_cases [where quantity = n and addr = addr])
    case bad
    then show ?thesis by (auto simp: defs)
  next
    case past
    then show ?thesis by (simp add: defs)
  next
    case good
    with call ask fc show ?thesis
      by (cases err) (auto simp: defs answer_def exception_pdu_def mult.commute)
  qed
qed

lemma serveWriteSingleCoil_spec:
  assumes fc: "functionCode req = fcWriteSingleCoil"
  shows "finish req (serveWriteSingleCoil H ca cr req h) =
    Some (serve_decoded H ca cr req (decode_set_bit (payload req)) h)"
proof (cases "length (payload req) = 4")
  case False
  then show ?thesis
    by (simp add: serveWriteSingleCoil_def decode_other serve_decoded_def)
next
  case True
  then obtain a1 a0 v1 v0 where pl: "payload req = [a1, a0, v1, v0]"
    by (rule list4E)
  let ?q = "SetBit (be_word [a1, a0]) (v1 = 0xff)"
  obtain vals err h1 where call: "ask H ca cr (unitId req) ?q h = ((vals, err), h1)"
    by (metis surj_pair)
  then obtain bs where "HandleCoils H \<lparr>cr_ClientAddr = ca, cr_ClientRole = cr, cr_UnitId = unitId req,
      cr_Addr = be_word [a1, a0], cr_Quantity = 1, cr_IsWrite = True, cr_Args = [v1 = 0xff]\<rparr> h
      = ((bs, err), h1)" "vals = Bits bs"
    by (auto simp: apfst_def map_prod_def split: prod.splits)
  with call fc show ?thesis
    by (cases err) (auto simp: serveWriteSingleCoil_def pl go_simps serve_decoded_def answer_def be16_be_word)
qed

lemma serveWriteSingleRegister_spec:
  assumes fc: "functionCode req = fcWriteSingleRegister"
  shows "finish req (serveWriteSingleRegister H ca cr req h) =
    Some (serve_decoded H ca cr req (decode_set_reg (payload req)) h)"
proof (cases "length (payload req) = 4")
  case False
  then show ?thesis
    by (simp add: serveWriteSingleRegister_def decode_other serve_decoded_def)
next
  case True
  then obtain a1 a0 v1 v0 where pl: "payload req = [a1, a0, v1, v0]"
    by (rule list4E)
  let ?q = "SetReg (be_word [a1, a0]) (be_word [v1, v0])"
  obtain vals err h1 where call: "ask H ca cr (unitId req) ?q h = ((vals, err), h1)"
    by (metis surj_pair)
  then obtain rs where "HandleHoldingRegisters H \<lparr>hr_ClientAddr = ca, hr_ClientRole = cr,
      hr_UnitId = unitId req, hr_Addr = be_word [a1, a0], hr_Quantity = 1, hr_IsWrite = True,
      hr_Args = [be_word [v1, v0]]\<rparr> h = ((rs, err), h1)" "vals = Regs rs"
    by (auto simp: apfst_def map_prod_def split: prod.splits)
  with call fc show ?thesis
    by (cases err) (auto simp: serveWriteSingleRegister_def pl serve_decoded_def answer_def)
qed

text \<open>The header of a write of several items.\<close>

lemma length_ge_6E:
  assumes "6 \<le> length xs"
  obtains a1 a0 n1 n0 c d ds where "xs = a1 # a0 # n1 # n0 # c # d # ds"
proof -
  obtain a1 a0 n1 n0 c d where "take 6 xs = [a1, a0, n1, n0, c, d]"
    by (rule list6E [of "take 6 xs"]) (use assms in simp)
  then have "xs = [a1, a0, n1, n0, c, d] @ drop 6 xs"
    by (metis append_take_drop_id)
  then show ?thesis
    by (intro that [of a1 a0 n1 n0 c d "drop 6 xs"]) simp
qed

lemma byte_count_eq: "n < 256 \<Longrightarrow> (c :: uint8) = of_nat n \<longleftrightarrow> unat c = n"
proof
  assume "n < 256" "c = of_nat n"
  then show "unat c = n"
    by (simp add: unat_of_nat_eq)
qed auto

text \<open>What the two multiple writes have in common: the fields, then the count, then the data.\<close>

lemma decode_set_span:
  "decode_span most addr n q = Request q' \<longleftrightarrow> n \<noteq> 0 \<and> n \<le> most \<and> unat addr + n \<le> 65536 \<and> q' = q"
  by auto

lemma multi_parts [simp]:
  "go_index (a1 # a0 # n1 # n0 # c # bs) 4 = Some c"
  "k = 5 + length bs \<Longrightarrow> go_slice (a1 # a0 # n1 # n0 # c # bs) 5 k = Some bs"
  by (simp_all add: go_simps eval_nat_numeral)

lemma serveWriteMultipleCoils_spec:
  assumes fc: "functionCode req = fcWriteMultipleCoils"
  shows "finish req (serveWriteMultipleCoils H ca cr req h) =
    Some (serve_decoded H ca cr req
      (decode_set 1968 boolByteCount (\<lambda>addr n bs. SetBits addr (bits_of n bs)) (payload req)) h)"
proof (cases "6 \<le> length (payload req)")
  case False
  then show ?thesis
    by (simp add: serveWriteMultipleCoils_def decode_other serve_decoded_def)
next
  case True
  then obtain a1 a0 n1 n0 c d ds where pl: "payload req = a1 # a0 # n1 # n0 # c # d # ds"
    by (rule length_ge_6E)
  define addr :: uint16 where "addr = be_word [a1, a0]"
  define n :: uint16 where "n = be_word [n1, n0]"
  let ?N = "boolByteCount (unat n)"
  note defs = serveWriteMultipleCoils_def pl addr_def [symmetric] n_def [symmetric] serve_decoded_def Let_def
  have "(1968 :: nat) < 65536" by simp
  then show ?thesis
  proof (cases rule: span_cases [where quantity = n and addr = addr])
    case bad
    then show ?thesis by (auto simp: defs)
  next
    case past
    then show ?thesis by (simp add: defs)
  next
    case good
    then have N: "c = of_nat ?N \<longleftrightarrow> unat c = ?N"
      using boolByteCount_bound [of "unat n"] by (intro byte_count_eq) simp
    let ?args = "bits_of (unat n) (d # ds)"
    let ?q = "SetBits addr ?args"
    have len: "length ?args = unat n"
      by (simp add: bits_of_def)
    obtain vals err h1 where call: "ask H ca cr (unitId req) ?q h = ((vals, err), h1)"
      by (metis surj_pair)
    then obtain bs where "HandleCoils H \<lparr>cr_ClientAddr = ca, cr_ClientRole = cr, cr_UnitId = unitId req,
        cr_Addr = addr, cr_Quantity = n, cr_IsWrite = True, cr_Args = ?args\<rparr> h = ((bs, err), h1)"
      by (auto simp: len apfst_def map_prod_def split: prod.splits)
    moreover have "Suc (length ds) = ?N \<Longrightarrow> decodeBools n (d # ds) = Some ?args"
      by (simp add: decodeBools_Some bits_of_def)
    ultimately show ?thesis
      using good call N fc len by (cases err) (auto simp: defs answer_def)
  qed
qed

lemma serveWriteMultipleRegisters_spec:
  assumes fc: "functionCode req = fcWriteMultipleRegisters"
  shows "finish req (serveWriteMultipleRegisters H ca cr req h) =
    Some (serve_decoded H ca cr req
      (decode_set 123 (\<lambda>n. 2 * n) (\<lambda>addr n bs. SetRegs addr (words_of bs)) (payload req)) h)"
proof (cases "6 \<le> length (payload req)")
  case False
  then show ?thesis
    by (simp add: serveWriteMultipleRegisters_def decode_other serve_decoded_def)
next
  case True
  then obtain a1 a0 n1 n0 c d ds where pl: "payload req = a1 # a0 # n1 # n0 # c # d # ds"
    by (rule length_ge_6E)
  define addr :: uint16 where "addr = be_word [a1, a0]"
  define n :: uint16 where "n = be_word [n1, n0]"
  let ?N = "unat n * 2"
  note defs = serveWriteMultipleRegisters_def pl addr_def [symmetric] n_def [symmetric] serve_decoded_def Let_def
  have "(123 :: nat) < 65536" by simp
  then show ?thesis
  proof (cases rule: span_cases [where quantity = n and addr = addr])
    case bad
    then show ?thesis by (auto simp: defs)
  next
    case past
    then show ?thesis by (simp add: defs)
  next
    case good
    then have N: "c = of_nat ?N \<longleftrightarrow> unat c = ?N"
      by (intro byte_count_eq) simp
    let ?args = "words_of (d # ds)"
    let ?q = "SetRegs addr ?args"
    show ?thesis
    proof (cases "Suc (length ds) = ?N")
      case False
      with good N show ?thesis by (auto simp: defs mult.commute)
    next
      case True
      then have dec: "bytesToUint16s BIG_ENDIAN (d # ds) = Some ?args" and len: "length ?args = unat n"
        using bytesToUint16s_words [of "d # ds" "unat n"] by simp_all
      obtain vals err h1 where call: "ask H ca cr (unitId req) ?q h = ((vals, err), h1)"
        by (metis surj_pair)
      then obtain rs where "HandleHoldingRegisters H \<lparr>hr_ClientAddr = ca, hr_ClientRole = cr,
          hr_UnitId = unitId req, hr_Addr = addr, hr_Quantity = n, hr_IsWrite = True,
          hr_Args = ?args\<rparr> h = ((rs, err), h1)"
        by (auto simp: len apfst_def map_prod_def split: prod.splits)
      with good call N fc len dec True show ?thesis
        by (cases err) (auto simp: defs answer_def mult.commute)
    qed
  qed
qed

lemma serveRequest_finish: "serveRequest H ca cr req h = finish req (serveSwitch H ca cr req h)"
  by (simp add: serveRequest_def finish_def)

lemma serveRequest_spec: "serveRequest H ca cr req h = Some (serve_spec H ca cr req h)"
proof -
  note S = serveReadBools_spec [of req False H ca cr h] serveReadBools_spec [of req True H ca cr h]
    serveReadRegisters_spec [of req False H ca cr h] serveReadRegisters_spec [of req True H ca cr h]
    serveWriteSingleCoil_spec [of req H ca cr h] serveWriteSingleRegister_spec [of req H ca cr h]
    serveWriteMultipleCoils_spec [of req H ca cr h] serveWriteMultipleRegisters_spec [of req H ca cr h]
  have "finish req (serveUnknown req h) = Some (serve_decoded H ca cr req UnknownFunction h)"
    by (simp add: serveUnknown_def serve_decoded_def exception_pdu_def)
  with S show ?thesis
    unfolding serveRequest_finish serve_spec_def decode_request_def serveSwitch_def Let_def
    by auto
qed

section \<open>Requests survive the encoding\<close>

lemma in_range_word: "in_range most addr n \<Longrightarrow> most < 65536 \<Longrightarrow> unat (of_nat n :: uint16) = n"
  by (auto intro!: unat_of_nat_eq)

lemma decode_read_encode:
  assumes "in_range most addr n" "most < 65536"
  shows "decode_read most mk (be16 addr @ be16 (of_nat n)) = Request (mk addr n)"
proof -
  obtain a1 a0 where "be16 addr = [a1, a0]" "be_word [a1, a0] = addr"
    by (rule be16_parts)
  moreover obtain n1 n0 where "be16 (of_nat n) = [n1, n0]" "be_word [n1, n0] = (of_nat n :: uint16)"
    by (rule be16_parts)
  ultimately show ?thesis
    using assms in_range_word [OF assms] by simp
qed

lemma decode_set_encode:
  assumes "in_range most addr n" "most < 65536" "length bs = width n" "0 < width n" "width n < 256"
  shows "decode_set most width mk (be16 addr @ be16 (of_nat n) @ [of_nat (width n)] @ bs) = Request (mk addr n bs)"
proof -
  obtain a1 a0 where "be16 addr = [a1, a0]" "be_word [a1, a0] = addr"
    by (rule be16_parts)
  moreover obtain n1 n0 where "be16 (of_nat n) = [n1, n0]" "be_word [n1, n0] = (of_nat n :: uint16)"
    by (rule be16_parts)
  moreover obtain d ds where "bs = d # ds"
    using assms(3,4) by (cases bs) auto
  moreover have "unat (of_nat (width n) :: uint8) = width n"
    using assms(5) by (intro unat_of_nat_eq) simp
  ultimately show ?thesis
    using assms in_range_word [OF assms(1,2)] by simp
qed

lemma decode_encode:
  assumes "valid_request q"
  shows "decode_request (encode_request u q) = Request q"
proof (cases q)
  case (ReadBits ro addr n)
  with assms show ?thesis
    by (cases ro) (simp_all add: decode_request_def encode_request_def decode_read_encode del: in_range.simps)
next
  case (ReadRegs ro addr n)
  with assms show ?thesis
    by (cases ro) (simp_all add: decode_request_def encode_request_def decode_read_encode del: in_range.simps)
next
  case (SetBit addr v)
  obtain a1 a0 where "be16 addr = [a1, a0]" "be_word [a1, a0] = addr"
    by (rule be16_parts)
  with SetBit show ?thesis
    by (cases v) (simp_all add: decode_request_def encode_request_def)
next
  case (SetReg addr v)
  obtain a1 a0 where "be16 addr = [a1, a0]" "be_word [a1, a0] = addr"
    by (rule be16_parts)
  moreover obtain v1 v0 where "be16 v = [v1, v0]" "be_word [v1, v0] = v"
    by (rule be16_parts)
  ultimately show ?thesis
    using SetReg by (simp add: decode_request_def encode_request_def)
next
  case (SetBits addr vs)
  have "0 < boolByteCount (length vs)" "boolByteCount (length vs) < 256"
    using assms SetBits boolByteCount_pos boolByteCount_bound [of "length vs"] by auto
  with assms SetBits show ?thesis
    using decode_set_encode [of 1968 addr "length vs" "encodeBools vs" boolByteCount
        "\<lambda>addr n bs. SetBits addr (bits_of n bs)"]
    by (simp add: decode_request_def encode_request_def bits_of_encodeBools)
next
  case (SetRegs addr vs)
  with assms show ?thesis
    using decode_set_encode [of 123 addr "length vs" "uint16sToBytes BIG_ENDIAN vs" "\<lambda>n. 2 * n"
        "\<lambda>addr n bs. SetRegs addr (words_of bs)"]
    by (simp add: decode_request_def encode_request_def words_of_uint16s)
qed

text \<open>What decodes is a valid request of that function code.\<close>

lemma decode_read_Request:
  assumes "decode_read most mk pl = Request q"
  shows "\<exists>addr n. in_range most addr n \<and> q = mk addr n"
proof -
  have "length pl = 4"
    using assms decode_other(1) [of pl most mk] by (metis decoded.distinct(1))
  then obtain a1 a0 n1 n0 where "pl = [a1, a0, n1, n0]"
    by (rule list4E)
  with assms show ?thesis
    by (intro exI [of _ "be_word [a1, a0]"] exI [of _ "unat (be_word [n1, n0] :: uint16)"])
      (auto simp: Let_def split: if_splits)
qed

lemma decode_set_bit_Request: "decode_set_bit pl = Request q \<Longrightarrow> \<exists>addr v. q = SetBit addr v"
  by (cases pl rule: decode_set_bit.cases) (auto split: if_splits)

lemma decode_set_reg_Request: "decode_set_reg pl = Request q \<Longrightarrow> \<exists>addr v. q = SetReg addr v"
  by (cases pl rule: decode_set_reg.cases) auto

lemma decode_set_Request:
  "decode_set most width mk pl = Request q \<Longrightarrow>
   \<exists>addr n bs. in_range most addr n \<and> length bs = width n \<and> q = mk addr n bs"
  by (cases "(most, width, mk, pl)" rule: decode_set.cases)
    (auto simp: Let_def split: if_splits decoded.splits intro!: exI)

lemma length_bits_of [simp]: "length (bits_of n bs) = n"
  by (simp add: bits_of_def)

lemma decode_valid:
  assumes "decode_request p = Request q"
  shows "valid_request q \<and> fc_of q = functionCode p"
  using assms
  by (auto simp: decode_request_def Let_def bytesToUint16s_words split: if_splits
      dest!: decode_read_Request decode_set_bit_Request decode_set_reg_Request decode_set_Request)

lemma serve_valid:
  assumes "valid_request q"
  shows "serveRequest H ca cr (encode_request u q) h =
    (case ask H ca cr u q h of ((vals, err), h1) \<Rightarrow> Some (answer u q vals err, h1))"
proof -
  have "unitId (encode_request u q) = u"
    by (simp add: encode_request_def)
  then show ?thesis
    by (simp add: serveRequest_spec serve_spec_def serve_decoded_def decode_encode [OF assms] split: prod.splits)
qed

lemma uint16ToBytes_not_Nil [simp]: "uint16ToBytes e v \<noteq> []"
  by (metis length_uint16ToBytes list.size(3) zero_neq_numeral)

lemma response_payload_bound:
  assumes "valid_request q" "fits q vals"
  shows "response_payload q vals \<noteq> [] \<and> length (response_payload q vals) \<le> 251"
proof (cases q)
  case (ReadBits ro addr n)
  with assms boolByteCount_bound [of n] show ?thesis by (cases vals) simp_all
next
  case (ReadRegs ro addr n)
  with assms show ?thesis by (cases vals) simp_all
qed simp_all

section \<open>Properties of the server\<close>

text \<open>
  C3: the switch of \<open>handleTransport\<close> implements the protocol.  For every PDU, handler and handler
  state, the server does not panic, and its reply and the handler's new state are those of the
  specification: the PDU is read by the pure decoder, malformed requests hang up, requests past
  the last address and unknown function codes are answered with their exceptions without a
  handler call, and a valid request is one call of the handler, whose values or error make the
  reply.
\<close>

theorem server_implements_spec:
  "serveRequest H clientAddr clientRole req h = Some (serve_spec H clientAddr clientRole req h)"
  by (rule serveRequest_spec)

text \<open>
  C10: every valid request gets through.  The PDU of a valid request, whatever its values, makes the
  server call the handler with exactly that request, and the reply carries the handler's values
  when there are as many as asked for, \<open>ErrServerDeviceFailure\<close> when there are not, and the handler's
  error when it returned one.  There is one exception, against the documentation of \<open>RequestHandler\<close>, by which every
  error is answered with an exception: on \<open>ErrProtocolError\<close> from a handler the server sends nothing and hangs up,
  as it does for a request that it cannot parse.
\<close>

theorem server_serves_valid_request:
  assumes "valid_request q"
  shows "serveRequest H ca cr (encode_request u q) h =
    (case ask H ca cr u q h of ((vals, err), h1) \<Rightarrow> Some (answer u q vals err, h1))"
  using assms by (rule serve_valid)

definition demo_handler :: "uint16 list RequestHandler" where
  "demo_handler = \<lparr>HandleCoils = (\<lambda>r h. (([], Some ErrIllegalFunction), h)),
     HandleDiscreteInputs = (\<lambda>r h. (([], Some ErrIllegalFunction), h)),
     HandleHoldingRegisters = (\<lambda>r h.
       if hr_IsWrite r then (([], None), hr_Args r) else ((take (unat (hr_Quantity r)) h, None), h)),
     HandleInputRegisters = (\<lambda>r h. (([], Some ErrIllegalFunction), h))\<rparr>"

theorem server_serves_valid_request_witness:
  "valid_request (ReadRegs False 0x10 2)
   \<and> serveRequest demo_handler ''peer'' '''' (encode_request 7 (ReadRegs False 0x10 2)) [0x1234, 0x5678, 0x9abc]
     = Some (Some \<lparr>unitId = 7, functionCode = 3, payload = [4, 0x12, 0x34, 0x56, 0x78]\<rparr>,
             [0x1234, 0x5678, 0x9abc])"
  using server_serves_valid_request [of "ReadRegs False 0x10 2" demo_handler "''peer''" "''''" 7
      "[0x1234, 0x5678, 0x9abc]"]
  by (simp add: demo_handler_def answer_def uint16ToBytes_def byte_order_eval)

text \<open>
  C11: the handler is only called with valid requests, and at most once per PDU.  Whatever the peer
  sends, either the handler's state is untouched, or the reply is the answer to one call with a
  request whose quantity is within the limits of its function code, whose addresses do not pass
  0xffff and which carries as many values as its quantity says.
\<close>

theorem handler_sees_valid_requests:
  assumes "serveRequest H ca cr req h = Some (reply, h')"
  shows "h' = h \<or> (\<exists>q vals err. valid_request q \<and> fc_of q = functionCode req
    \<and> ask H ca cr (unitId req) q h = ((vals, err), h') \<and> reply = answer (unitId req) q vals err)"
proof (cases "decode_request req")
  case (Request q)
  then show ?thesis
    using assms decode_valid [OF Request]
    by (auto simp: serveRequest_spec serve_spec_def serve_decoded_def split: prod.splits)
qed (use assms in \<open>simp_all add: serveRequest_spec serve_spec_def serve_decoded_def\<close>)

theorem handler_sees_valid_requests_witness:
  "\<exists>q vals err. valid_request q \<and> fc_of q = 6
     \<and> ask demo_handler ''peer'' '''' 7 q [0] = ((vals, err), [0xabcd])"
proof -
  have "serveRequest demo_handler ''peer'' '''' \<lparr>unitId = 7, functionCode = 6, payload = [0, 1, 0xab, 0xcd]\<rparr> [0]
      = Some (Some \<lparr>unitId = 7, functionCode = 6, payload = [0, 1, 0xab, 0xcd]\<rparr>, [0xabcd])"
    by (simp add: serveRequest_def serveSwitch_def serveWriteSingleRegister_def demo_handler_def
        finishResponse_def uint16ToBytes_def byte_order_eval)
  from handler_sees_valid_requests [OF this] show ?thesis by auto
qed

text \<open>
  C12: the replies are well formed.  A reply goes to the unit of the request, repeats its function
  code or sets the error bit of it, has a payload that is not empty and fits in a frame, and an
  exception reply carries exactly one byte.
\<close>

theorem server_reply_shape:
  assumes "serveRequest H ca cr req h = Some (Some res, h')"
  shows "unitId res = unitId req \<and> payload res \<noteq> [] \<and> length (payload res) \<le> 251
    \<and> (functionCode res = functionCode req
       \<or> functionCode res = or 0x80 (functionCode req) \<and> length (payload res) = 1)"
proof -
  have exc: "unitId (exception_pdu u fc e) = u" "length (payload (exception_pdu u fc e)) = 1"
    "functionCode (exception_pdu u fc e) = or 0x80 fc" for u fc e
    by (simp_all add: exception_pdu_def)
  show ?thesis
  proof (cases "decode_request req")
    case (Request q)
    then have q: "valid_request q" "fc_of q = functionCode req"
      using decode_valid by blast+
    obtain vals err where "answer (unitId req) q vals err = Some res"
      using assms Request by (auto simp: serveRequest_spec serve_spec_def serve_decoded_def split: prod.splits)
    then consider e where "res = exception_pdu (unitId req) (functionCode req) e"
      | "fits q vals" "res = \<lparr>unitId = unitId req, functionCode = functionCode req,
          payload = response_payload q vals\<rparr>"
      using q(2) by (auto simp: answer_def split: option.splits if_splits)
    then show ?thesis
    proof cases
      case 1
      have "payload res \<noteq> []"
        unfolding 1 by (simp add: exception_pdu_def)
      with 1 exc show ?thesis by simp
    next
      case 2
      with response_payload_bound [OF q(1) 2(1)] show ?thesis by simp
    qed
  qed (use assms exc in \<open>auto simp: serveRequest_spec serve_spec_def serve_decoded_def exception_pdu_def\<close>)
qed

theorem server_reply_shape_witness:
  "\<exists>res h'. serveRequest demo_handler ''peer'' '''' (encode_request 7 (ReadRegs False 0x10 2)) [0x1234]
      = Some (Some res, h') \<and> functionCode res = 0x83 \<and> length (payload res) \<le> 251"
proof -
  obtain res h' where r: "serveRequest demo_handler ''peer'' '''' (encode_request 7 (ReadRegs False 0x10 2)) [0x1234]
      = Some (Some res, h')" "functionCode res = 0x83"
    by (subst (asm) serve_valid) (simp_all add: answer_def demo_handler_def exception_pdu_def)
  from server_reply_shape [OF r(1)] r show ?thesis by blast
qed

end
