(* ===== verification/Rtu_Link.thy ===== *)
theory Rtu_Link
  imports Go_Prelude
begin

text \<open>
  The byte links under the transports: the \<open>rtuLink\<close> interface of rtu_transport.go (which
  \<open>net.Conn\<close>, the UDP wrapper and the serial port wrapper satisfy), the clock, \<open>io.ReadFull\<close> of
  the standard library, and the contract of a link that delivers a stream of bytes.
\<close>

section \<open>Links\<close>

text \<open>
  The methods of a link over its state \<open>'s\<close>.  \<open>link_Read n\<close> is \<open>Read\<close> with a buffer of \<open>n\<close>
  bytes: it returns the bytes it stored and its error.  Times are nanoseconds.  \<open>time.Now\<close> and
  \<open>time.Sleep\<close> belong to the environment a link lives in and are carried with it.
\<close>

record 's rtuLink =
  link_Close :: "'s \<Rightarrow> unit result \<times> 's"
  link_Read :: "nat \<Rightarrow> 's \<Rightarrow> (byte list \<times> go_error option) \<times> 's"
  link_Write :: "byte list \<Rightarrow> 's \<Rightarrow> (nat \<times> go_error option) \<times> 's"
  link_SetDeadline :: "int \<Rightarrow> 's \<Rightarrow> unit result \<times> 's"
  time_Now :: "'s \<Rightarrow> int"
  time_Sleep :: "int \<Rightarrow> 's \<Rightarrow> 's"

text \<open>
  \<open>io.ReadFull(r, buf)\<close> with \<open>len(buf) = n\<close>: read until the buffer is full or a read fails.
  A partial buffer at the end of the input is \<open>io.ErrUnexpectedEOF\<close>.  The loop ends only when a
  read makes progress or fails, so it is an \<open>option\<close>.
\<close>

partial_function (option) readLoop ::
  "'s rtuLink \<Rightarrow> nat \<Rightarrow> byte list \<Rightarrow> 's \<Rightarrow> ((byte list \<times> go_error option) \<times> 's) option" where
  [code]: "readLoop L n acc s =
     (if length acc < n then
        (case link_Read L (n - length acc) s of
           ((bs, None), s') \<Rightarrow> readLoop L n (acc @ bs) s'
         | ((bs, Some e), s') \<Rightarrow> Some ((acc @ bs, Some e), s'))
      else Some ((acc, None), s))"

definition io_ReadFull ::
  "'s rtuLink \<Rightarrow> nat \<Rightarrow> 's \<Rightarrow> ((byte list \<times> go_error option) \<times> 's) option" where
  "io_ReadFull L n s = do {
     ((bs, err), s') \<leftarrow> readLoop L n [] s;
     Some ((bs, if n \<le> length bs then None
                else if bs \<noteq> [] \<and> err = Some EOF then Some ErrUnexpectedEOF
                else err), s') }"

section \<open>The stream contract\<close>

text \<open>
  What the transports rely on.  Links report errors of their own, none of those the framing code
  raises.  \<open>avail\<close> is the stream of bytes the peer has sent and the link
  has still to deliver, \<open>sent\<close> the bytes written to the peer so far, \<open>effort\<close> bounds the number
  of reads that return without an error.  A read delivers a prefix of the stream; while the
  stream is not empty it does not fail, and a read that does not fail uses up effort.
\<close>

definition framing_error :: "go_error \<Rightarrow> bool" where
  "framing_error e \<longleftrightarrow> e \<in> {ErrUnknownProtocolId, ErrProtocolError, ErrShortFrame, ErrBadCRC}"

locale byte_reader =
  fixes L :: "'s rtuLink"
    and inv :: "'s \<Rightarrow> bool"
    and avail :: "'s \<Rightarrow> byte list"
    and sent :: "'s \<Rightarrow> byte list"
    and effort :: "'s \<Rightarrow> nat"
  assumes read_inv: "inv s \<Longrightarrow> 0 < n \<Longrightarrow> link_Read L n s = ((bs, e), s') \<Longrightarrow> inv s' \<and> sent s' = sent s"
    and read_prefix: "inv s \<Longrightarrow> 0 < n \<Longrightarrow> link_Read L n s = ((bs, e), s') \<Longrightarrow>
      length bs \<le> n \<and> (e = None \<longrightarrow> avail s = bs @ avail s') \<and> (e \<noteq> None \<longrightarrow> bs = [])"
    and read_ready: "inv s \<Longrightarrow> 0 < n \<Longrightarrow> link_Read L n s = ((bs, Some err), s') \<Longrightarrow>
      avail s = [] \<and> \<not> framing_error err"
    and read_effort: "inv s \<Longrightarrow> 0 < n \<Longrightarrow> link_Read L n s = ((bs, None), s') \<Longrightarrow> effort s' < effort s"
    and read_error_effort: "inv s \<Longrightarrow> 0 < n \<Longrightarrow> link_Read L n s = ((bs, Some err), s') \<Longrightarrow> effort s' \<le> effort s"
begin

text \<open>The loop returns, delivers a prefix of the stream, and fails only at the stream's end.\<close>

lemma readLoop_returns:
  assumes "inv s" "length acc \<le> n"
  shows "\<exists>bs e s'. readLoop L n acc s = Some ((acc @ bs, e), s')
    \<and> inv s' \<and> sent s' = sent s \<and> effort s' \<le> effort s
    \<and> (e = None \<longrightarrow> length (acc @ bs) = n \<and> avail s = bs @ avail s')
    \<and> (e \<noteq> None \<longrightarrow> length (acc @ bs) < n \<and> avail s = bs \<and> \<not> framing_error (the e))"
  using assms
proof (induction "effort s" arbitrary: s acc rule: less_induct)
  case less
  show ?case
  proof (cases "length acc < n")
    case False
    with less.prems show ?thesis by (subst readLoop.simps) auto
  next
    case True
    obtain bs e s1 where r: "link_Read L (n - length acc) s = ((bs, e), s1)"
      by (metis surj_pair)
    have n: "0 < n - length acc"
      using True by simp
    note P = read_inv [OF less.prems(1) n r] read_prefix [OF less.prems(1) n r]
    show ?thesis
    proof (cases e)
      case (Some err)
      with r P read_ready [OF less.prems(1) n] read_error_effort [OF less.prems(1) n] True
      show ?thesis by (subst readLoop.simps) auto
    next
      case None
      then have e: "effort s1 < effort s"
        using r read_effort [OF less.prems(1) n] by auto
      have "length (acc @ bs) \<le> n"
        unfolding length_append using P True by linarith
      then obtain bs' e' s' where IH: "readLoop L n (acc @ bs) s1 = Some (((acc @ bs) @ bs', e'), s')"
        "inv s'" "sent s' = sent s1" "effort s' \<le> effort s1"
        "e' = None \<longrightarrow> length ((acc @ bs) @ bs') = n \<and> avail s1 = bs' @ avail s'"
        "e' \<noteq> None \<longrightarrow> length ((acc @ bs) @ bs') < n \<and> avail s1 = bs' \<and> \<not> framing_error (the e')"
        using less.hyps [OF e] P by blast
      have "readLoop L n acc s = Some ((acc @ (bs @ bs'), e'), s')"
        using True r None IH(1) by (subst readLoop.simps) simp
      then show ?thesis
        using IH P None e by (intro exI [of _ "bs @ bs'"] exI [of _ e'] exI [of _ s']) auto
    qed
  qed
qed

text \<open>\<open>io.ReadFull\<close> on a link: the first \<open>n\<close> bytes of the stream when it has them.\<close>

lemma ReadFull_ok:
  assumes "inv s" "n \<le> length (avail s)"
  obtains s' where "io_ReadFull L n s = Some ((take n (avail s), None), s')"
    and "inv s'" "sent s' = sent s" "avail s' = drop n (avail s)" "effort s' \<le> effort s"
proof -
  obtain bs e s' where r: "readLoop L n [] s = Some ((bs, e), s')" "inv s'" "sent s' = sent s"
    "effort s' \<le> effort s"
    "e = None \<longrightarrow> length bs = n \<and> avail s = bs @ avail s'" "e \<noteq> None \<longrightarrow> length bs < n \<and> avail s = bs \<and> \<not> framing_error (the e)"
    using readLoop_returns [OF assms(1), of "[]" n] by auto
  with assms(2) have "e = None" by auto
  with r show ?thesis
    by (intro that [of s']) (auto simp: io_ReadFull_def)
qed

text \<open>On a shorter stream it returns the whole stream and an error.\<close>

lemma ReadFull_short:
  assumes "inv s" "length (avail s) < n"
  obtains e s' where "io_ReadFull L n s = Some ((avail s, Some e), s')"
    and "inv s'" "sent s' = sent s" "effort s' \<le> effort s" "\<not> framing_error e"
proof -
  obtain bs e s' where r: "readLoop L n [] s = Some ((bs, e), s')" "inv s'" "sent s' = sent s"
    "effort s' \<le> effort s"
    "e = None \<longrightarrow> length bs = n \<and> avail s = bs @ avail s'" "e \<noteq> None \<longrightarrow> length bs < n \<and> avail s = bs \<and> \<not> framing_error (the e)"
    using readLoop_returns [OF assms(1), of "[]" n] by auto
  with assms(2) obtain err where "e = Some err" by auto
  with r show ?thesis
    by (intro that [of "if bs \<noteq> [] \<and> e = Some EOF then ErrUnexpectedEOF else err" s'])
      (auto simp: io_ReadFull_def framing_error_def)
qed

lemma ReadFull_returns:
  assumes "inv s"
  shows "\<exists>bs e s'. io_ReadFull L n s = Some ((bs, e), s') \<and> inv s' \<and> sent s' = sent s
    \<and> effort s' \<le> effort s
    \<and> (e = None \<longrightarrow> length bs = n \<and> avail s = bs @ avail s')
    \<and> (e \<noteq> None \<longrightarrow> length bs < n \<and> bs = avail s \<and> \<not> framing_error (the e))"
proof (cases "n \<le> length (avail s)")
  case True
  then show ?thesis
    by (metis ReadFull_ok [OF assms True] append_take_drop_id length_take min.absorb2)
next
  case False
  then have "length (avail s) < n" by simp
  from ReadFull_short [OF assms this] this show ?thesis by (metis option.distinct(1) option.sel)
qed

end

text \<open>The other operations succeed and leave the stream alone.\<close>

locale byte_link = byte_reader +
  assumes write_ok: "inv s \<Longrightarrow> \<exists>s'. link_Write L bs s = ((length bs, None), s') \<and> inv s'
      \<and> sent s' = sent s @ bs \<and> avail s' = avail s \<and> effort s' = effort s"
    and deadline_ok: "inv s \<Longrightarrow> \<exists>s'. link_SetDeadline L d s = (Ok (), s') \<and> inv s'
      \<and> sent s' = sent s \<and> avail s' = avail s \<and> effort s' = effort s"
    and sleep_ok: "inv s \<Longrightarrow> inv (time_Sleep L d s) \<and> sent (time_Sleep L d s) = sent s
      \<and> avail (time_Sleep L d s) = avail s \<and> effort (time_Sleep L d s) = effort s"

text \<open>
  Links whose clock does not run backwards and whose \<open>time.Sleep\<close> waits for at least the time asked
  for.
\<close>

locale timed_link = byte_link +
  assumes read_clock: "inv s \<Longrightarrow> 0 < n \<Longrightarrow> link_Read L n s = ((bs, e), s') \<Longrightarrow> time_Now L s \<le> time_Now L s'"
    and write_clock: "inv s \<Longrightarrow> link_Write L bs s = (w, s') \<Longrightarrow> time_Now L s \<le> time_Now L s'"
    and deadline_clock: "inv s \<Longrightarrow> link_SetDeadline L d s = (u, s') \<Longrightarrow> time_Now L s \<le> time_Now L s'"
    and sleep_clock: "inv s \<Longrightarrow> time_Now L s \<le> time_Now L (time_Sleep L d s)
      \<and> time_Now L s + d \<le> time_Now L (time_Sleep L d s)"
begin

lemma readLoop_clock:
  "inv s \<Longrightarrow> readLoop L n acc s = Some (r, s') \<Longrightarrow> time_Now L s \<le> time_Now L s'"
proof (induction "effort s" arbitrary: s acc rule: less_induct)
  case less
  obtain bs e s1 where r: "link_Read L (n - length acc) s = ((bs, e), s1)"
    by (metis surj_pair)
  show ?case
  proof (cases "length acc < n")
    case False
    with less.prems(2) show ?thesis by (subst (asm) readLoop.simps) simp
  next
    case True
    then have n: "0 < n - length acc" by simp
    note C = read_clock [OF less.prems(1) n r]
    show ?thesis
    proof (cases e)
      case (Some err)
      with less.prems(2) True r C show ?thesis by (subst (asm) readLoop.simps) simp
    next
      case None
      have "readLoop L n (acc @ bs) s1 = Some (r, s')"
        using less.prems(2) True r None by (subst (asm) readLoop.simps) simp
      with less.hyps [of s1 "acc @ bs"] show ?thesis
        using read_effort [OF less.prems(1) n] read_inv [OF less.prems(1) n r] r None C
        by (metis order_trans)
    qed
  qed
qed

lemma ReadFull_clock:
  assumes "inv s" "io_ReadFull L n s = Some (r, s')"
  shows "time_Now L s \<le> time_Now L s'"
proof -
  obtain q where "readLoop L n [] s = Some (q, s')"
    using assms(2) by (auto simp: io_ReadFull_def split: prod.splits bind_splits)
  with assms(1) show ?thesis by (rule readLoop_clock)
qed

end

section \<open>Links that record\<close>

text \<open>
  A link with a record of its writes and of its reads, each with the time at which it was called.  Over
  it the code does what it does over the link itself.
\<close>

datatype link_event = Wrote int "byte list" | Asked int

definition traced :: "'s rtuLink \<Rightarrow> ('s \<times> link_event list) rtuLink" where
  "traced L =
     \<lparr>link_Close = (\<lambda>(s, log). apsnd (\<lambda>s'. (s', log)) (link_Close L s)),
      link_Read = (\<lambda>n (s, log). apsnd (\<lambda>s'. (s', log @ [Asked (time_Now L s)])) (link_Read L n s)),
      link_Write = (\<lambda>bs (s, log). apsnd (\<lambda>s'. (s', log @ [Wrote (time_Now L s) bs])) (link_Write L bs s)),
      link_SetDeadline = (\<lambda>d (s, log). apsnd (\<lambda>s'. (s', log)) (link_SetDeadline L d s)),
      time_Now = (\<lambda>(s, log). time_Now L s),
      time_Sleep = (\<lambda>d (s, log). (time_Sleep L d s, log))\<rparr>"

lemma traced_simps [simp]:
  "link_Read (traced L) n (s, log) = apsnd (\<lambda>s'. (s', log @ [Asked (time_Now L s)])) (link_Read L n s)"
  "link_Write (traced L) bs (s, log) = apsnd (\<lambda>s'. (s', log @ [Wrote (time_Now L s) bs])) (link_Write L bs s)"
  "link_SetDeadline (traced L) d (s, log) = apsnd (\<lambda>s'. (s', log)) (link_SetDeadline L d s)"
  "time_Now (traced L) (s, log) = time_Now L s"
  "time_Sleep (traced L) d (s, log) = (time_Sleep L d s, log)"
  by (simp_all add: traced_def)

text \<open>
  A computation tracks another one on the recording link: where that returns, it returns the same,
  has read at the time \<open>T\<close> or later and has done nothing else to the link.  \<open>m log\<close> adds the record to a state,
  \<open>good\<close> is an invariant of the states.
\<close>

definition tracks ::
  "('t \<Rightarrow> bool) \<Rightarrow> (link_event list \<Rightarrow> 't \<Rightarrow> 'u) \<Rightarrow> int \<Rightarrow> link_event list \<Rightarrow> ('a \<times> 't) option \<Rightarrow> ('a \<times> 'u) option \<Rightarrow> bool" where
  "tracks good m T log x x' \<longleftrightarrow>
     (\<forall>r t. x = Some (r, t) \<longrightarrow>
        good t \<and> (\<exists>reads. x' = Some (r, m (log @ map Asked reads) t) \<and> list_all (\<lambda>u. T \<le> u) reads))"

lemma tracks_Some: "good t \<Longrightarrow> t' = m log t \<Longrightarrow> tracks good m T log (Some (r, t)) (Some (r, t'))"
  unfolding tracks_def by (auto intro!: exI [of _ "[]"])

lemma tracks_bind: "(\<And>a. tracks good m T log (f a) (g a)) \<Longrightarrow> tracks good m T log (x \<bind> f) (x \<bind> g)"
  by (cases x) (auto simp: tracks_def)

lemma tracks_if:
  "(b \<Longrightarrow> tracks good m T log x x') \<Longrightarrow> (\<not> b \<Longrightarrow> tracks good m T log y y') \<Longrightarrow>
    tracks good m T log (if b then x else y) (if b then x' else y')"
  by simp

lemma tracks_sum:
  "(\<And>err. tracks good m T log (l err) (l' err)) \<Longrightarrow> (\<And>v. tracks good m T log (k v) (k' v)) \<Longrightarrow>
    tracks good m T log (case s of Inl err \<Rightarrow> l err | Inr v \<Rightarrow> k v) (case s of Inl err \<Rightarrow> l' err | Inr v \<Rightarrow> k' v)"
  by (cases s) simp_all

text \<open>One computation after another, on the record that the first one leaves.\<close>

lemma tracks_state:
  assumes "tracks good' m' T log x x'"
    and "\<And>v t log'. good' t \<Longrightarrow> tracks good m T log' (h v t) (h' v (m' log' t))"
  shows "tracks good m T log (x \<bind> (\<lambda>(v, t). h v t)) (x' \<bind> (\<lambda>(v, t). h' v t))"
  unfolding tracks_def
proof (intro allI impI)
  fix r t
  assume "x \<bind> (\<lambda>(v, t). h v t) = Some (r, t)"
  then obtain v u where x: "x = Some (v, u)" "h v u = Some (r, t)"
    by (auto simp: bind_eq_Some_conv)
  with assms(1) obtain reads where 1: "good' u" "x' = Some (v, m' (log @ map Asked reads) u)" "list_all (\<lambda>u. T \<le> u) reads"
    by (auto simp: tracks_def)
  from assms(2) [OF 1(1)] x(2) obtain reads' where "good t" "h' v (m' (log @ map Asked reads) u) = Some (r, m ((log @ map Asked reads) @ map Asked reads') t)"
    "list_all (\<lambda>u. T \<le> u) reads'"
    unfolding tracks_def by blast
  with 1 show "good t \<and> (\<exists>reads. x' \<bind> (\<lambda>(v, t). h' v t) = Some (r, m (log @ map Asked reads) t) \<and> list_all (\<lambda>u. T \<le> u) reads)"
    by (intro conjI exI [of _ "reads @ reads'"]) simp_all
qed

context timed_link begin

abbreviation (input) "from_time T s \<equiv> inv s \<and> T \<le> time_Now L s"

lemma readLoop_traced:
  assumes "from_time T s"
  shows "tracks (from_time T) (\<lambda>log s. (s, log)) T log (readLoop L n acc s) (readLoop (traced L) n acc (s, log))"
  using assms
proof (induction "effort s" arbitrary: s acc log rule: less_induct)
  case less
  obtain bs e s1 where r: "link_Read L (n - length acc) s = ((bs, e), s1)"
    by (metis surj_pair)
  show ?case
  proof (cases "length acc < n")
    case False
    with less.prems show ?thesis
      by (subst (1 2) readLoop.simps) (simp add: tracks_Some)
  next
    case True
    then have n: "0 < n - length acc" by simp
    have g: "from_time T s1"
      using read_inv [OF _ n r] read_clock [OF _ n r] less.prems by force
    let ?log = "log @ [Asked (time_Now L s)]"
    have one: "tracks (from_time T) (\<lambda>log s. (s, log)) T log x (f (s1, ?log))"
      if "tracks (from_time T) (\<lambda>log s. (s, log)) T ?log x (f (s1, ?log))" for x and f :: "'a \<times> link_event list \<Rightarrow> ((byte list \<times> go_error option) \<times> 'a \<times> link_event list) option"
      unfolding tracks_def
    proof (intro allI impI)
      fix q t
      assume "x = Some (q, t)"
      with that obtain reads where "from_time T t" "f (s1, ?log) = Some (q, (t, ?log @ map Asked reads))" "list_all (\<lambda>u. T \<le> u) reads"
        unfolding tracks_def by blast
      with less.prems show "from_time T t \<and> (\<exists>reads. f (s1, ?log) = Some (q, (t, log @ map Asked reads)) \<and> list_all (\<lambda>u. T \<le> u) reads)"
        by (intro conjI exI [of _ "time_Now L s # reads"]) simp_all
    qed
    show ?thesis
    proof (cases e)
      case (Some err)
      with True r g show ?thesis
        by (subst (1 2) readLoop.simps) (simp add: one [where f = "\<lambda>t. Some ((acc @ bs, Some err), t)"] tracks_Some)
    next
      case None
      then have "effort s1 < effort s"
        using r read_effort [OF _ n] less.prems by auto
      from less.hyps [OF this g] None True r show ?thesis
        by (subst (1 2) readLoop.simps) (simp add: one [where f = "\<lambda>t. readLoop (traced L) n (acc @ bs) t"])
    qed
  qed
qed

lemma ReadFull_traced:
  "from_time T s \<Longrightarrow> tracks (from_time T) (\<lambda>log s. (s, log)) T log (io_ReadFull L n s) (io_ReadFull (traced L) n (s, log))"
  unfolding io_ReadFull_def case_prod_beta' [symmetric]
  by (rule tracks_state [OF readLoop_traced]) (auto intro!: tracks_Some)

lemma tracks_read:
  assumes "from_time T s"
    and "\<And>bs err s' log'. from_time T s' \<Longrightarrow> tracks good m T log' (f bs err s') (g bs err (s', log'))"
  shows "tracks good m T log (io_ReadFull L n s \<bind> (\<lambda>((bs, err), s'). f bs err s'))
    (io_ReadFull (traced L) n (s, log) \<bind> (\<lambda>((bs, err), s'). g bs err s'))"
  using tracks_state [OF ReadFull_traced [OF assms(1)], of good m "\<lambda>(bs, err) s'. f bs err s'" "\<lambda>(bs, err) s'. g bs err s'"] assms(2)
  by (auto simp: case_prod_beta')

end

end
