(* ===== verification/Net_Conn.thy ===== *)
theory Net_Conn
  imports Rtu_Link
begin

text \<open>
  Sockets of the standard library as links, and internal/modbus/udp.go, the wrapper that turns
  datagrams into a byte stream.
\<close>

section \<open>Stream sockets\<close>

text \<open>
  A connected \<open>net.Conn\<close>: the segments that have arrived and what a read returns once they are
  used up (\<open>io.EOF\<close> when the peer has closed, the deadline error when it stays silent), what has
  been written, and the clock.  A read on a stream socket takes at most what the buffer holds
  from the first segment and leaves the rest.  The deadline is kept but not consulted: a read of a silent
  peer returns the error of the deadline at once instead of waiting for it.  That the reads return does not show that
  a deadline was set, then; a client over TCP is proved to read under the one that it sets, and on serial ports
  the deadline is what ends the reads.
\<close>

record sock =
  rx :: "byte list list"
  rx_end :: go_error
  tx :: "byte list"
  is_open :: bool
  sock_deadline :: int
  clock :: int

definition sock_Read :: "nat \<Rightarrow> sock \<Rightarrow> (byte list \<times> go_error option) \<times> sock" where
  "sock_Read n s =
     (if \<not> is_open s then (([], Some ErrNetClosed), s)
      else case rx s of
        [] \<Rightarrow> (([], Some (rx_end s)), s)
      | seg # segs \<Rightarrow>
          (if length seg \<le> n then ((seg, None), s\<lparr>rx := segs\<rparr>)
           else ((take n seg, None), s\<lparr>rx := drop n seg # segs\<rparr>)))"

definition sock_Write :: "byte list \<Rightarrow> sock \<Rightarrow> (nat \<times> go_error option) \<times> sock" where
  "sock_Write bs s =
     (if is_open s then ((length bs, None), s\<lparr>tx := tx s @ bs\<rparr>) else ((0, Some ErrNetClosed), s))"

definition sock_Close :: "sock \<Rightarrow> unit result \<times> sock" where
  "sock_Close s = (if is_open s then (Ok (), s\<lparr>is_open := False\<rparr>) else (Err ErrNetClosed, s))"

definition sock_SetDeadline :: "int \<Rightarrow> sock \<Rightarrow> unit result \<times> sock" where
  "sock_SetDeadline d s =
     (if is_open s then (Ok (), s\<lparr>sock_deadline := d\<rparr>) else (Err ErrNetClosed, s))"

definition sock_Sleep :: "int \<Rightarrow> sock \<Rightarrow> sock" where
  "sock_Sleep d s = s\<lparr>clock := clock s + max 0 d\<rparr>"

definition sockLink :: "sock rtuLink" where
  "sockLink = \<lparr>link_Close = sock_Close, link_Read = sock_Read, link_Write = sock_Write,
     link_SetDeadline = sock_SetDeadline, time_Now = clock, time_Sleep = sock_Sleep\<rparr>"

definition sock_avail :: "sock \<Rightarrow> byte list" where
  "sock_avail s = concat (rx s)"

definition sock_effort :: "sock \<Rightarrow> nat" where
  "sock_effort s = length (concat (rx s)) + length (rx s)"

text \<open>An open socket whose read error is one of its own.\<close>

definition sock_inv :: "sock \<Rightarrow> bool" where
  "sock_inv s \<longleftrightarrow> is_open s \<and> \<not> framing_error (rx_end s)"

lemmas sock_defs = sockLink_def sock_Read_def sock_Write_def sock_Close_def sock_SetDeadline_def
  sock_Sleep_def sock_avail_def sock_effort_def sock_inv_def

text \<open>A stream socket is a byte link while it is open.\<close>

interpretation tcp_sock: byte_link sockLink sock_inv sock_avail tx sock_effort
  by unfold_locales (auto simp: sock_defs split: list.splits if_splits)

interpretation tcp_clock: timed_link sockLink sock_inv sock_avail tx sock_effort
  by unfold_locales (auto simp: sock_defs split: list.splits if_splits)

text \<open>Reading changes neither the deadline nor the clock of a socket.\<close>

interpretation kept: byte_reader sockLink "\<lambda>s. sock_inv s \<and> sock_deadline s = d \<and> clock s = t" sock_avail tx sock_effort
  for d t
  by unfold_locales (auto simp: sock_defs split: list.splits if_splits)

section \<open>Datagram sockets\<close>

text \<open>
  A connected UDP socket: each read takes one datagram and loses what the buffer does not hold.
  \<open>datagrams\<close> are the datagrams still to be read.
\<close>

locale datagram_link =
  fixes D :: "'d rtuLink"
    and dinv :: "'d \<Rightarrow> bool"
    and datagrams :: "'d \<Rightarrow> byte list list"
    and dsent :: "'d \<Rightarrow> byte list"
  assumes dread_some: "dinv d \<Longrightarrow> datagrams d = g # gs \<Longrightarrow>
      \<exists>d'. link_Read D n d = ((take n g, None), d') \<and> dinv d' \<and> datagrams d' = gs \<and> dsent d' = dsent d"
    and dread_none: "dinv d \<Longrightarrow> datagrams d = [] \<Longrightarrow>
      \<exists>e d'. link_Read D n d = (([], Some e), d') \<and> \<not> framing_error e \<and> dinv d' \<and> datagrams d' = [] \<and> dsent d' = dsent d"
    and dwrite_ok: "dinv d \<Longrightarrow> \<exists>d'. link_Write D bs d = ((length bs, None), d') \<and> dinv d'
      \<and> dsent d' = dsent d @ bs \<and> datagrams d' = datagrams d"
    and ddeadline_ok: "dinv d \<Longrightarrow> \<exists>d'. link_SetDeadline D t d = (Ok (), d') \<and> dinv d'
      \<and> dsent d' = dsent d \<and> datagrams d' = datagrams d"
    and dsleep_ok: "dinv d \<Longrightarrow> dinv (time_Sleep D t d) \<and> dsent (time_Sleep D t d) = dsent d
      \<and> datagrams (time_Sleep D t d) = datagrams d"

definition udp_Read :: "nat \<Rightarrow> sock \<Rightarrow> (byte list \<times> go_error option) \<times> sock" where
  "udp_Read n s =
     (if \<not> is_open s then (([], Some ErrNetClosed), s)
      else case rx s of
        [] \<Rightarrow> (([], Some (rx_end s)), s)
      | g # gs \<Rightarrow> ((take n g, None), s\<lparr>rx := gs\<rparr>))"

definition udpConn :: "sock rtuLink" where
  "udpConn = sockLink\<lparr>link_Read := udp_Read\<rparr>"

interpretation udp_sock: datagram_link udpConn sock_inv rx tx
  by unfold_locales (auto simp: sock_defs udpConn_def udp_Read_def)

section \<open>udpSockWrapper\<close>

definition maxTCPFrameLength :: nat where
  "maxTCPFrameLength = 260"

record 'd udpSockWrapper =
  leftoverCount :: nat
  rxbuf :: "byte list"
  usw_sock :: 'd

definition newUDPSockWrapper :: "'d \<Rightarrow> 'd udpSockWrapper" where
  "newUDPSockWrapper sock =
     \<lparr>leftoverCount = 0, rxbuf = replicate maxTCPFrameLength 0, usw_sock = sock\<rparr>"

text \<open>\<open>copy(dst, src)\<close> overwrites the front of \<open>dst\<close>.\<close>

definition go_copy :: "byte list \<Rightarrow> byte list \<Rightarrow> byte list" where
  "go_copy dst src = take (length dst) src @ drop (length src) dst"

text \<open>
  \<open>Read\<close> with a buffer of \<open>n\<close> bytes.  When the socket read fails, \<open>rlen\<close> is returned but nothing
  is copied: the caller's buffer, zero in all calls of the code, keeps its bytes.
\<close>

definition usw_Read ::
  "'d rtuLink \<Rightarrow> nat \<Rightarrow> 'd udpSockWrapper \<Rightarrow> (byte list \<times> go_error option) \<times> 'd udpSockWrapper" where
  "usw_Read D n usw =
     (if 0 < leftoverCount usw then
        let left = take (leftoverCount usw) (rxbuf usw);
            copied = min n (length left);
            rxbuf' = (if copied < leftoverCount usw then go_copy (rxbuf usw) (drop copied left)
                      else rxbuf usw)
        in ((take copied left, None),
            usw\<lparr>rxbuf := rxbuf', leftoverCount := leftoverCount usw - copied\<rparr>)
      else
        let ((got, err), sock') = link_Read D (length (rxbuf usw)) (usw_sock usw);
            rlen = length got;
            rxbuf1 = go_copy (rxbuf usw) got
        in case err of
             Some e \<Rightarrow> ((replicate rlen 0, Some e), usw\<lparr>rxbuf := rxbuf1, usw_sock := sock'\<rparr>)
           | None \<Rightarrow>
               let copied = min n rlen;
                   rxbuf2 = (if copied < rlen then go_copy rxbuf1 (drop copied (take rlen rxbuf1))
                             else rxbuf1)
               in ((take copied (take rlen rxbuf1), None),
                   usw\<lparr>rxbuf := rxbuf2, leftoverCount := rlen - copied, usw_sock := sock'\<rparr>))"

text \<open>The other methods pass the call on to the socket.\<close>

definition uswLink :: "'d rtuLink \<Rightarrow> 'd udpSockWrapper rtuLink" where
  "uswLink D =
     \<lparr>link_Close = (\<lambda>usw. apsnd (\<lambda>s. usw\<lparr>usw_sock := s\<rparr>) (link_Close D (usw_sock usw))),
      link_Read = usw_Read D,
      link_Write = (\<lambda>bs usw. apsnd (\<lambda>s. usw\<lparr>usw_sock := s\<rparr>) (link_Write D bs (usw_sock usw))),
      link_SetDeadline = (\<lambda>t usw. apsnd (\<lambda>s. usw\<lparr>usw_sock := s\<rparr>) (link_SetDeadline D t (usw_sock usw))),
      time_Now = (\<lambda>usw. time_Now D (usw_sock usw)),
      time_Sleep = (\<lambda>t usw. usw\<lparr>usw_sock := time_Sleep D t (usw_sock usw)\<rparr>)\<rparr>"

text \<open>The bytes held back from the last datagram fit in the buffer.\<close>

definition usw_inv :: "('d \<Rightarrow> bool) \<Rightarrow> 'd udpSockWrapper \<Rightarrow> bool" where
  "usw_inv dinv usw \<longleftrightarrow> leftoverCount usw \<le> length (rxbuf usw)
     \<and> length (rxbuf usw) = maxTCPFrameLength \<and> dinv (usw_sock usw)"

text \<open>The stream: the bytes held back, then what each waiting datagram leaves in the buffer.\<close>

definition usw_avail :: "('d \<Rightarrow> byte list list) \<Rightarrow> 'd udpSockWrapper \<Rightarrow> byte list" where
  "usw_avail datagrams usw =
     take (leftoverCount usw) (rxbuf usw)
     @ concat (map (take maxTCPFrameLength) (datagrams (usw_sock usw)))"

definition usw_effort :: "('d \<Rightarrow> byte list list) \<Rightarrow> 'd udpSockWrapper \<Rightarrow> nat" where
  "usw_effort datagrams usw = length (usw_avail datagrams usw) + length (datagrams (usw_sock usw))"

lemma length_go_copy [simp]: "length (go_copy dst src) = length dst"
  by (simp add: go_copy_def min_def)

lemma take_go_copy: "k = length src \<Longrightarrow> k \<le> length dst \<Longrightarrow> take k (go_copy dst src) = src"
  by (simp add: go_copy_def)


lemma usw_upd:
  fixes usw :: "'d udpSockWrapper"
  defines "u \<equiv> \<lambda>a b c. usw\<lparr>rxbuf := a, leftoverCount := b, usw_sock := c\<rparr>"
  shows "usw_avail datagrams (u a b c) = take b a @ concat (map (take maxTCPFrameLength) (datagrams c))"
    and "usw_inv dinv (u a b c) \<longleftrightarrow> b \<le> length a \<and> length a = maxTCPFrameLength \<and> dinv c"
    and "usw_sock (u a b c) = c"
  by (simp_all add: u_def usw_avail_def usw_inv_def)

text \<open>A read that is served from the bytes held back.\<close>

lemma usw_Read_left:
  assumes "usw_inv dinv usw" "0 < leftoverCount usw" "0 < n"
  shows "\<exists>bs usw'. usw_Read D n usw = ((bs, None), usw') \<and> bs \<noteq> [] \<and> length bs \<le> n
    \<and> usw_inv dinv usw' \<and> usw_sock usw' = usw_sock usw
    \<and> usw_avail datagrams usw = bs @ usw_avail datagrams usw'"
proof -
  let ?lo = "leftoverCount usw"
  let ?left = "take ?lo (rxbuf usw)"
  let ?c = "min n ?lo"
  let ?buf = "if ?c < ?lo then go_copy (rxbuf usw) (drop ?c ?left) else rxbuf usw"
  have lo: "?lo \<le> length (rxbuf usw)" "length ?left = ?lo"
    using assms(1) by (simp_all add: usw_inv_def)
  then have "usw_Read D n usw = ((take ?c ?left, None), usw\<lparr>rxbuf := ?buf, leftoverCount := ?lo - ?c\<rparr>)"
    using assms(2) by (simp add: usw_Read_def Let_def)
  moreover have "take (?lo - ?c) ?buf = drop ?c ?left"
    using lo by (auto simp: take_go_copy)
  then have "?left = take ?c ?left @ take (?lo - ?c) ?buf"
    by (simp only: append_take_drop_id)
  then have "usw_avail datagrams usw =
      take ?c ?left @ usw_avail datagrams (usw\<lparr>rxbuf := ?buf, leftoverCount := ?lo - ?c\<rparr>)"
    unfolding usw_avail_def by simp
  ultimately show ?thesis
    using assms lo by (intro exI conjI) (auto simp: usw_inv_def)
qed

context datagram_link begin

text \<open>A read that takes the next datagram off the socket.\<close>

lemma usw_Read_datagram:
  assumes "usw_inv dinv usw" "leftoverCount usw = 0" "datagrams (usw_sock usw) = g # gs"
  shows "\<exists>bs usw'. usw_Read D n usw = ((bs, None), usw') \<and> length bs \<le> n
    \<and> usw_inv dinv usw' \<and> dsent (usw_sock usw') = dsent (usw_sock usw)
    \<and> datagrams (usw_sock usw') = gs
    \<and> usw_avail datagrams usw = bs @ usw_avail datagrams usw'"
proof -
  let ?buf = "rxbuf usw"
  let ?got = "take maxTCPFrameLength g"
  let ?r = "length ?got"
  let ?c = "min n ?r"
  let ?buf1 = "go_copy ?buf ?got"
  let ?buf2 = "if ?c < ?r then go_copy ?buf1 (drop ?c (take ?r ?buf1)) else ?buf1"
  have len: "length ?buf = maxTCPFrameLength" "dinv (usw_sock usw)"
    using assms(1) by (simp_all add: usw_inv_def)
  obtain d' where d': "link_Read D maxTCPFrameLength (usw_sock usw) = ((?got, None), d')"
    "dinv d'" "datagrams d' = gs" "dsent d' = dsent (usw_sock usw)"
    using dread_some [OF len(2) assms(3)] by blast
  have got: "take ?r ?buf1 = ?got"
    using len by (intro take_go_copy) simp_all
  let ?usw = "usw\<lparr>rxbuf := ?buf2, leftoverCount := ?r - ?c, usw_sock := d'\<rparr>"
  have read: "usw_Read D n usw = ((take ?c ?got, None), ?usw)"
    using assms(2) d'(1) by (simp only: usw_Read_def len Let_def got option.case prod.case if_False less_irrefl)
  have "take (?r - ?c) ?buf2 = drop ?c ?got"
    using len by (auto simp: got take_go_copy)
  then have split: "?got = take ?c ?got @ take (?r - ?c) ?buf2"
    by (simp only: append_take_drop_id)
  have "usw_avail datagrams usw = ?got @ concat (map (take maxTCPFrameLength) gs)"
    using assms(2,3) by (simp add: usw_avail_def)
  also have "\<dots> = take ?c ?got @ take (?r - ?c) ?buf2 @ concat (map (take maxTCPFrameLength) gs)"
    by (subst split) (simp only: append_assoc)
  also have "\<dots> = take ?c ?got @ usw_avail datagrams ?usw"
    by (simp only: usw_upd d'(3))
  finally have av: "usw_avail datagrams usw = take ?c ?got @ usw_avail datagrams ?usw" .
  have inv: "usw_inv dinv ?usw"
    using len d'(2) by (auto simp: usw_upd)
  have "length (take ?c ?got) \<le> n"
    by simp
  moreover have "dsent (usw_sock ?usw) = dsent (usw_sock usw)" "datagrams (usw_sock ?usw) = gs"
    using d'(3,4) by (simp_all only: usw_upd)
  ultimately show ?thesis
    using read inv av by blast
qed

lemma usw_Read_none:
  assumes "usw_inv dinv usw" "leftoverCount usw = 0" "datagrams (usw_sock usw) = []"
  shows "\<exists>e usw'. usw_Read D n usw = (([], Some e), usw') \<and> \<not> framing_error e
    \<and> usw_inv dinv usw' \<and> dsent (usw_sock usw') = dsent (usw_sock usw)
    \<and> usw_avail datagrams usw = [] \<and> usw_effort datagrams usw' = 0"
proof -
  have len: "length (rxbuf usw) = maxTCPFrameLength" "dinv (usw_sock usw)"
    using assms(1) by (simp_all add: usw_inv_def)
  obtain e d' where "link_Read D maxTCPFrameLength (usw_sock usw) = (([], Some e), d')"
    "\<not> framing_error e" "dinv d'" "datagrams d' = []" "dsent d' = dsent (usw_sock usw)"
    using dread_none [OF len(2) assms(3)] by blast
  with assms len show ?thesis
    by (intro exI [of _ e] exI [of _ "usw\<lparr>rxbuf := go_copy (rxbuf usw) [], usw_sock := d'\<rparr>"])
      (simp add: usw_Read_def usw_inv_def usw_avail_def usw_effort_def)
qed

lemma usw_Read_cases:
  assumes "usw_inv dinv usw" "0 < n"
  shows "\<exists>bs e usw'. usw_Read D n usw = ((bs, e), usw') \<and> length bs \<le> n
    \<and> usw_inv dinv usw' \<and> dsent (usw_sock usw') = dsent (usw_sock usw)
    \<and> usw_effort datagrams usw' \<le> usw_effort datagrams usw
    \<and> (e = None \<longrightarrow> usw_avail datagrams usw = bs @ usw_avail datagrams usw'
         \<and> usw_effort datagrams usw' < usw_effort datagrams usw)
    \<and> (e \<noteq> None \<longrightarrow> bs = [] \<and> usw_avail datagrams usw = [] \<and> \<not> framing_error (the e))"
proof (cases "0 < leftoverCount usw")
  case True
  then obtain bs usw' where r: "usw_Read D n usw = ((bs, None), usw')" "bs \<noteq> []" "length bs \<le> n"
    "usw_inv dinv usw'" "usw_sock usw' = usw_sock usw"
    "usw_avail datagrams usw = bs @ usw_avail datagrams usw'"
    using usw_Read_left [OF assms(1) True assms(2), of D datagrams] by blast
  then have "usw_effort datagrams usw' < usw_effort datagrams usw"
    by (simp add: usw_effort_def)
  with r show ?thesis by (intro exI [of _ bs] exI [of _ None] exI [of _ usw']) simp
next
  case no_left: False
  show ?thesis
  proof (cases "datagrams (usw_sock usw)")
    case Nil
    then show ?thesis
      using usw_Read_none [OF assms(1), of n] no_left by fastforce
  next
    case (Cons g gs)
    then obtain bs usw' where r: "usw_Read D n usw = ((bs, None), usw')" "length bs \<le> n"
      "usw_inv dinv usw'" "dsent (usw_sock usw') = dsent (usw_sock usw)"
      "datagrams (usw_sock usw') = gs"
      "usw_avail datagrams usw = bs @ usw_avail datagrams usw'"
      using usw_Read_datagram [OF assms(1), of g gs n] no_left by auto
    then have "usw_effort datagrams usw' < usw_effort datagrams usw"
      using Cons by (simp add: usw_effort_def)
    with r show ?thesis by (intro exI [of _ bs] exI [of _ None] exI [of _ usw']) simp
  qed
qed

end

text \<open>The wrapper makes a byte link of every datagram socket.\<close>

lemma uswLink_select [simp]:
  "link_Read (uswLink D) = usw_Read D"
  "link_Write (uswLink D) bs usw = apsnd (\<lambda>s. usw\<lparr>usw_sock := s\<rparr>) (link_Write D bs (usw_sock usw))"
  "link_SetDeadline (uswLink D) t usw = apsnd (\<lambda>s. usw\<lparr>usw_sock := s\<rparr>) (link_SetDeadline D t (usw_sock usw))"
  "time_Sleep (uswLink D) t usw = usw\<lparr>usw_sock := time_Sleep D t (usw_sock usw)\<rparr>"
  by (simp_all add: uswLink_def)

sublocale datagram_link \<subseteq> wrapped: byte_link "uswLink D" "usw_inv dinv" "usw_avail datagrams"
    "\<lambda>usw. dsent (usw_sock usw)" "usw_effort datagrams"
proof
  fix usw :: "'d udpSockWrapper" and bs t
  assume inv: "usw_inv dinv usw"
  then have d: "dinv (usw_sock usw)"
    by (simp add: usw_inv_def)
  show "\<exists>s'. link_Write (uswLink D) bs usw = ((length bs, None), s') \<and> usw_inv dinv s' \<and>
      dsent (usw_sock s') = dsent (usw_sock usw) @ bs \<and>
      usw_avail datagrams s' = usw_avail datagrams usw \<and> usw_effort datagrams s' = usw_effort datagrams usw"
    using dwrite_ok [OF d, of bs] inv by (auto simp: usw_inv_def usw_avail_def usw_effort_def)
  show "\<exists>s'. link_SetDeadline (uswLink D) t usw = (Ok (), s') \<and> usw_inv dinv s' \<and>
      dsent (usw_sock s') = dsent (usw_sock usw) \<and>
      usw_avail datagrams s' = usw_avail datagrams usw \<and> usw_effort datagrams s' = usw_effort datagrams usw"
    using ddeadline_ok [OF d, of t] inv by (auto simp: usw_inv_def usw_avail_def usw_effort_def)
  show "usw_inv dinv (time_Sleep (uswLink D) t usw) \<and>
      dsent (usw_sock (time_Sleep (uswLink D) t usw)) = dsent (usw_sock usw) \<and>
      usw_avail datagrams (time_Sleep (uswLink D) t usw) = usw_avail datagrams usw \<and>
      usw_effort datagrams (time_Sleep (uswLink D) t usw) = usw_effort datagrams usw"
    using dsleep_ok [OF d, of t] inv by (auto simp: usw_inv_def usw_avail_def usw_effort_def)
next
  fix usw usw' :: "'d udpSockWrapper" and n :: nat and bs e err
  assume inv: "usw_inv dinv usw" and n: "0 < n"
  {
    assume r: "link_Read (uswLink D) n usw = ((bs, e), usw')"
    then show "usw_inv dinv usw' \<and> dsent (usw_sock usw') = dsent (usw_sock usw)"
      and "length bs \<le> n \<and> (e = None \<longrightarrow> usw_avail datagrams usw = bs @ usw_avail datagrams usw') \<and>
        (e \<noteq> None \<longrightarrow> bs = [])"
      using usw_Read_cases [OF inv n] by auto
  }
  {
    assume r: "link_Read (uswLink D) n usw = ((bs, Some err), usw')"
    then show "usw_avail datagrams usw = [] \<and> \<not> framing_error err"
      and "usw_effort datagrams usw' \<le> usw_effort datagrams usw"
      using usw_Read_cases [OF inv n] by auto
  }
  {
    assume r: "link_Read (uswLink D) n usw = ((bs, None), usw')"
    then show "usw_effort datagrams usw' < usw_effort datagrams usw"
      using usw_Read_cases [OF inv n] by auto
  }
qed

section \<open>What a transport reads through the wrapper\<close>

lemma new_wrapper [simp]:
  "usw_inv dinv (newUDPSockWrapper s) \<longleftrightarrow> dinv s"
  "usw_avail datagrams (newUDPSockWrapper s) = concat (map (take maxTCPFrameLength) (datagrams s))"
  by (simp_all add: newUDPSockWrapper_def usw_inv_def usw_avail_def)

text \<open>
  C21: through the wrapper a UDP socket is a byte stream.  Asked for \<open>n\<close> bytes, \<open>io.ReadFull\<close> always
  returns, delivers the first \<open>n\<close> bytes of the stream (the bytes held back from the last
  datagram, then each waiting datagram in order) wherever the datagram borders lie, fails
  exactly when the stream is shorter, and leaves the rest of the stream for the next read.
\<close>

theorem udp_wrapper_is_stream:
  assumes "usw_inv sock_inv usw"
  shows "\<exists>e usw'. io_ReadFull (uswLink udpConn) n usw = Some ((take n (usw_avail rx usw), e), usw')
    \<and> (e = None \<longleftrightarrow> n \<le> length (usw_avail rx usw))
    \<and> (e = None \<longrightarrow> usw_avail rx usw' = drop n (usw_avail rx usw))
    \<and> usw_inv sock_inv usw' \<and> tx (usw_sock usw') = tx (usw_sock usw)"
proof (cases "n \<le> length (usw_avail rx usw)")
  case True
  from assms True show ?thesis
    by (rule udp_sock.wrapped.ReadFull_ok) (use True in auto)
next
  case False
  then have short: "length (usw_avail rx usw) < n" by simp
  from assms short show ?thesis
    by (rule udp_sock.wrapped.ReadFull_short) (use short in auto)
qed

definition demo_udp :: sock where
  "demo_udp = \<lparr>rx = [[1, 2], [3, 4, 5]], rx_end = ErrDeadlineExceeded, tx = [], is_open = True,
     sock_deadline = 0, clock = 0\<rparr>"

theorem udp_wrapper_is_stream_witness:
  "usw_inv sock_inv (newUDPSockWrapper demo_udp)
   \<and> (\<exists>usw'. io_ReadFull (uswLink udpConn) 3 (newUDPSockWrapper demo_udp) = Some (([1, 2, 3], None), usw')
        \<and> usw_avail rx usw' = [4, 5])"
proof -
  have inv: "usw_inv sock_inv (newUDPSockWrapper demo_udp)"
    by (simp add: sock_inv_def demo_udp_def framing_error_def)
  have "usw_avail rx (newUDPSockWrapper demo_udp) = [1, 2, 3, 4, 5]"
    by (simp add: demo_udp_def maxTCPFrameLength_def)
  then show ?thesis
    using inv udp_wrapper_is_stream [OF inv, of 3] by auto
qed

end
