(* ===== verification/Tcp_Transport.thy ===== *)
theory Tcp_Transport
  imports Net_Conn Encoding Modbus_Pdu
begin

text \<open>
  internal/modbus/tcp_transport.go: the MBAP framing and the TCP transport, over any link (a TCP
  or TLS socket, or the UDP wrapper).  The stream of bytes is parsed by a pure function,
  \<open>mbap_next\<close>, which the reading code is shown to implement.
\<close>

section \<open>The transport\<close>

definition mbapHeaderLength :: nat where
  "mbapHeaderLength = 7"

record 's tcpTransport =
  tt_socket :: 's
  tt_timeout :: int
  tt_lastTxnId :: uint16

definition newTCPTransport :: "'s \<Rightarrow> int \<Rightarrow> 's tcpTransport" where
  "newTCPTransport socket timeout = \<lparr>tt_socket = socket, tt_timeout = timeout, tt_lastTxnId = 0\<rparr>"

definition assembleMBAPFrame :: "uint16 \<Rightarrow> pdu \<Rightarrow> byte list" where
  "assembleMBAPFrame txnId p =
     uint16ToBytes BIG_ENDIAN txnId
     @ [0x00, 0x00]
     @ uint16ToBytes BIG_ENDIAN (of_nat (2 + length (payload p)))
     @ [unitId p]
     @ [functionCode p]
     @ payload p"

text \<open>
  The transaction id the code returns beside an error is never used and is left out.  The slices
  and indexes are those of the code; that they are in range is a lemma, not part of the model.
\<close>

definition readMBAPFrame ::
  "'s rtuLink \<Rightarrow> 's tcpTransport \<Rightarrow> ((pdu \<times> uint16) result \<times> 's tcpTransport) option" where
  "readMBAPFrame L tt = do {
     ((rxbuf, err), s1) \<leftarrow> io_ReadFull L mbapHeaderLength (tt_socket tt);
     (case err of
        Some e \<Rightarrow> Some (Err e, tt\<lparr>tt_socket := s1\<rparr>)
      | None \<Rightarrow> do {
          b \<leftarrow> go_slice rxbuf 0 2;
          txnId \<leftarrow> bytesToUint16 BIG_ENDIAN b;
          b \<leftarrow> go_slice rxbuf 2 4;
          protocolId \<leftarrow> bytesToUint16 BIG_ENDIAN b;
          unit \<leftarrow> go_index rxbuf 6;
          b \<leftarrow> go_slice rxbuf 4 6;
          len \<leftarrow> bytesToUint16 BIG_ENDIAN b;
          let bytesNeeded = int (unat len) - 1;
          (if int maxTCPFrameLength < bytesNeeded + int mbapHeaderLength then
             Some (Err ErrProtocolError, tt\<lparr>tt_socket := s1\<rparr>)
           else if bytesNeeded \<le> 0 then
             Some (Err ErrProtocolError, tt\<lparr>tt_socket := s1\<rparr>)
           else do {
             ((rxbuf, err), s2) \<leftarrow> io_ReadFull L (nat bytesNeeded) s1;
             (case err of
                Some e \<Rightarrow> Some (Err e, tt\<lparr>tt_socket := s2\<rparr>)
              | None \<Rightarrow>
                  if protocolId \<noteq> 0x0000 then Some (Err ErrUnknownProtocolId, tt\<lparr>tt_socket := s2\<rparr>)
                  else do {
                    fc \<leftarrow> go_index rxbuf 0;
                    body \<leftarrow> go_slice rxbuf 1 (length rxbuf);
                    Some (Ok (\<lparr>unitId = unit, functionCode = fc, payload = body\<rparr>, txnId),
                          tt\<lparr>tt_socket := s2\<rparr>) }) }) }) }"

text \<open>\<open>continue\<close> is the recursive call.  A peer that keeps sending frames of other transactions
  keeps the loop going, so it is an \<open>option\<close>.\<close>

partial_function (option) readResponse ::
  "'s rtuLink \<Rightarrow> 's tcpTransport \<Rightarrow> (pdu result \<times> 's tcpTransport) option" where
  [code]: "readResponse L tt = do {
     (r, tt1) \<leftarrow> readMBAPFrame L tt;
     (case r of
        Inl e \<Rightarrow> if e = ErrUnknownProtocolId then readResponse L tt1 else Some (Err e, tt1)
      | Inr (res, txnId) \<Rightarrow>
          if tt_lastTxnId tt1 \<noteq> txnId then readResponse L tt1 else Some (Ok res, tt1)) }"

definition tcp_Close :: "'s rtuLink \<Rightarrow> 's tcpTransport \<Rightarrow> unit result \<times> 's tcpTransport" where
  "tcp_Close L tt = apsnd (\<lambda>s. tt\<lparr>tt_socket := s\<rparr>) (link_Close L (tt_socket tt))"

text \<open>\<open>tt.socket.SetDeadline(time.Now().Add(tt.timeout))\<close>\<close>

definition tcp_SetDeadline :: "'s rtuLink \<Rightarrow> 's tcpTransport \<Rightarrow> unit result \<times> 's tcpTransport" where
  "tcp_SetDeadline L tt =
     apsnd (\<lambda>s. tt\<lparr>tt_socket := s\<rparr>)
       (link_SetDeadline L (time_Now L (tt_socket tt) + tt_timeout tt) (tt_socket tt))"

definition tcp_Write :: "'s rtuLink \<Rightarrow> byte list \<Rightarrow> 's tcpTransport \<Rightarrow> (nat \<times> go_error option) \<times> 's tcpTransport" where
  "tcp_Write L bs tt = apsnd (\<lambda>s. tt\<lparr>tt_socket := s\<rparr>) (link_Write L bs (tt_socket tt))"

definition tcp_ExecuteRequest ::
  "'s rtuLink \<Rightarrow> pdu \<Rightarrow> 's tcpTransport \<Rightarrow> (pdu result \<times> 's tcpTransport) option" where
  "tcp_ExecuteRequest L req tt =
     (case tcp_SetDeadline L tt of
        (Inl e, tt1) \<Rightarrow> Some (Err e, tt1)
      | (Inr _, tt1) \<Rightarrow>
          let tt2 = tt1\<lparr>tt_lastTxnId := tt_lastTxnId tt1 + 1\<rparr> in
          (case tcp_Write L (assembleMBAPFrame (tt_lastTxnId tt2) req) tt2 of
             ((_, Some e), tt3) \<Rightarrow> Some (Err e, tt3)
           | ((_, None), tt3) \<Rightarrow> readResponse L tt3))"

definition tcp_ReadRequest :: "'s rtuLink \<Rightarrow> 's tcpTransport \<Rightarrow> (pdu result \<times> 's tcpTransport) option" where
  "tcp_ReadRequest L tt =
     (case tcp_SetDeadline L tt of
        (Inl e, tt1) \<Rightarrow> Some (Err e, tt1)
      | (Inr _, tt1) \<Rightarrow> do {
          (r, tt2) \<leftarrow> readMBAPFrame L tt1;
          (case r of
             Inl e \<Rightarrow> Some (Err e, tt2)
           | Inr (req, txnId) \<Rightarrow> Some (Ok req, tt2\<lparr>tt_lastTxnId := txnId\<rparr>)) })"

definition tcp_WriteResponse :: "'s rtuLink \<Rightarrow> pdu \<Rightarrow> 's tcpTransport \<Rightarrow> unit result \<times> 's tcpTransport" where
  "tcp_WriteResponse L res tt =
     (case tcp_Write L (assembleMBAPFrame (tt_lastTxnId tt) res) tt of
        ((_, Some e), tt1) \<Rightarrow> (Err e, tt1)
      | ((_, None), tt1) \<Rightarrow> (Ok (), tt1))"

definition tcpTransportOps :: "'s rtuLink \<Rightarrow> 's tcpTransport transport" where
  "tcpTransportOps L =
     \<lparr>t_Close = tcp_Close L, t_ExecuteRequest = tcp_ExecuteRequest L,
      t_ReadRequest = tcp_ReadRequest L, t_WriteResponse = tcp_WriteResponse L\<rparr>"

section \<open>Frames of a stream\<close>

text \<open>
  The first frame of a stream of bytes, and what follows it: a Modbus frame, a frame of another
  protocol, a header whose length is out of bounds (its body is not skipped), or nothing yet.
\<close>

datatype mbap_outcome =
    Frame uint16 pdu "byte list"
  | Foreign "byte list"
  | BadLength "byte list"
  | Truncated

definition mbap_body :: "uint16 \<Rightarrow> uint16 \<Rightarrow> nat \<Rightarrow> uint8 \<Rightarrow> byte list \<Rightarrow> mbap_outcome" where
  "mbap_body txnId protocolId len unit bs =
     (if len < 2 \<or> 254 < len then BadLength bs
      else if length bs < len - 1 then Truncated
      else if protocolId \<noteq> 0 then Foreign (drop (len - 1) bs)
      else Frame txnId \<lparr>unitId = unit, functionCode = hd bs, payload = take (len - 2) (tl bs)\<rparr>
             (drop (len - 1) bs))"

definition mbap_next :: "byte list \<Rightarrow> mbap_outcome" where
  "mbap_next bs =
     (if length bs < 7 then Truncated
      else mbap_body (be_word (take 2 bs)) (be_word (take 2 (drop 2 bs)))
             (unat (be_word (take 2 (drop 4 bs)) :: uint16)) (bs ! 6) (drop 7 bs))"

text \<open>The response to transaction \<open>txn\<close> in a stream: the first Modbus frame that carries it.\<close>

datatype mbap_answer = Answer pdu "byte list" | Broken "byte list" | Exhausted

lemma mbap_next_shorter:
  "mbap_next bs = Frame t p rest \<Longrightarrow> length rest < length bs"
  "mbap_next bs = Foreign rest \<Longrightarrow> length rest < length bs"
  by (auto simp: mbap_next_def mbap_body_def split: if_splits)

function mbap_response :: "uint16 \<Rightarrow> byte list \<Rightarrow> mbap_answer" where
  "mbap_response txn bs =
     (case mbap_next bs of
        Frame t p rest \<Rightarrow> if t = txn then Answer p rest else mbap_response txn rest
      | Foreign rest \<Rightarrow> mbap_response txn rest
      | BadLength rest \<Rightarrow> Broken rest
      | Truncated \<Rightarrow> Exhausted)"
  by auto
termination
  by (relation "measure (\<lambda>(txn, bs). length bs)") (auto dest: mbap_next_shorter)

declare mbap_response.simps [simp del]

lemma bytesToUint16_BIG [simp]: "length b = 2 \<Longrightarrow> bytesToUint16 BIG_ENDIAN b = Some (be_word b)"
  by (simp add: bytesToUint16_def go_simps)

lemma uint16ToBytes_BIG: "uint16ToBytes BIG_ENDIAN v = be_bytes 2 v"
  by (simp add: uint16ToBytes_def)

lemma of_nat_len [simp]: "n < 2 ^ 16 \<Longrightarrow> unat (of_nat n :: uint16) = n"
  by (simp add: unat_of_nat)

text \<open>
  A frame as it stands on the wire, of any protocol; the frames the code assembles are those of
  protocol 0.  \<open>stray\<close> frames are complete frames that are not of transaction \<open>txn\<close>.
\<close>

definition mbap_wire :: "uint16 \<times> uint16 \<times> pdu \<Rightarrow> byte list" where
  "mbap_wire = (\<lambda>(t, proto, p). be_bytes 2 t @ be_bytes 2 proto
     @ be_bytes 2 (of_nat (2 + length (payload p)) :: uint16) @ [unitId p] @ functionCode p # payload p)"

definition stray :: "uint16 \<Rightarrow> uint16 \<times> uint16 \<times> pdu \<Rightarrow> bool" where
  "stray txn = (\<lambda>(t, proto, p). length (payload p) \<le> 252 \<and> (proto = 0 \<longrightarrow> t \<noteq> txn))"

lemma assembleMBAPFrame_wire: "assembleMBAPFrame t p = mbap_wire (t, 0, p)"
proof -
  have "be_bytes 2 (0 :: uint16) = [0x00, 0x00]"
    by (simp add: byte_order_eval)
  then show ?thesis
    by (simp add: assembleMBAPFrame_def mbap_wire_def uint16ToBytes_BIG)
qed

lemma mbap_next_wire:
  assumes "length (payload p) \<le> 252"
  shows "mbap_next (mbap_wire (t, proto, p) @ rest) =
    (if proto = 0 then Frame t p rest else Foreign rest)"
proof -
  let ?n = "2 + length (payload p)"
  have n: "unat (of_nat ?n :: uint16) = ?n"
    by (rule of_nat_len) (use assms in simp)
  obtain t1 t2 where t: "be_bytes 2 t = [t1, t2]"
    by (rule list2E [of "be_bytes 2 t"]) simp_all
  obtain q1 q2 where q: "be_bytes 2 proto = [q1, q2]"
    by (rule list2E [of "be_bytes 2 proto"]) simp_all
  obtain n1 n2 where nb: "be_bytes 2 (of_nat ?n :: uint16) = [n1, n2]"
    by (rule list2E [of "be_bytes 2 (of_nat ?n :: uint16)"]) simp_all
  have "(be_word [t1, t2] :: uint16) = t" "(be_word [n1, n2] :: uint16) = of_nat ?n"
    "(be_word [q1, q2] :: uint16) = proto"
    by (simp_all only: t [symmetric] nb [symmetric] q [symmetric] be_word_be_bytes_id len_num0)
      (simp_all add: be_word_be_bytes_id)
  moreover have "mbap_wire (t, proto, p) @ rest =
      [t1, t2, q1, q2, n1, n2, unitId p] @ (functionCode p # payload p @ rest)"
    by (simp only: mbap_wire_def prod.case t q nb append.simps append_assoc)
  ultimately show ?thesis
    using assms n by (simp add: mbap_next_def mbap_body_def)
qed

lemma take_pdu_body:
  assumes "2 \<le> n" "n - 1 \<le> length b"
  shows "hd b # take (n - 2) (tl b) @ drop (n - 1) b = b"
proof -
  obtain k where "n = Suc (Suc k)"
    using assms(1) by (metis add_2_eq_Suc le_Suc_ex)
  with assms(2) show ?thesis by (cases b) simp_all
qed

lemma mbap_wire_split:
  fixes bs :: "byte list"
  defines "len \<equiv> unat (be_word (take 2 (drop 4 bs)) :: uint16)"
  defines "p \<equiv> \<lparr>unitId = bs ! 6, functionCode = hd (drop 7 bs), payload = take (len - 2) (tl (drop 7 bs))\<rparr>"
  assumes l: "7 \<le> length bs" and len: "2 \<le> len" "len \<le> 254" "len - 1 \<le> length (drop 7 bs)"
  shows "mbap_wire (be_word (take 2 bs), be_word (take 2 (drop 2 bs)), p) @ drop (len - 1) (drop 7 bs) = bs"
    and "length (payload p) \<le> 252"
proof -
  have pl: "2 + length (payload p) = len"
    using len l by (simp add: p_def)
  have parts: "be_bytes 2 (be_word (take 2 bs) :: uint16) = take 2 bs"
    "be_bytes 2 (be_word (take 2 (drop 2 bs)) :: uint16) = take 2 (drop 2 bs)"
    "be_bytes 2 (of_nat len :: uint16) = take 2 (drop 4 bs)"
    using l by (simp_all add: be_bytes_be_word_n of_nat_unat len_def)
  have body: "functionCode p # payload p @ drop (len - 1) (drop 7 bs) = drop 7 bs"
    using take_pdu_body [OF len(1,3)] by (simp only: p_def pdu.simps)
  have six: "drop 6 bs = bs ! 6 # drop 7 bs"
    using l by (simp add: Cons_nth_drop_Suc [symmetric])
  have "bs = take 2 bs @ take 2 (drop 2 bs) @ take 2 (drop 4 bs) @ drop 6 bs"
    using append_take_drop_id [of 2 bs] append_take_drop_id [of 2 "drop 2 bs"]
      append_take_drop_id [of 2 "drop 4 bs"] by simp
  moreover have "mbap_wire (be_word (take 2 bs), be_word (take 2 (drop 2 bs)), p)
      @ drop (len - 1) (drop 7 bs) = take 2 bs @ take 2 (drop 2 bs) @ take 2 (drop 4 bs)
      @ [unitId p] @ functionCode p # payload p @ drop (len - 1) (drop 7 bs)"
    by (simp only: mbap_wire_def prod.case pl parts append_assoc append.simps)
  moreover have "unitId p = bs ! 6"
    by (simp add: p_def)
  ultimately show "mbap_wire (be_word (take 2 bs), be_word (take 2 (drop 2 bs)), p)
      @ drop (len - 1) (drop 7 bs) = bs"
    by (simp only: body six append.simps append_Nil)
  show "length (payload p) \<le> 252"
    using pl len by simp
qed

text \<open>A stream begins with a Modbus frame exactly when it begins with an assembled one.\<close>

lemma mbap_next_parts:
  assumes "mbap_next bs = out" "out = Frame t p rest \<or> out = Foreign rest"
  obtains t' proto q where "mbap_wire (t', proto, q) @ rest = bs" "length (payload q) \<le> 252"
    and "out = (if proto = 0 then Frame t' q rest else Foreign rest)"
proof -
  let ?len = "unat (be_word (take 2 (drop 4 bs)) :: uint16)"
  have l: "7 \<le> length bs" "2 \<le> ?len" "?len \<le> 254" "?len - 1 \<le> length (drop 7 bs)"
    using assms by (auto simp: mbap_next_def mbap_body_def split: if_splits)
  then have "mbap_next bs = (if be_word (take 2 (drop 2 bs)) = (0 :: uint16)
      then Frame (be_word (take 2 bs)) \<lparr>unitId = bs ! 6, functionCode = hd (drop 7 bs),
        payload = take (?len - 2) (tl (drop 7 bs))\<rparr> (drop (?len - 1) (drop 7 bs))
      else Foreign (drop (?len - 1) (drop 7 bs)))"
    by (simp add: mbap_next_def mbap_body_def)
  moreover from this assms have "rest = drop (?len - 1) (drop 7 bs)"
    by (auto split: if_splits)
  ultimately show ?thesis
    using mbap_wire_split [OF l] assms(1) that by blast
qed

lemma mbap_next_Frame_iff:
  "mbap_next bs = Frame t p rest \<longleftrightarrow>
   bs = assembleMBAPFrame t p @ rest \<and> length (payload p) \<le> 252"
proof
  assume "mbap_next bs = Frame t p rest"
  then obtain t' proto q where "mbap_wire (t', proto, q) @ rest = bs" "length (payload q) \<le> 252"
    and "Frame t p rest = (if proto = 0 then Frame t' q rest else Foreign rest)"
    by (rule mbap_next_parts) auto
  then show "bs = assembleMBAPFrame t p @ rest \<and> length (payload p) \<le> 252"
    by (auto simp: assembleMBAPFrame_wire split: if_splits)
qed (simp add: assembleMBAPFrame_wire mbap_next_wire)

lemma mbap_next_Foreign:
  assumes "mbap_next bs = Foreign rest"
  obtains t proto p where "bs = mbap_wire (t, proto, p) @ rest" "proto \<noteq> 0" "length (payload p) \<le> 252"
proof -
  from assms obtain t' proto q where "mbap_wire (t', proto, q) @ rest = bs" "length (payload q) \<le> 252"
    and "Foreign rest = (if proto = 0 then Frame t' q rest else Foreign rest)"
    by (rule mbap_next_parts) auto
  then show ?thesis
    by (intro that [of t' proto q]) (auto split: if_splits)
qed

text \<open>The answer of a stream: the first frame of the transaction, after stray frames only.\<close>

lemma mbap_response_strays:
  "\<forall>f \<in> set strays. stray txn f \<Longrightarrow>
   mbap_response txn (concat (map mbap_wire strays) @ bs) = mbap_response txn bs"
proof (induction strays)
  case Nil
  then show ?case by simp
next
  case (Cons f fs)
  obtain t proto p where f: "f = (t, proto, p)"
    by (cases f)
  with Cons show ?case
    by (subst mbap_response.simps) (auto simp: stray_def mbap_next_wire)
qed

lemma mbap_response_Answer:
  "mbap_response txn bs = Answer p rest \<Longrightarrow>
   \<exists>strays. (\<forall>f \<in> set strays. stray txn f) \<and> length (payload p) \<le> 252
     \<and> bs = concat (map mbap_wire strays) @ assembleMBAPFrame txn p @ rest"
proof (induction "length bs" arbitrary: bs rule: less_induct)
  case less
  note step = mbap_response.simps [of txn bs]
  have later: ?case if wire: "bs = mbap_wire f @ rest'" and stray: "stray txn f"
    and again: "mbap_response txn rest' = Answer p rest" and shorter: "length rest' < length bs" for f rest'
  proof -
    obtain strays where "\<forall>f \<in> set strays. stray txn f" "length (payload p) \<le> 252"
      "rest' = concat (map mbap_wire strays) @ assembleMBAPFrame txn p @ rest"
      using less.hyps [OF shorter again] by blast
    with wire stray show ?thesis
      by (intro exI [of _ "f # strays"]) simp
  qed
  show ?case
  proof (cases "mbap_next bs")
    case (Frame t q rest')
    then have bs: "bs = assembleMBAPFrame t q @ rest'" "length (payload q) \<le> 252"
      by (simp_all add: mbap_next_Frame_iff)
    show ?thesis
    proof (cases "t = txn")
      case True
      with less.prems Frame have "q = p" "rest' = rest"
        by (simp_all add: step)
      with bs True show ?thesis
        by (intro exI [of _ "[]"]) simp
    next
      case False
      show ?thesis
      proof (rule later)
        show "bs = mbap_wire (t, 0, q) @ rest'" "stray txn (t, 0, q)"
          using bs False by (simp_all add: stray_def assembleMBAPFrame_wire)
        show "mbap_response txn rest' = Answer p rest" "length rest' < length bs"
          using less.prems Frame False by (simp_all add: step mbap_next_shorter)
      qed
    qed
  next
    case (Foreign rest')
    then obtain t proto q where f: "bs = mbap_wire (t, proto, q) @ rest'" "proto \<noteq> 0" "length (payload q) \<le> 252"
      by (rule mbap_next_Foreign)
    show ?thesis
    proof (rule later)
      show "bs = mbap_wire (t, proto, q) @ rest'" "stray txn (t, proto, q)"
        using f by (simp_all add: stray_def)
      show "mbap_response txn rest' = Answer p rest" "length rest' < length bs"
        using less.prems Foreign by (simp_all add: step mbap_next_shorter)
    qed
  qed (use less.prems in \<open>simp_all add: step\<close>)
qed

lemma mbap_response_Answer_iff:
  "mbap_response txn bs = Answer p rest \<longleftrightarrow>
   (\<exists>strays. (\<forall>f \<in> set strays. stray txn f) \<and> length (payload p) \<le> 252
     \<and> bs = concat (map mbap_wire strays) @ assembleMBAPFrame txn p @ rest)"
proof
  assume "\<exists>strays. (\<forall>f \<in> set strays. stray txn f) \<and> length (payload p) \<le> 252
     \<and> bs = concat (map mbap_wire strays) @ assembleMBAPFrame txn p @ rest"
  then obtain strays where s: "\<forall>f \<in> set strays. stray txn f" "length (payload p) \<le> 252"
    "bs = concat (map mbap_wire strays) @ assembleMBAPFrame txn p @ rest"
    by blast
  then have "mbap_response txn bs = mbap_response txn (assembleMBAPFrame txn p @ rest)"
    by (simp add: mbap_response_strays)
  moreover have "mbap_next (assembleMBAPFrame txn p @ rest) = Frame txn p rest"
    using s(2) by (simp add: mbap_next_Frame_iff)
  ultimately show "mbap_response txn bs = Answer p rest"
    by (simp add: mbap_response.simps [of _ "assembleMBAPFrame txn p @ rest"])
qed (rule mbap_response_Answer)

section \<open>The reading code implements the parser\<close>

text \<open>What \<open>readMBAPFrame\<close> returns and leaves in the stream, for each kind of stream.\<close>

definition frame_read ::
  "mbap_outcome \<Rightarrow> (pdu \<times> uint16) result \<Rightarrow> byte list \<Rightarrow> bool" where
  "frame_read out r left =
     (case out of
        Frame t p rest \<Rightarrow> r = Ok (p, t) \<and> left = rest
      | Foreign rest \<Rightarrow> r = Err ErrUnknownProtocolId \<and> left = rest
      | BadLength rest \<Rightarrow> r = Err ErrProtocolError \<and> left = rest
      | Truncated \<Rightarrow> (case r of Inl e \<Rightarrow> \<not> framing_error e | Inr _ \<Rightarrow> False))"

definition answer_read :: "mbap_answer \<Rightarrow> pdu result \<Rightarrow> byte list \<Rightarrow> bool" where
  "answer_read ans r left =
     (case ans of
        Answer p rest \<Rightarrow> r = Ok p \<and> left = rest
      | Broken rest \<Rightarrow> r = Err ErrProtocolError \<and> left = rest
      | Exhausted \<Rightarrow> (case r of Inl e \<Rightarrow> \<not> framing_error e | Inr _ \<Rightarrow> False))"

lemma frame_read_Ok:
  "frame_read out r left \<Longrightarrow> r = Ok (p, t) \<and> left = rest \<longleftrightarrow> out = Frame t p rest"
  by (auto simp: frame_read_def split: mbap_outcome.splits sum.splits)

lemma answer_read_Ok:
  "answer_read ans r left \<Longrightarrow> r = Ok p \<and> left = rest \<longleftrightarrow> ans = Answer p rest"
  by (auto simp: answer_read_def split: mbap_answer.splits sum.splits)

lemma int_len_bounds:
  "int maxTCPFrameLength < int n - 1 + int mbapHeaderLength \<longleftrightarrow> 254 < n"
  "int n - 1 \<le> 0 \<longleftrightarrow> n < 2"
  "nat (int n - 1) = n - 1"
  by (auto simp: maxTCPFrameLength_def mbapHeaderLength_def)

text \<open>The code after the header has been read, with its slices evaluated.\<close>

lemma readMBAPFrame_header:
  fixes hdr :: "byte list"
  defines "len \<equiv> unat (be_word (take 2 (drop 4 hdr)) :: uint16)"
  assumes "io_ReadFull L mbapHeaderLength (tt_socket tt) = Some ((hdr, None), s1)" "length hdr = 7"
  shows "readMBAPFrame L tt =
    (if len < 2 \<or> 254 < len then Some (Err ErrProtocolError, tt\<lparr>tt_socket := s1\<rparr>)
     else do {
       ((body, err), s2) \<leftarrow> io_ReadFull L (len - 1) s1;
       (case err of
          Some e \<Rightarrow> Some (Err e, tt\<lparr>tt_socket := s2\<rparr>)
        | None \<Rightarrow>
            if be_word (take 2 (drop 2 hdr)) \<noteq> (0 :: uint16)
            then Some (Err ErrUnknownProtocolId, tt\<lparr>tt_socket := s2\<rparr>)
            else do {
              fc \<leftarrow> go_index body 0;
              b \<leftarrow> go_slice body 1 (length body);
              Some (Ok (\<lparr>unitId = hdr ! 6, functionCode = fc, payload = b\<rparr>, be_word (take 2 hdr)),
                    tt\<lparr>tt_socket := s2\<rparr>) }) })"
proof -
  have "go_slice hdr 0 2 = Some (take 2 hdr)" "go_slice hdr 2 4 = Some (take 2 (drop 2 hdr))"
    "go_slice hdr 4 6 = Some (take 2 (drop 4 hdr))" "go_index hdr 6 = Some (hdr ! 6)"
    using assms(3) by (simp_all add: go_simps)
  then show ?thesis
    using assms(3) by (simp add: readMBAPFrame_def assms(2) int_len_bounds Let_def len_def del: of_nat_unat)
qed

context byte_reader begin

lemma readMBAPFrame_refines:
  assumes "inv (tt_socket tt)"
  shows "\<exists>r s'. readMBAPFrame L tt = Some (r, tt\<lparr>tt_socket := s'\<rparr>)
    \<and> inv s' \<and> sent s' = sent (tt_socket tt)
    \<and> frame_read (mbap_next (avail (tt_socket tt))) r (avail s')"
proof (cases "7 \<le> length (avail (tt_socket tt))")
  case False
  then have short: "length (avail (tt_socket tt)) < mbapHeaderLength"
    by (simp add: mbapHeaderLength_def)
  from assms short show ?thesis
    by (rule ReadFull_short)
      (use False in \<open>auto simp: readMBAPFrame_def mbap_next_def frame_read_def\<close>)
next
  case True
  let ?s = "tt_socket tt"
  let ?bs = "avail ?s"
  let ?len = "unat (be_word (take 2 (drop 4 ?bs)) :: uint16)"
  let ?hdr = "take mbapHeaderLength ?bs"
  have hdr: "mbapHeaderLength \<le> length ?bs" "length ?hdr = 7"
    using True by (simp_all add: mbapHeaderLength_def)
  obtain s1 where s1: "io_ReadFull L mbapHeaderLength ?s = Some ((?hdr, None), s1)"
    "inv s1" "sent s1 = sent ?s" "avail s1 = drop mbapHeaderLength ?bs"
    by (rule ReadFull_ok [OF assms hdr(1)]) blast
  have body: "avail s1 = drop 7 ?bs"
    using s1(4) by (simp add: mbapHeaderLength_def)
  have "take 2 ?hdr = take 2 ?bs" "take 2 (drop 2 ?hdr) = take 2 (drop 2 ?bs)"
    "take 2 (drop 4 ?hdr) = take 2 (drop 4 ?bs)" "?hdr ! 6 = ?bs ! 6"
    using True by (simp_all add: mbapHeaderLength_def drop_take)
  note step = readMBAPFrame_header [OF s1(1) hdr(2), unfolded this]
  have nxt: "mbap_next ?bs = mbap_body (be_word (take 2 ?bs)) (be_word (take 2 (drop 2 ?bs)))
      ?len (?bs ! 6) (drop 7 ?bs)"
    using True by (simp add: mbap_next_def)
  show ?thesis
  proof (cases "?len < 2 \<or> 254 < ?len")
    case bad: True
    then have "readMBAPFrame L tt = Some (Err ErrProtocolError, tt\<lparr>tt_socket := s1\<rparr>)"
      by (simp only: step if_True)
    with bad s1 body nxt show ?thesis
      by (intro exI [of _ "Err ErrProtocolError"] exI [of _ s1])
        (auto simp: frame_read_def mbap_body_def)
  next
    case len: False
    show ?thesis
    proof (cases "?len - 1 \<le> length (avail s1)")
      case False
      then have short: "length (avail s1) < ?len - 1" by simp
      from s1(2) short show ?thesis
      proof (rule ReadFull_short)
        fix e s'
        assume r: "io_ReadFull L (?len - 1) s1 = Some ((avail s1, Some e), s')"
          and s': "inv s'" "sent s' = sent s1" "\<not> framing_error e"
        have "readMBAPFrame L tt = Some (Err e, tt\<lparr>tt_socket := s'\<rparr>)"
          using len by (simp only: step r if_False) simp
        moreover have "mbap_next ?bs = Truncated"
          using len short unfolding nxt by (simp add: mbap_body_def body)
        ultimately show ?thesis
          using s' s1 by (intro exI [of _ "Err e"] exI [of _ s']) (simp add: frame_read_def)
      qed
    next
      case full: True
      from s1(2) full show ?thesis
      proof (rule ReadFull_ok)
        fix s'
        let ?got = "take (?len - 1) (avail s1)"
        assume r: "io_ReadFull L (?len - 1) s1 = Some ((?got, None), s')"
          and s': "inv s'" "sent s' = sent s1" "avail s' = drop (?len - 1) (avail s1)"
        have "avail s1 \<noteq> []"
          using full len by auto
        then have got: "length ?got = ?len - 1" "0 < ?len - 1" "?got ! 0 = hd (avail s1)"
          "drop 1 ?got = take (?len - 2) (tl (avail s1))"
          using full len by (auto simp: hd_conv_nth drop_take drop_Suc numeral_2_eq_2)
        let ?r = "if be_word (take 2 (drop 2 ?bs)) \<noteq> (0 :: uint16) then Err ErrUnknownProtocolId
             else Ok (\<lparr>unitId = ?bs ! 6, functionCode = hd (avail s1),
               payload = take (?len - 2) (tl (avail s1))\<rparr>, be_word (take 2 ?bs))"
        from got have "readMBAPFrame L tt = Some (?r, tt\<lparr>tt_socket := s'\<rparr>)"
          using len by (simp only: step r if_False) (simp add: go_simps numeral_2_eq_2)
        then show ?thesis
          using s' s1 len full unfolding nxt
          by (intro exI [of _ ?r] exI [of _ s'])
            (auto simp: frame_read_def mbap_body_def body mbapHeaderLength_def)
      qed
    qed
  qed
qed

text \<open>The loop of \<open>readResponse\<close> returns, with the answer of the stream.\<close>

lemma readResponse_refines:
  assumes "inv (tt_socket tt)"
  shows "\<exists>r s'. readResponse L tt = Some (r, tt\<lparr>tt_socket := s'\<rparr>)
    \<and> inv s' \<and> sent s' = sent (tt_socket tt)
    \<and> answer_read (mbap_response (tt_lastTxnId tt) (avail (tt_socket tt))) r (avail s')"
  using assms
proof (induction "length (avail (tt_socket tt))" arbitrary: tt rule: less_induct)
  case less
  let ?bs = "avail (tt_socket tt)"
  obtain r s1 where r: "readMBAPFrame L tt = Some (r, tt\<lparr>tt_socket := s1\<rparr>)" "inv s1"
    "sent s1 = sent (tt_socket tt)" "frame_read (mbap_next ?bs) r (avail s1)"
    using readMBAPFrame_refines [OF less.prems] by blast
  note step = readResponse.simps [of L tt] r(1) mbap_response.simps [of _ ?bs]
  have again: ?case
    if "length (avail s1) < length ?bs"
      and "readResponse L tt = readResponse L (tt\<lparr>tt_socket := s1\<rparr>)"
      and "mbap_response (tt_lastTxnId tt) ?bs = mbap_response (tt_lastTxnId tt) (avail s1)"
    using less.hyps [of "tt\<lparr>tt_socket := s1\<rparr>"] that r by auto
  show ?case
  proof (cases "mbap_next ?bs")
    case (Frame t p rest)
    then have f: "r = Ok (p, t)" "avail s1 = rest"
      using r(4) by (simp_all add: frame_read_def)
    show ?thesis
    proof (cases "t = tt_lastTxnId tt")
      case True
      with f r Frame show ?thesis
        by (intro exI [of _ "Ok p"] exI [of _ s1]) (simp add: step answer_read_def)
    next
      case False
      with f Frame show ?thesis
        by (intro again) (simp_all add: step mbap_next_shorter)
    qed
  next
    case (Foreign rest)
    with r(4) show ?thesis
      by (intro again) (simp_all add: step frame_read_def mbap_next_shorter)
  next
    case (BadLength rest)
    with r show ?thesis
      by (intro exI [of _ "Err ErrProtocolError"] exI [of _ s1])
        (simp add: step frame_read_def answer_read_def)
  next
    case Truncated
    with r(4) obtain e where "r = Err e" "\<not> framing_error e"
      by (auto simp: frame_read_def split: sum.splits)
    with r Truncated show ?thesis
      by (intro exI [of _ "Err e"] exI [of _ s1])
        (auto simp: step answer_read_def framing_error_def)
  qed
qed

end

context byte_link begin

lemma tcp_ExecuteRequest_refines:
  assumes "inv (tt_socket tt)"
  shows "\<exists>r s'. tcp_ExecuteRequest L req tt =
        Some (r, tt\<lparr>tt_lastTxnId := tt_lastTxnId tt + 1, tt_socket := s'\<rparr>)
    \<and> inv s' \<and> sent s' = sent (tt_socket tt) @ assembleMBAPFrame (tt_lastTxnId tt + 1) req
    \<and> answer_read (mbap_response (tt_lastTxnId tt + 1) (avail (tt_socket tt))) r (avail s')"
proof -
  let ?s = "tt_socket tt"
  obtain s1 where s1: "link_SetDeadline L (time_Now L ?s + tt_timeout tt) ?s = (Ok (), s1)"
    "inv s1" "sent s1 = sent ?s" "avail s1 = avail ?s"
    using deadline_ok [OF assms] by blast
  let ?f = "assembleMBAPFrame (tt_lastTxnId tt + 1) req"
  obtain s2 where s2: "link_Write L ?f s1 = ((length ?f, None), s2)"
    "inv s2" "sent s2 = sent ?s @ ?f" "avail s2 = avail ?s"
    using write_ok [OF s1(2)] s1(3,4) by metis
  show ?thesis
    using readResponse_refines [of "tt\<lparr>tt_lastTxnId := tt_lastTxnId tt + 1, tt_socket := s2\<rparr>"] s1 s2
    by (simp add: tcp_ExecuteRequest_def tcp_SetDeadline_def tcp_Write_def)
qed

lemma tcp_ReadRequest_refines:
  assumes "inv (tt_socket tt)"
  shows "\<exists>r s' txn. tcp_ReadRequest L tt = Some (r, tt\<lparr>tt_socket := s', tt_lastTxnId := txn\<rparr>)
    \<and> inv s' \<and> sent s' = sent (tt_socket tt)
    \<and> (case r of Inl e \<Rightarrow> txn = tt_lastTxnId tt
          \<and> frame_read (mbap_next (avail (tt_socket tt))) (Err e) (avail s')
        | Inr p \<Rightarrow> mbap_next (avail (tt_socket tt)) = Frame txn p (avail s'))"
proof -
  let ?s = "tt_socket tt"
  obtain s1 where s1: "link_SetDeadline L (time_Now L ?s + tt_timeout tt) ?s = (Ok (), s1)"
    "inv s1" "sent s1 = sent ?s" "avail s1 = avail ?s"
    using deadline_ok [OF assms] by blast
  obtain r s2 where r: "readMBAPFrame L (tt\<lparr>tt_socket := s1\<rparr>) = Some (r, tt\<lparr>tt_socket := s2\<rparr>)"
    "inv s2" "sent s2 = sent ?s" "frame_read (mbap_next (avail ?s)) r (avail s2)"
    using readMBAPFrame_refines [of "tt\<lparr>tt_socket := s1\<rparr>"] s1 by auto
  show ?thesis
  proof (cases r)
    case (Inl e)
    with r s1 show ?thesis
      by (intro exI [of _ "Err e"] exI [of _ s2] exI [of _ "tt_lastTxnId tt"])
        (simp add: tcp_ReadRequest_def tcp_SetDeadline_def)
  next
    case (Inr pt)
    obtain p t where pt: "pt = (p, t)" by fastforce
    with r Inr have "mbap_next (avail ?s) = Frame t p (avail s2)"
      by (auto simp: frame_read_def split: mbap_outcome.splits)
    with r s1 Inr pt show ?thesis
      by (intro exI [of _ "Ok p"] exI [of _ s2] exI [of _ t])
        (simp add: tcp_ReadRequest_def tcp_SetDeadline_def)
  qed
qed

lemma tcp_WriteResponse_refines:
  assumes "inv (tt_socket tt)"
  shows "\<exists>s'. tcp_WriteResponse L res tt = (Ok (), tt\<lparr>tt_socket := s'\<rparr>)
    \<and> inv s' \<and> sent s' = sent (tt_socket tt) @ assembleMBAPFrame (tt_lastTxnId tt) res
    \<and> avail s' = avail (tt_socket tt)"
  using write_ok [OF assms, of "assembleMBAPFrame (tt_lastTxnId tt) res"]
  by (auto simp: tcp_WriteResponse_def tcp_Write_def)

end

section \<open>The TCP transport over sockets\<close>

interpretation tcp: transport_contract "tcpTransportOps sockLink" "\<lambda>tt. sock_inv (tt_socket tt)"
    "\<lambda>tt. tx (tt_socket tt)" "\<lambda>req tt. assembleMBAPFrame (tt_lastTxnId tt + 1) req"
proof
  fix tt :: "sock tcpTransport" and req
  assume "sock_inv (tt_socket tt)"
  from tcp_sock.tcp_ExecuteRequest_refines [OF this, of req]
  show "\<exists>r tt'. t_ExecuteRequest (tcpTransportOps sockLink) req tt = Some (r, tt') \<and> sock_inv (tt_socket tt')
      \<and> tx (tt_socket tt') = tx (tt_socket tt) @ assembleMBAPFrame (tt_lastTxnId tt + 1) req"
    by (auto simp: tcpTransportOps_def)
qed

interpretation udp: transport_contract "tcpTransportOps (uswLink udpConn)"
    "\<lambda>tt. usw_inv sock_inv (tt_socket tt)" "\<lambda>tt. tx (usw_sock (tt_socket tt))"
    "\<lambda>req tt. assembleMBAPFrame (tt_lastTxnId tt + 1) req"
proof
  fix tt :: "sock udpSockWrapper tcpTransport" and req
  assume "usw_inv sock_inv (tt_socket tt)"
  from udp_sock.wrapped.tcp_ExecuteRequest_refines [OF this, of req]
  show "\<exists>r tt'. t_ExecuteRequest (tcpTransportOps (uswLink udpConn)) req tt = Some (r, tt')
      \<and> usw_inv sock_inv (tt_socket tt')
      \<and> tx (usw_sock (tt_socket tt')) = tx (usw_sock (tt_socket tt)) @ assembleMBAPFrame (tt_lastTxnId tt + 1) req"
    by (auto simp: tcpTransportOps_def)
qed

text \<open>
  C14: the MBAP reader and the MBAP assembler agree.  From an open socket, \<open>readMBAPFrame\<close> returns
  the PDU \<open>p\<close> of transaction \<open>t\<close> and leaves the bytes \<open>rest\<close> unread exactly when the bytes
  waiting on the socket, however they are cut into segments, are the assembled frame followed by
  \<open>rest\<close>, and the payload fits into a frame of 260 bytes.
\<close>

theorem mbap_frame_roundtrip:
  assumes "sock_inv (tt_socket tt)"
  shows "(\<exists>tt'. readMBAPFrame sockLink tt = Some (Ok (p, t), tt') \<and> sock_avail (tt_socket tt') = rest)
    \<longleftrightarrow> sock_avail (tt_socket tt) = assembleMBAPFrame t p @ rest \<and> length (payload p) \<le> 252"
  using tcp_sock.readMBAPFrame_refines [OF assms]
  by (elim exE conjE) (drule frame_read_Ok [of _ _ _ p t rest], auto simp: mbap_next_Frame_iff [symmetric])

definition demo_pdu :: pdu where
  "demo_pdu = \<lparr>unitId = 0x11, functionCode = fcReadHoldingRegisters, payload = [2, 0x12, 0x34]\<rparr>"

definition demo_tcp :: "byte list list \<Rightarrow> sock tcpTransport" where
  "demo_tcp segs = newTCPTransport
     \<lparr>rx = segs, rx_end = ErrDeadlineExceeded, tx = [], is_open = True, sock_deadline = 0, clock = 0\<rparr> 1000"

lemma demo_tcp_simps [simp]:
  "sock_inv (tt_socket (demo_tcp segs))"
  "sock_avail (tt_socket (demo_tcp segs)) = concat segs"
  "tt_lastTxnId (demo_tcp segs) = 0"
  "tx (tt_socket (demo_tcp segs)) = []"
  by (simp_all add: demo_tcp_def newTCPTransport_def sock_inv_def framing_error_def sock_avail_def)

lemma demo_frame: "assembleMBAPFrame t demo_pdu =
    be_bytes 2 t @ [0, 0, 0, 5, 0x11, fcReadHoldingRegisters, 2, 0x12, 0x34]"
  by (simp add: assembleMBAPFrame_def demo_pdu_def uint16ToBytes_BIG byte_order_eval)

theorem mbap_frame_roundtrip_witness:
  "sock_inv (tt_socket (demo_tcp [[0, 7, 0], [0, 0, 5, 0x11, 3, 2], [0x12, 0x34, 9]]))
   \<and> (\<exists>tt'. readMBAPFrame sockLink (demo_tcp [[0, 7, 0], [0, 0, 5, 0x11, 3, 2], [0x12, 0x34, 9]])
          = Some (Ok (demo_pdu, 7), tt') \<and> sock_avail (tt_socket tt') = [9])"
proof -
  have "sock_avail (tt_socket (demo_tcp [[0, 7, 0], [0, 0, 5, 0x11, 3, 2], [0x12, 0x34, 9]]))
      = assembleMBAPFrame 7 demo_pdu @ [9] \<and> length (payload demo_pdu) \<le> 252"
    by (simp add: demo_frame byte_order_eval) (simp add: demo_pdu_def)
  then show ?thesis
    using mbap_frame_roundtrip [of "demo_tcp [[0, 7, 0], [0, 0, 5, 0x11, 3, 2], [0x12, 0x34, 9]]"] by simp
qed

text \<open>The deadline that \<open>ExecuteRequest\<close> sets is the one that the reads run under.\<close>

lemma tcp_ExecuteRequest_deadline:
  assumes "sock_inv (tt_socket tt)" "tcp_ExecuteRequest sockLink req tt = Some (r, tt')"
  shows "sock_deadline (tt_socket tt') = clock (tt_socket tt) + tt_timeout tt"
proof -
  let ?d = "clock (tt_socket tt) + tt_timeout tt" and ?txn = "tt_lastTxnId tt + 1"
  let ?s = "(tt_socket tt)\<lparr>sock_deadline := ?d, tx := tx (tt_socket tt) @ assembleMBAPFrame ?txn req\<rparr>"
  let ?tt = "tt\<lparr>tt_lastTxnId := ?txn, tt_socket := ?s\<rparr>"
  have "is_open (tt_socket tt)" "sock_inv ?s"
    using assms(1) by (simp_all add: sock_inv_def)
  then have "readResponse sockLink ?tt = Some (r, tt')"
    using assms(2) by (simp add: tcp_ExecuteRequest_def tcp_SetDeadline_def tcp_Write_def sock_defs)
  moreover obtain r' s' where "readResponse sockLink ?tt = Some (r', ?tt\<lparr>tt_socket := s'\<rparr>)" "sock_deadline s' = ?d"
    using kept.readResponse_refines [of ?tt ?d "clock (tt_socket tt)"] \<open>sock_inv ?s\<close> by auto
  ultimately show ?thesis by auto
qed



text \<open>
  A TCP server answers the transaction it has read.  After \<open>ReadRequest\<close> returned a request,
  \<open>WriteResponse\<close> sends one frame whose transaction id is that of the frame just read, and the
  bytes after that frame stay on the socket for the next request.
\<close>

lemma tcp_server_answers_transaction:
  assumes "sock_inv (tt_socket tt)" and "tcp_ReadRequest sockLink tt = Some (Ok req, tt1)"
  shows "\<exists>txn rest tt2. sock_avail (tt_socket tt) = assembleMBAPFrame txn req @ rest
    \<and> length (payload req) \<le> 252
    \<and> tcp_WriteResponse sockLink res tt1 = (Ok (), tt2)
    \<and> tx (tt_socket tt2) = tx (tt_socket tt) @ assembleMBAPFrame txn res
    \<and> sock_avail (tt_socket tt2) = rest \<and> sock_inv (tt_socket tt2)"
proof -
  obtain s' txn where s': "tt1 = tt\<lparr>tt_socket := s', tt_lastTxnId := txn\<rparr>" "sock_inv s'"
    "tx s' = tx (tt_socket tt)" "mbap_next (sock_avail (tt_socket tt)) = Frame txn req (sock_avail s')"
    using tcp_sock.tcp_ReadRequest_refines [OF assms(1)] assms(2) by auto
  then obtain s2 where "tcp_WriteResponse sockLink res tt1 = (Ok (), tt1\<lparr>tt_socket := s2\<rparr>)"
    "sock_inv s2" "tx s2 = tx (tt_socket tt) @ assembleMBAPFrame txn res" "sock_avail s2 = sock_avail s'"
    using tcp_sock.tcp_WriteResponse_refines [of tt1 res] by auto
  with s' show ?thesis
    by (auto simp: mbap_next_Frame_iff)
qed

lemma tcp_server_answers_transaction_witness:
  "\<exists>tt1 tt2. tcp_ReadRequest sockLink (demo_tcp [assembleMBAPFrame 7 demo_pdu]) = Some (Ok demo_pdu, tt1)
     \<and> tcp_WriteResponse sockLink demo_pdu tt1 = (Ok (), tt2)
     \<and> tx (tt_socket tt2) = assembleMBAPFrame 7 demo_pdu"
proof -
  let ?tt = "demo_tcp [assembleMBAPFrame 7 demo_pdu]"
  have n: "mbap_next (sock_avail (tt_socket ?tt)) = Frame 7 demo_pdu []"
    by (simp add: mbap_next_Frame_iff) (simp add: demo_pdu_def)
  obtain r s' txn where r: "tcp_ReadRequest sockLink ?tt = Some (r, ?tt\<lparr>tt_socket := s', tt_lastTxnId := txn\<rparr>)"
    "case r of Inl e \<Rightarrow> txn = tt_lastTxnId ?tt \<and> frame_read (Frame 7 demo_pdu []) (Err e) (sock_avail s')
      | Inr p \<Rightarrow> Frame 7 demo_pdu [] = Frame txn p (sock_avail s')"
    using tcp_sock.tcp_ReadRequest_refines [of ?tt, unfolded n, OF demo_tcp_simps(1)] by blast
  then have "r = Ok demo_pdu"
    by (cases r) (simp_all add: frame_read_def)
  with r(1) have "tcp_ReadRequest sockLink ?tt = Some (Ok demo_pdu, ?tt\<lparr>tt_socket := s', tt_lastTxnId := txn\<rparr>)"
    by simp
  from this tcp_server_answers_transaction [OF demo_tcp_simps(1) this, of demo_pdu]
  show ?thesis
    by (auto simp: demo_frame byte_order_eval)
qed

end
