(* ===== verification/Server_Session.thy ===== *)
theory Server_Session
  imports Modbus_Spec Tcp_Transport
begin

text \<open>
  A connection from accept to hang-up: \<open>handleTransport\<close> of server.go over the TCP transport,
  against a pure function from the bytes the peer sends to the bytes it gets back.
\<close>

section \<open>The specification of a session\<close>

text \<open>
  The frames of the stream are answered in order, each under its own transaction id; the session
  ends at the first thing that is not a Modbus frame and after a protocol error.
\<close>

function serve_stream ::
  "'h RequestHandler \<Rightarrow> string \<Rightarrow> string \<Rightarrow> byte list \<Rightarrow> 'h \<Rightarrow> byte list \<times> 'h" where
  "serve_stream H ca cr bs h =
     (case mbap_next bs of
        Frame t p rest \<Rightarrow>
          (case serve_spec H ca cr p h of
             (None, h1) \<Rightarrow> ([], h1)
           | (Some res, h1) \<Rightarrow> apfst ((@) (assembleMBAPFrame t res)) (serve_stream H ca cr rest h1))
      | _ \<Rightarrow> ([], h))"
  by auto
termination
  by (relation "measure (\<lambda>(H, ca, cr, bs, h). length bs)") (auto dest: mbap_next_shorter)

declare serve_stream.simps [simp del]

lemma serve_stream_frame:
  assumes "length (payload p) \<le> 252"
  shows "serve_stream H ca cr (assembleMBAPFrame t p @ rest) h =
    (case serve_spec H ca cr p h of
       (None, h1) \<Rightarrow> ([], h1)
     | (Some res, h1) \<Rightarrow> apfst ((@) (assembleMBAPFrame t res)) (serve_stream H ca cr rest h1))"
proof -
  have "mbap_next (assembleMBAPFrame t p @ rest) = Frame t p rest"
    using assms by (simp add: mbap_next_Frame_iff)
  then show ?thesis
    by (simp add: serve_stream.simps [of H ca cr "assembleMBAPFrame t p @ rest"])
qed

lemma serve_stream_Nil: "serve_stream H ca cr [] h = ([], h)"
  by (simp add: serve_stream.simps [of H ca cr "[]"] mbap_next_def)

section \<open>The loop of the server\<close>

lemma tcpTransportOps_select [simp]:
  "t_ReadRequest (tcpTransportOps L) = tcp_ReadRequest L"
  "t_WriteResponse (tcpTransportOps L) = tcp_WriteResponse L"
  "t_ExecuteRequest (tcpTransportOps L) = tcp_ExecuteRequest L"
  "t_Close (tcpTransportOps L) = tcp_Close L"
  by (simp_all add: tcpTransportOps_def)

lemma tcp_Close_sent: "tx (tt_socket (snd (tcp_Close sockLink tt))) = tx (tt_socket tt)"
  by (simp add: tcp_Close_def sock_defs)

text \<open>One turn of the loop on a stream that begins with a frame.\<close>

lemma handleTransport_frame:
  assumes "sock_inv (tt_socket tt)" "mbap_next (sock_avail (tt_socket tt)) = Frame t p rest"
    and "serve_spec H ca cr p h = (Some res, h1)"
  obtains tt2 where "handleTransport (tcpTransportOps sockLink) H ca cr tt h =
      handleTransport (tcpTransportOps sockLink) H ca cr tt2 h1"
    and "sock_inv (tt_socket tt2)" "sock_avail (tt_socket tt2) = rest"
    and "tx (tt_socket tt2) = tx (tt_socket tt) @ assembleMBAPFrame t res"
proof -
  obtain r s' txn where r: "tcp_ReadRequest sockLink tt = Some (r, tt\<lparr>tt_socket := s', tt_lastTxnId := txn\<rparr>)"
    "sock_inv s'" "tx s' = tx (tt_socket tt)"
    "case r of Inl e \<Rightarrow> txn = tt_lastTxnId tt \<and> frame_read (Frame t p rest) (Err e) (sock_avail s')
      | Inr p' \<Rightarrow> Frame t p rest = Frame txn p' (sock_avail s')"
    using tcp_sock.tcp_ReadRequest_refines [OF assms(1)] unfolding assms(2) by blast
  then have ok: "r = Ok p" "txn = t" "sock_avail s' = rest"
    by (auto simp: frame_read_def split: sum.splits)
  let ?tt1 = "tt\<lparr>tt_socket := s', tt_lastTxnId := t\<rparr>"
  have i1: "sock_inv (tt_socket ?tt1)"
    using r(2) by simp
  obtain s2 where s2: "tcp_WriteResponse sockLink res ?tt1 = (Ok (), ?tt1\<lparr>tt_socket := s2\<rparr>)"
    "sock_inv s2" "tx s2 = tx s' @ assembleMBAPFrame t res" "sock_avail s2 = sock_avail s'"
    using tcp_sock.tcp_WriteResponse_refines [OF i1, of res] by auto
  have "handleTransport (tcpTransportOps sockLink) H ca cr tt h =
      handleTransport (tcpTransportOps sockLink) H ca cr (?tt1\<lparr>tt_socket := s2\<rparr>) h1"
    using r(1) ok s2(1) assms(3)
    by (subst handleTransport.simps) (simp add: serveRequest_spec)
  with s2 r(3) ok(3) show ?thesis
    by (intro that [of "?tt1\<lparr>tt_socket := s2\<rparr>"]) simp_all
qed

text \<open>The last turn: a protocol error hangs up, anything but a frame ends the session.\<close>

lemma handleTransport_hangup:
  assumes "sock_inv (tt_socket tt)" "mbap_next (sock_avail (tt_socket tt)) = Frame t p rest"
    and "serve_spec H ca cr p h = (None, h1)"
  shows "\<exists>tt'. handleTransport (tcpTransportOps sockLink) H ca cr tt h = Some (tt', h1)
    \<and> tx (tt_socket tt') = tx (tt_socket tt) \<and> \<not> is_open (tt_socket tt')"
proof -
  obtain r s' txn where r: "tcp_ReadRequest sockLink tt = Some (r, tt\<lparr>tt_socket := s', tt_lastTxnId := txn\<rparr>)"
    "sock_inv s'" "tx s' = tx (tt_socket tt)"
    "case r of Inl e \<Rightarrow> txn = tt_lastTxnId tt \<and> frame_read (Frame t p rest) (Err e) (sock_avail s')
      | Inr p' \<Rightarrow> Frame t p rest = Frame txn p' (sock_avail s')"
    using tcp_sock.tcp_ReadRequest_refines [OF assms(1)] unfolding assms(2) by blast
  then have "r = Ok p"
    by (auto simp: frame_read_def split: sum.splits)
  with r assms(3) show ?thesis
    by (subst handleTransport.simps) (simp add: serveRequest_spec tcp_Close_def sock_defs)
qed

lemma handleTransport_end:
  assumes "sock_inv (tt_socket tt)" "\<nexists>t p rest. mbap_next (sock_avail (tt_socket tt)) = Frame t p rest"
  shows "\<exists>tt'. handleTransport (tcpTransportOps sockLink) H ca cr tt h = Some (tt', h)
    \<and> tx (tt_socket tt') = tx (tt_socket tt)"
proof -
  obtain r s' txn where r: "tcp_ReadRequest sockLink tt = Some (r, tt\<lparr>tt_socket := s', tt_lastTxnId := txn\<rparr>)"
    "tx s' = tx (tt_socket tt)"
    "case r of Inl e \<Rightarrow> txn = tt_lastTxnId tt
        \<and> frame_read (mbap_next (sock_avail (tt_socket tt))) (Err e) (sock_avail s')
      | Inr p' \<Rightarrow> mbap_next (sock_avail (tt_socket tt)) = Frame txn p' (sock_avail s')"
    using tcp_sock.tcp_ReadRequest_refines [OF assms(1)] by blast
  with assms(2) obtain e where "r = Err e"
    by (cases r) auto
  with r show ?thesis
    by (subst handleTransport.simps) simp
qed

lemma handleTransport_refines:
  assumes "sock_inv (tt_socket tt)"
  shows "\<exists>tt'. handleTransport (tcpTransportOps sockLink) H ca cr tt h =
      Some (tt', snd (serve_stream H ca cr (sock_avail (tt_socket tt)) h))
    \<and> tx (tt_socket tt') = tx (tt_socket tt) @ fst (serve_stream H ca cr (sock_avail (tt_socket tt)) h)"
  using assms
proof (induction "length (sock_avail (tt_socket tt))" arbitrary: tt h rule: less_induct)
  case less
  let ?bs = "sock_avail (tt_socket tt)"
  note step = serve_stream.simps [of H ca cr ?bs h]
  show ?case
  proof (cases "mbap_next ?bs")
    case (Frame t p rest)
    obtain reply h1 where s: "serve_spec H ca cr p h = (reply, h1)"
      by fastforce
    show ?thesis
    proof (cases reply)
      case None
      with s have "serve_spec H ca cr p h = (None, h1)" by simp
      from handleTransport_hangup [OF less.prems Frame this] this show ?thesis
        by (auto simp: step Frame)
    next
      case (Some res)
      then obtain tt2 where tt2: "handleTransport (tcpTransportOps sockLink) H ca cr tt h =
          handleTransport (tcpTransportOps sockLink) H ca cr tt2 h1" "sock_inv (tt_socket tt2)"
        "sock_avail (tt_socket tt2) = rest" "tx (tt_socket tt2) = tx (tt_socket tt) @ assembleMBAPFrame t res"
        using s by (metis handleTransport_frame [OF less.prems Frame])
      then have "length (sock_avail (tt_socket tt2)) < length ?bs"
        using mbap_next_shorter(1) [OF Frame] by simp
      from less.hyps [OF this tt2(2), of h1] tt2 s Some show ?thesis
        by (auto simp: step Frame)
    qed
  qed (use handleTransport_end [OF less.prems, of H ca cr h] in \<open>auto simp: step\<close>)
qed

section \<open>Properties\<close>

text \<open>
  C2: a server session is a function of the bytes received.  Over an open socket the loop of
  \<open>handleTransport\<close> always returns; what it has sent is, for each complete frame in order and under
  the transaction id of that frame, the reply the specification gives to it with the handler
  state the frames before it left; it answers nothing after a protocol error or after bytes
  that are no Modbus frame, and requests that arrive back to back are all answered.
\<close>

theorem server_session:
  assumes "sock_inv (tt_socket tt)"
  shows "\<exists>tt'. handleTransport (tcpTransportOps sockLink) H clientAddr clientRole tt h =
      Some (tt', snd (serve_stream H clientAddr clientRole (sock_avail (tt_socket tt)) h))
    \<and> tx (tt_socket tt') =
        tx (tt_socket tt) @ fst (serve_stream H clientAddr clientRole (sock_avail (tt_socket tt)) h)"
  using assms by (rule handleTransport_refines)

text \<open>Two requests in one segment, the second a write, then a frame of another protocol.\<close>

theorem server_session_witness:
  "\<exists>tt'. handleTransport (tcpTransportOps sockLink) demo_handler ''peer'' ''''
      (demo_tcp [assembleMBAPFrame 7 (encode_request 1 (ReadRegs False 0 1))
                 @ assembleMBAPFrame 8 (encode_request 1 (SetReg 0 0xabcd))]) [0x1234]
      = Some (tt', [0xabcd])
    \<and> tx (tt_socket tt') =
        assembleMBAPFrame 7 \<lparr>unitId = 1, functionCode = 3, payload = [2, 0x12, 0x34]\<rparr>
        @ assembleMBAPFrame 8 \<lparr>unitId = 1, functionCode = 6, payload = [0, 0, 0xab, 0xcd]\<rparr>"
proof -
  let ?p = "encode_request 1 (ReadRegs False 0 1)" and ?q = "encode_request 1 (SetReg 0 0xabcd)"
  have len: "length (payload ?p) \<le> 252" "length (payload ?q) \<le> 252"
    by (simp_all add: encode_request_def)
  have spec: "serve_spec demo_handler ''peer'' '''' ?p [0x1234] =
      (Some \<lparr>unitId = 1, functionCode = 3, payload = [2, 0x12, 0x34]\<rparr>, [0x1234])"
    "serve_spec demo_handler ''peer'' '''' ?q [0x1234] =
      (Some \<lparr>unitId = 1, functionCode = 6, payload = [0, 0, 0xab, 0xcd]\<rparr>, [0xabcd])"
    using serve_valid [of "ReadRegs False 0 1" demo_handler "''peer''" "''''" 1 "[0x1234]"]
      serve_valid [of "SetReg 0 0xabcd" demo_handler "''peer''" "''''" 1 "[0x1234]"]
    by (simp_all add: serveRequest_spec demo_handler_def answer_def uint16ToBytes_def byte_order_eval)
  have "serve_stream demo_handler ''peer'' '''' (assembleMBAPFrame 7 ?p @ assembleMBAPFrame 8 ?q @ []) [0x1234]
      = (assembleMBAPFrame 7 \<lparr>unitId = 1, functionCode = 3, payload = [2, 0x12, 0x34]\<rparr>
         @ assembleMBAPFrame 8 \<lparr>unitId = 1, functionCode = 6, payload = [0, 0, 0xab, 0xcd]\<rparr>, [0xabcd])"
    by (simp only: serve_stream_frame len spec serve_stream_Nil prod.case option.case apfst_conv)
      (simp only: append_Nil2)
  then show ?thesis
    using server_session [of "demo_tcp [assembleMBAPFrame 7 ?p @ assembleMBAPFrame 8 ?q]"
        demo_handler "''peer''" "''''" "[0x1234]"] by simp
qed

end
