(* ===== verification/Client.thy ===== *)
theory Client
  imports Modbus_Spec
begin

text \<open>
  internal/modbus/client.go: the requests of a client over any transport.  The first part is the
  code, method by method; the second relates every method to the abstract requests of
  Modbus_Spec, through \<open>ask_server\<close>, which sends one request and judges the response by a
  pure function.

  The methods are sequential: each holds the mutex of the client from its checks to the response.
\<close>

section \<open>The client\<close>

type_synonym RegType = uint

abbreviation HOLDING_REGISTER :: RegType where "HOLDING_REGISTER \<equiv> 0"
abbreviation INPUT_REGISTER :: RegType where "INPUT_REGISTER \<equiv> 1"

text \<open>The certificates and certificate pools of crypto/tls are only passed on: type variables.\<close>

record ('cert, 'pool) ClientConfiguration =
  cc_URL :: string
  cc_Speed :: uint
  cc_DataBits :: uint
  cc_Parity :: uint
  cc_StopBits :: uint
  cc_Timeout :: int
  cc_TLSClientCert :: "'cert option"
  cc_TLSRootCAs :: "'pool option"

datatype transportType =
    noTransport
  | modbusRTU
  | modbusRTUOverTCP
  | modbusRTUOverUDP
  | modbusTCP
  | modbusTCPOverTLS
  | modbusTCPOverUDP

text \<open>\<open>mc_transport\<close> is \<open>None\<close> while the client is not open: a call on the nil interface panics.\<close>

record ('cert, 'pool, 't) ModbusClient =
  mc_conf :: "('cert, 'pool) ClientConfiguration"
  mc_endianness :: endianness
  mc_wordOrder :: word_order
  mc_transport :: "'t option"
  mc_unitId :: uint8
  mc_transportType :: transportType

definition SetUnitId :: "uint8 \<Rightarrow> ('c, 'p, 't) ModbusClient \<Rightarrow> ('c, 'p, 't) ModbusClient" where
  "SetUnitId unit mc = mc\<lparr>mc_unitId := unit\<rparr>"

definition SetEncoding ::
  "endianness \<Rightarrow> word_order \<Rightarrow> ('c, 'p, 't) ModbusClient \<Rightarrow> unit result \<times> ('c, 'p, 't) ModbusClient" where
  "SetEncoding endianness wordOrder mc =
     (if endianness \<noteq> BIG_ENDIAN \<and> endianness \<noteq> LITTLE_ENDIAN then (Err ErrUnexpectedParameters, mc)
      else if wordOrder \<noteq> HIGH_WORD_FIRST \<and> wordOrder \<noteq> LOW_WORD_FIRST then (Err ErrUnexpectedParameters, mc)
      else (Ok (), mc\<lparr>mc_endianness := endianness, mc_wordOrder := wordOrder\<rparr>))"

definition client_Close ::
  "'t transport \<Rightarrow> ('c, 'p, 't) ModbusClient \<Rightarrow> (unit result \<times> ('c, 'p, 't) ModbusClient) option" where
  "client_Close T mc = do {
     t \<leftarrow> mc_transport mc;
     (case t_Close T t of (r, t') \<Rightarrow> Some (r, mc\<lparr>mc_transport := Some t'\<rparr>)) }"

section \<open>One request\<close>

text \<open>
  \<open>os.IsTimeout\<close>: \<open>ErrDeadlineExceeded\<close> stands for every error whose \<open>Timeout\<close> method returns
  true.  The errors of the package itself have no such method.
\<close>

definition os_IsTimeout :: "go_error \<Rightarrow> bool" where
  "os_IsTimeout e \<longleftrightarrow> e = ErrDeadlineExceeded"

text \<open>A method's outcome: its result and the client afterwards; \<open>None\<close> does not return.\<close>

type_synonym ('c, 'p, 't, 'a) call = "('a result \<times> ('c, 'p, 't) ModbusClient) option"

definition executeRequest ::
  "'t transport \<Rightarrow> pdu \<Rightarrow> ('c, 'p, 't) ModbusClient \<Rightarrow> ('c, 'p, 't, pdu) call" where
  "executeRequest T req mc = do {
     t \<leftarrow> mc_transport mc;
     (r, t') \<leftarrow> t_ExecuteRequest T req t;
     let mc1 = mc\<lparr>mc_transport := Some t'\<rparr>;
     Some (case r of
       Inl e \<Rightarrow> (Err (if os_IsTimeout e then ErrRequestTimedOut else e), mc1)
     | Inr res \<Rightarrow>
         if and (functionCode res) 0x80 = 0x00 \<and> unitId res \<noteq> unitId req then (Err ErrBadUnitId, mc1)
         else if and (functionCode res) 0x80 = 0x80
           \<and> (unitId res \<noteq> unitId req \<and> unitId res \<noteq> 0xff) then (Err ErrBadUnitId, mc1)
         else (Ok res, mc1)) }"

text \<open>The last two cases of the switch every method ends with.\<close>

definition notNormal :: "pdu \<Rightarrow> pdu \<Rightarrow> go_error" where
  "notNormal req res =
     (if functionCode res = or (functionCode req) 0x80 then
        (case payload res of [code] \<Rightarrow> mapExceptionCodeToError code | _ \<Rightarrow> ErrProtocolError)
      else ErrProtocolError)"

definition readBools ::
  "'t transport \<Rightarrow> uint16 \<Rightarrow> uint16 \<Rightarrow> bool \<Rightarrow> ('c, 'p, 't) ModbusClient \<Rightarrow> ('c, 'p, 't, bool list) call" where
  "readBools T addr quantity di mc =
     (if quantity = 0 then Some (Err ErrUnexpectedParameters, mc)
      else if 2000 < quantity then Some (Err ErrUnexpectedParameters, mc)
      else if pastEnd addr quantity then Some (Err ErrUnexpectedParameters, mc)
      else do {
        let req = \<lparr>unitId = mc_unitId mc, functionCode = (if di then fcReadDiscreteInputs else fcReadCoils),
                   payload = uint16ToBytes BIG_ENDIAN addr @ uint16ToBytes BIG_ENDIAN quantity\<rparr>;
        (r, mc1) \<leftarrow> executeRequest T req mc;
        (case r of
           Inl e \<Rightarrow> Some (Err e, mc1)
         | Inr res \<Rightarrow>
             if functionCode res = functionCode req then
               let expectedLen = 1 + unat quantity div 8 + (if quantity mod 8 \<noteq> 0 then 1 else 0) in
               if length (payload res) \<noteq> expectedLen then Some (Err ErrProtocolError, mc1)
               else do {
                 count \<leftarrow> go_index (payload res) 0;
                 (if unat count + 1 \<noteq> expectedLen then Some (Err ErrProtocolError, mc1)
                  else do {
                    data \<leftarrow> go_slice (payload res) 1 (length (payload res));
                    values \<leftarrow> decodeBools quantity data;
                    Some (Ok values, mc1) }) }
             else Some (Err (notNormal req res), mc1)) })"

text \<open>
  The checks for a quantity of 0 and for more than 123 registers set \<open>err\<close> and fall through; the
  call of \<open>executeRequest\<close> overwrites it, so they have no effect.
\<close>

definition readRegisters ::
  "'t transport \<Rightarrow> uint16 \<Rightarrow> uint16 \<Rightarrow> RegType \<Rightarrow> ('c, 'p, 't) ModbusClient \<Rightarrow> ('c, 'p, 't, byte list) call" where
  "readRegisters T addr quantity regType mc =
     (if regType \<noteq> HOLDING_REGISTER \<and> regType \<noteq> INPUT_REGISTER then Some (Err ErrUnexpectedParameters, mc)
      else if pastEnd addr quantity then Some (Err ErrUnexpectedParameters, mc)
      else do {
        let req = \<lparr>unitId = mc_unitId mc,
                   functionCode = (if regType = HOLDING_REGISTER then fcReadHoldingRegisters
                                   else fcReadInputRegisters),
                   payload = uint16ToBytes BIG_ENDIAN addr @ uint16ToBytes BIG_ENDIAN quantity\<rparr>;
        (r, mc1) \<leftarrow> executeRequest T req mc;
        (case r of
           Inl e \<Rightarrow> Some (Err e, mc1)
         | Inr res \<Rightarrow>
             if functionCode res = functionCode req then
               if length (payload res) \<noteq> 1 + 2 * unat quantity then Some (Err ErrProtocolError, mc1)
               else do {
                 count \<leftarrow> go_index (payload res) 0;
                 (if (ucast count :: uint) \<noteq> 2 * ucast quantity then Some (Err ErrProtocolError, mc1)
                  else do {
                    bytes \<leftarrow> go_slice (payload res) 1 (length (payload res));
                    Some (Ok bytes, mc1) }) }
             else Some (Err (notNormal req res), mc1)) })"

text \<open>
  The lengths of the arguments are truncated to 16 bits before they are checked.  The response of
  a write echoes the address and a second field; \<open>echo\<close> is the condition on the four bytes.
\<close>

definition finishWrite ::
  "pdu \<Rightarrow> (byte list \<Rightarrow> bool option) \<Rightarrow> pdu result \<Rightarrow> ('c, 'p, 't) ModbusClient \<Rightarrow> ('c, 'p, 't, unit) call" where
  "finishWrite req echo r mc =
     (case r of
        Inl e \<Rightarrow> Some (Err e, mc)
      | Inr res \<Rightarrow>
          if functionCode res = functionCode req then
            if length (payload res) \<noteq> 4 then Some (Err ErrProtocolError, mc)
            else do {
              ok \<leftarrow> echo (payload res);
              Some (if ok then Ok () else Err ErrProtocolError, mc) }
          else Some (Err (notNormal req res), mc))"

definition writeRegisters ::
  "'t transport \<Rightarrow> uint16 \<Rightarrow> byte list \<Rightarrow> ('c, 'p, 't) ModbusClient \<Rightarrow> ('c, 'p, 't, unit) call" where
  "writeRegisters T addr values mc =
     (let payloadLength = (of_nat (length values) :: uint16); quantity = payloadLength div 2 in
      if quantity = 0 then Some (Err ErrUnexpectedParameters, mc)
      else if 123 < quantity then Some (Err ErrUnexpectedParameters, mc)
      else if pastEnd addr quantity then Some (Err ErrUnexpectedParameters, mc)
      else do {
        let req = \<lparr>unitId = mc_unitId mc, functionCode = fcWriteMultipleRegisters,
                   payload = uint16ToBytes BIG_ENDIAN addr @ uint16ToBytes BIG_ENDIAN quantity
                     @ [ucast payloadLength] @ values\<rparr>;
        (r, mc1) \<leftarrow> executeRequest T req mc;
        finishWrite req (\<lambda>pl. do {
          a \<leftarrow> fieldAt pl 0;
          if a \<noteq> addr then Some False else do { q \<leftarrow> fieldAt pl 2; Some (q = quantity) } }) r mc1 })"

section \<open>Coils\<close>

definition ReadCoils where
  "ReadCoils T addr quantity mc = readBools T addr quantity False mc"

definition ReadDiscreteInputs where
  "ReadDiscreteInputs T addr quantity mc = readBools T addr quantity True mc"

text \<open>\<open>if err == nil { value = f(values) }\<close>, where \<open>f\<close> may panic\<close>

definition on_ok :: "('c, 'p, 't, 'a) call \<Rightarrow> ('a \<Rightarrow> 'b option) \<Rightarrow> ('c, 'p, 't, 'b) call" where
  "on_ok x f = do {
     (r, mc) \<leftarrow> x;
     (case r of Inl e \<Rightarrow> Some (Err e, mc) | Inr v \<Rightarrow> do { u \<leftarrow> f v; Some (Ok u, mc) }) }"

definition ReadCoil where
  "ReadCoil T addr mc = on_ok (readBools T addr 1 False mc) (\<lambda>values. go_index values 0)"

definition ReadDiscreteInput where
  "ReadDiscreteInput T addr mc = on_ok (readBools T addr 1 True mc) (\<lambda>values. go_index values 0)"

text \<open>For a \<open>false\<close> coil the third byte of the response is not looked at.\<close>

definition WriteCoil ::
  "'t transport \<Rightarrow> uint16 \<Rightarrow> bool \<Rightarrow> ('c, 'p, 't) ModbusClient \<Rightarrow> ('c, 'p, 't, unit) call" where
  "WriteCoil T addr value mc = do {
     let req = \<lparr>unitId = mc_unitId mc, functionCode = fcWriteSingleCoil,
                payload = uint16ToBytes BIG_ENDIAN addr @ (if value then [0xff, 0x00] else [0x00, 0x00])\<rparr>;
     (r, mc1) \<leftarrow> executeRequest T req mc;
     finishWrite req (\<lambda>pl. do {
       a \<leftarrow> fieldAt pl 0;
       hi \<leftarrow> go_index pl 2;
       lo \<leftarrow> go_index pl 3;
       Some (\<not> (a \<noteq> addr \<or> (value \<and> hi \<noteq> 0xff) \<or> lo \<noteq> 0x00)) }) r mc1 }"

definition WriteCoils ::
  "'t transport \<Rightarrow> uint16 \<Rightarrow> bool list \<Rightarrow> ('c, 'p, 't) ModbusClient \<Rightarrow> ('c, 'p, 't, unit) call" where
  "WriteCoils T addr values mc =
     (let quantity = (of_nat (length values) :: uint16) in
      if quantity = 0 then Some (Err ErrUnexpectedParameters, mc)
      else if 0x7b0 < quantity then Some (Err ErrUnexpectedParameters, mc)
      else if pastEnd addr quantity then Some (Err ErrUnexpectedParameters, mc)
      else do {
        let encodedValues = encodeBools values;
        let req = \<lparr>unitId = mc_unitId mc, functionCode = fcWriteMultipleCoils,
                   payload = uint16ToBytes BIG_ENDIAN addr @ uint16ToBytes BIG_ENDIAN quantity
                     @ [of_nat (length encodedValues)] @ encodedValues\<rparr>;
        (r, mc1) \<leftarrow> executeRequest T req mc;
        finishWrite req (\<lambda>pl. do {
          a \<leftarrow> fieldAt pl 0;
          if a \<noteq> addr then Some False else do { q \<leftarrow> fieldAt pl 2; Some (q = quantity) } }) r mc1 })"

section \<open>Registers\<close>

text \<open>The same field of the response, through the byte order in use.\<close>

definition WriteRegister ::
  "'t transport \<Rightarrow> uint16 \<Rightarrow> uint16 \<Rightarrow> ('c, 'p, 't) ModbusClient \<Rightarrow> ('c, 'p, 't, unit) call" where
  "WriteRegister T addr value mc = do {
     let req = \<lparr>unitId = mc_unitId mc, functionCode = fcWriteSingleRegister,
                payload = uint16ToBytes BIG_ENDIAN addr @ uint16ToBytes (mc_endianness mc) value\<rparr>;
     (r, mc1) \<leftarrow> executeRequest T req mc;
     finishWrite req (\<lambda>pl. do {
       a \<leftarrow> fieldAt pl 0;
       if a \<noteq> addr then Some False
       else do { b \<leftarrow> go_slice pl 2 4; v \<leftarrow> bytesToUint16 (mc_endianness mc1) b; Some (v = value) } }) r mc1 }"

definition ReadRegisters where
  "ReadRegisters T addr quantity regType mc =
     on_ok (readRegisters T addr quantity regType mc) (bytesToUint16s (mc_endianness mc))"

definition ReadRegister where
  "ReadRegister T addr regType mc = on_ok (ReadRegisters T addr 1 regType mc) (\<lambda>values. go_index values 0)"

definition ReadUint32s where
  "ReadUint32s T addr quantity regType mc =
     on_ok (readRegisters T addr (quantity * 2) regType mc) (bytesToUint32s (mc_endianness mc) (mc_wordOrder mc))"

definition ReadUint32 where
  "ReadUint32 T addr regType mc = on_ok (ReadUint32s T addr 1 regType mc) (\<lambda>values. go_index values 0)"

definition ReadFloat32s where
  "ReadFloat32s T addr quantity regType mc =
     on_ok (readRegisters T addr (quantity * 2) regType mc) (bytesToFloat32s (mc_endianness mc) (mc_wordOrder mc))"

definition ReadFloat32 where
  "ReadFloat32 T addr regType mc = on_ok (ReadFloat32s T addr 1 regType mc) (\<lambda>values. go_index values 0)"

definition ReadUint64s where
  "ReadUint64s T addr quantity regType mc =
     on_ok (readRegisters T addr (quantity * 4) regType mc) (bytesToUint64s (mc_endianness mc) (mc_wordOrder mc))"

definition ReadUint64 where
  "ReadUint64 T addr regType mc = on_ok (ReadUint64s T addr 1 regType mc) (\<lambda>values. go_index values 0)"

definition ReadFloat64s where
  "ReadFloat64s T addr quantity regType mc =
     on_ok (readRegisters T addr (quantity * 4) regType mc) (bytesToFloat64s (mc_endianness mc) (mc_wordOrder mc))"

definition ReadFloat64 where
  "ReadFloat64 T addr regType mc = on_ok (ReadFloat64s T addr 1 regType mc) (\<lambda>values. go_index values 0)"

definition WriteRegisters where
  "WriteRegisters T addr values mc =
     writeRegisters T addr (concat (map (uint16ToBytes (mc_endianness mc)) values)) mc"

definition WriteUint32s where
  "WriteUint32s T addr values mc =
     writeRegisters T addr (concat (map (uint32ToBytes (mc_endianness mc) (mc_wordOrder mc)) values)) mc"

definition WriteUint32 where
  "WriteUint32 T addr value mc =
     writeRegisters T addr (uint32ToBytes (mc_endianness mc) (mc_wordOrder mc) value) mc"

definition WriteFloat32s where
  "WriteFloat32s T addr values mc =
     writeRegisters T addr (concat (map (float32ToBytes (mc_endianness mc) (mc_wordOrder mc)) values)) mc"

definition WriteFloat32 where
  "WriteFloat32 T addr value mc =
     writeRegisters T addr (float32ToBytes (mc_endianness mc) (mc_wordOrder mc) value) mc"

definition WriteUint64s where
  "WriteUint64s T addr values mc =
     writeRegisters T addr (concat (map (uint64ToBytes (mc_endianness mc) (mc_wordOrder mc)) values)) mc"

definition WriteUint64 where
  "WriteUint64 T addr value mc =
     writeRegisters T addr (uint64ToBytes (mc_endianness mc) (mc_wordOrder mc) value) mc"

definition WriteFloat64s where
  "WriteFloat64s T addr values mc =
     writeRegisters T addr (concat (map (float64ToBytes (mc_endianness mc) (mc_wordOrder mc)) values)) mc"

definition WriteFloat64 where
  "WriteFloat64 T addr value mc =
     writeRegisters T addr (float64ToBytes (mc_endianness mc) (mc_wordOrder mc) value) mc"

section \<open>Bytes\<close>

text \<open>The swap loop steps by two and panics on a single byte at the end.\<close>

fun swapPairs :: "byte list \<Rightarrow> byte list option" where
  "swapPairs [] = Some []"
| "swapPairs [b] = None"
| "swapPairs (b # c # bs) = map_option (\<lambda>r. c # b # r) (swapPairs bs)"

definition readBytes ::
  "'t transport \<Rightarrow> uint16 \<Rightarrow> uint16 \<Rightarrow> RegType \<Rightarrow> bool \<Rightarrow> ('c, 'p, 't) ModbusClient \<Rightarrow> ('c, 'p, 't, byte list) call" where
  "readBytes T addr quantity regType observeEndianness mc =
     (let regCount = quantity div 2 + quantity mod 2 in
      on_ok (readRegisters T addr regCount regType mc) (\<lambda>values. do {
        values \<leftarrow> (if observeEndianness \<and> mc_endianness mc = LITTLE_ENDIAN then swapPairs values else Some values);
        (if quantity mod 2 = 1 then
           if values = [] then None else go_slice values 0 (length values - 1)
         else Some values) }))"

definition ReadBytes where
  "ReadBytes T addr quantity regType mc = readBytes T addr quantity regType True mc"

definition ReadRawBytes where
  "ReadRawBytes T addr quantity regType mc = readBytes T addr quantity regType False mc"

text \<open>
  The slice of a caller: the array under it, from its first element to its capacity, and its length.
  \<open>append\<close> to it takes the next element of that array when there is one, and a new array otherwise.  The second
  component of the outcome is the array after the call: the swap loop works in place, on the
  array that the slice has then.
\<close>

record byte_slice =
  sl_array :: "byte list"
  sl_len :: nat

definition sl_bytes :: "byte_slice \<Rightarrow> byte list" where
  "sl_bytes sl = take (sl_len sl) (sl_array sl)"

definition writeBytes ::
  "'t transport \<Rightarrow> uint16 \<Rightarrow> byte_slice \<Rightarrow> bool \<Rightarrow> ('c, 'p, 't) ModbusClient
    \<Rightarrow> ((unit result \<times> byte list) \<times> ('c, 'p, 't) ModbusClient) option" where
  "writeBytes T addr sl observeEndianness mc =
     (let values = sl_bytes sl;
          padded = (if length values mod 2 = 1 then values @ [0x00] else values);
          callers = (length padded \<le> length (sl_array sl))
      in do {
        swapped \<leftarrow> (if observeEndianness \<and> mc_endianness mc = LITTLE_ENDIAN then swapPairs padded else Some padded);
        (r, mc1) \<leftarrow> writeRegisters T addr swapped mc;
        Some ((r, if callers then swapped @ drop (length swapped) (sl_array sl) else sl_array sl), mc1) })"

definition WriteBytes where
  "WriteBytes T addr values mc = writeBytes T addr values True mc"

definition WriteRawBytes where
  "WriteRawBytes T addr values mc = writeBytes T addr values False mc"

section \<open>The abstract view of a request\<close>

text \<open>What the payload of a normal response says, if it is a response to the request at all.\<close>

fun reply_values :: "mb_request \<Rightarrow> byte list \<Rightarrow> mb_values option" where
  "reply_values (ReadBits _ _ n) (c # bs) =
     (if length bs = boolByteCount n \<and> unat c = boolByteCount n then Some (Bits (bits_of n bs)) else None)"
| "reply_values (ReadRegs _ _ n) (c # bs) =
     (if length bs = 2 * n \<and> unat c = 2 * n then Some (Regs (words_of bs)) else None)"
| "reply_values (SetBit addr v) [a1, a0, v1, v0] =
     (if be_word [a1, a0] = addr \<and> (v \<longrightarrow> v1 = 0xff) \<and> v0 = 0 then Some (Bits []) else None)"
| "reply_values (SetBits addr vs) [a1, a0, n1, n0] =
     (if be_word [a1, a0] = addr \<and> be_word [n1, n0] = (of_nat (length vs) :: uint16) then Some (Bits []) else None)"
| "reply_values (SetReg addr v) [a1, a0, v1, v0] =
     (if be_word [a1, a0] = addr \<and> be_word [v1, v0] = v then Some (Regs []) else None)"
| "reply_values (SetRegs addr vs) [a1, a0, n1, n0] =
     (if be_word [a1, a0] = addr \<and> be_word [n1, n0] = (of_nat (length vs) :: uint16) then Some (Regs []) else None)"
| "reply_values _ _ = None"

text \<open>
  The judgement on what the transport brought back for request \<open>q\<close> to unit \<open>u\<close>: a response must
  come from that unit (an exception may come from a gateway, unit 255), repeat the function code
  and carry the values, or be an exception of one byte.
\<close>

definition judge_reply :: "mb_request \<Rightarrow> pdu \<Rightarrow> mb_values result" where
  "judge_reply q res =
     (if functionCode res = fc_of q then
        (case reply_values q (payload res) of Some v \<Rightarrow> Ok v | None \<Rightarrow> Err ErrProtocolError)
      else if functionCode res = or 0x80 (fc_of q) then
        (case payload res of [c] \<Rightarrow> Err (mapExceptionCodeToError c) | _ \<Rightarrow> Err ErrProtocolError)
      else Err ErrProtocolError)"

definition judge :: "uint8 \<Rightarrow> mb_request \<Rightarrow> pdu result \<Rightarrow> mb_values result" where
  "judge u q r =
     (case r of
        Inl e \<Rightarrow> Err (if os_IsTimeout e then ErrRequestTimedOut else e)
      | Inr res \<Rightarrow>
          if unitId res \<noteq> u \<and> \<not> (bit (functionCode res) 7 \<and> unitId res = 0xff) then Err ErrBadUnitId
          else judge_reply q res)"

definition ask_server ::
  "'t transport \<Rightarrow> mb_request \<Rightarrow> ('c, 'p, 't) ModbusClient \<Rightarrow> ('c, 'p, 't, mb_values) call" where
  "ask_server T q mc = do {
     t \<leftarrow> mc_transport mc;
     (r, t') \<leftarrow> t_ExecuteRequest T (encode_request (mc_unitId mc) q) t;
     Some (judge (mc_unitId mc) q r, mc\<lparr>mc_transport := Some t'\<rparr>) }"

fun bits :: "mb_values \<Rightarrow> bool list" where
  "bits (Bits bs) = bs"
| "bits (Regs _) = []"

fun regs :: "mb_values \<Rightarrow> uint16 list" where
  "regs (Regs rs) = rs"
| "regs (Bits _) = []"

abbreviation on_values :: "('a \<Rightarrow> 'b) \<Rightarrow> ('c, 'p, 't, 'a) call \<Rightarrow> ('c, 'p, 't, 'b) call" where
  "on_values f \<equiv> map_option (apfst (map_sum (\<lambda>e. e) f))"

section \<open>The methods implement the abstract view\<close>

lemma error_bit:
  "and (x :: uint8) 0x80 = 0 \<longleftrightarrow> \<not> bit x 7"
  "and (x :: uint8) 0x80 = 0x80 \<longleftrightarrow> bit x 7"
proof -
  show zero: "and x 0x80 = 0 \<longleftrightarrow> \<not> bit x 7"
    using and_exp_eq_0_iff_not_bit [of x 7] by simp
  have "and x (2 ^ 7) = 2 ^ 7" if "bit x 7"
    using that by (intro bit_word_eqI) (auto simp only: bit_and_iff bit_exp_iff)
  then show "and x 0x80 = 0x80 \<longleftrightarrow> bit x 7"
    using zero by auto
qed

lemma executeRequest_accept:
  "executeRequest T req mc = do {
     t \<leftarrow> mc_transport mc;
     (r, t') \<leftarrow> t_ExecuteRequest T req t;
     Some (case r of
       Inl e \<Rightarrow> Err (if os_IsTimeout e then ErrRequestTimedOut else e)
     | Inr res \<Rightarrow>
         if unitId res \<noteq> unitId req \<and> \<not> (bit (functionCode res) 7 \<and> unitId res = 0xff)
         then Err ErrBadUnitId else Ok res, mc\<lparr>mc_transport := Some t'\<rparr>) }"
  unfolding executeRequest_def Let_def error_bit
  by (auto split: sum.splits bind_splits)

text \<open>A method is the request it sends and what it makes of an accepted response.\<close>

lemma method_asks:
  assumes "\<And>e m. F (Inl e) m = Some (Err e, m)"
    and "\<And>res t. F (Inr res) (mc\<lparr>mc_transport := Some t\<rparr>) =
      Some (map_sum (\<lambda>e. e) f (judge_reply q res), mc\<lparr>mc_transport := Some t\<rparr>)"
  shows "Option.bind (executeRequest T (encode_request (mc_unitId mc) q) mc) (\<lambda>(r, mc1). F r mc1) =
    on_values f (ask_server T q mc)"
  using assms
  by (auto simp: executeRequest_accept ask_server_def judge_def encode_request_def
      split: bind_splits sum.splits)

lemma notNormal_judge:
  assumes "functionCode res \<noteq> fc_of q"
  shows "Err (notNormal (encode_request u q) res) = map_sum (\<lambda>e. e) f (judge_reply q res)"
  using assms
  by (simp add: notNormal_def judge_reply_def encode_request_def or.commute [of _ "0x80"] split: list.split)

lemma span_check:
  assumes "most < 65536"
  shows "in_range most addr (unat n) \<longleftrightarrow> n \<noteq> 0 \<and> \<not> of_nat most < n \<and> \<not> pastEnd addr n"
  by (cases rule: span_cases [OF assms, where quantity = n and addr = addr]) (auto simp: unat_gt_0 unat_0_iff)

lemma bits_of_decode:
  "length bs = boolByteCount (unat n) \<Longrightarrow> decodeBools n bs = Some (bits_of (unat n) bs)"
  by (simp add: decodeBools_Some bits_of_def)

lemma readBools_asks:
  fixes mc :: "('c, 'p, 't) ModbusClient"
  shows "readBools T addr n di mc =
     (if valid_request (ReadBits di addr (unat n)) then on_values bits (ask_server T (ReadBits di addr (unat n)) mc)
      else Some (Err ErrUnexpectedParameters, mc))"
proof (cases "valid_request (ReadBits di addr (unat n))")
  case False
  then have "n = 0 \<or> 2000 < n \<or> pastEnd addr n"
    using span_check [of 2000 addr n] by auto
  with False show ?thesis
    by (auto simp: readBools_def)
next
  case True
  then have ok: "n \<noteq> 0" "\<not> 2000 < n" "\<not> pastEnd addr n"
    using span_check [of 2000 addr n] by simp_all
  let ?q = "ReadBits di addr (unat n)"
  have enc: "\<lparr>unitId = mc_unitId mc, functionCode = (if di then fcReadDiscreteInputs else fcReadCoils),
      payload = be16 addr @ be16 n\<rparr> = encode_request (mc_unitId mc) ?q"
    by (simp add: encode_request_def)
  have len: "1 + unat n div 8 + (if n mod 8 \<noteq> 0 then 1 else 0) = 1 + boolByteCount (unat n)"
    by (simp add: boolByteCount_def unat_mod unat_eq_zero [symmetric])
  have judged: "(if functionCode res = functionCode (encode_request (mc_unitId mc) ?q) then
      if length (payload res) \<noteq> 1 + boolByteCount (unat n) then Some (Err ErrProtocolError, m)
      else do {
        count \<leftarrow> go_index (payload res) 0;
        (if unat count + 1 \<noteq> 1 + boolByteCount (unat n) then Some (Err ErrProtocolError, m)
         else do {
           data \<leftarrow> go_slice (payload res) 1 (length (payload res));
           values \<leftarrow> decodeBools n data;
           Some (Ok values, m) }) }
      else Some (Err (notNormal (encode_request (mc_unitId mc) ?q) res), m))
    = Some (map_sum (\<lambda>e. e) bits (judge_reply ?q res), m)" for res and m :: "('c, 'p, 't) ModbusClient"
  proof (cases "functionCode res = fc_of ?q")
    case False
    then show ?thesis
      using notNormal_judge [OF False, of "mc_unitId mc" bits]
      by (simp add: encode_request_def)
  next
    case True
    then show ?thesis
      by (cases "payload res") (auto simp: encode_request_def judge_reply_def go_index_def go_slice_def bits_of_decode)
  qed
  show ?thesis
    unfolding readBools_def Let_def enc len
    using ok True
    by (simp only: if_False if_True simp_thms) (rule method_asks, simp, simp only: sum.case judged)
qed

text \<open>Registers are asked for whatever the quantity is: only the last address is checked.\<close>

definition reg_request :: "RegType \<Rightarrow> uint16 \<Rightarrow> uint16 \<Rightarrow> mb_request" where
  "reg_request regType addr n = ReadRegs (regType = INPUT_REGISTER) addr (unat n)"

definition reg_type_ok :: "RegType \<Rightarrow> bool" where
  "reg_type_ok regType \<longleftrightarrow> regType = HOLDING_REGISTER \<or> regType = INPUT_REGISTER"

lemma uint16s_words_of: "length bs = 2 * n \<Longrightarrow> uint16sToBytes BIG_ENDIAN (words_of bs) = bs"
  by (induction bs arbitrary: n rule: words_of.induct) (auto simp: be16_be_word, (case_tac n; simp)+)

lemma readRegisters_asks:
  fixes mc :: "('c, 'p, 't) ModbusClient"
  shows "readRegisters T addr n regType mc =
     (if reg_type_ok regType \<and> \<not> pastEnd addr n
      then on_values (\<lambda>v. uint16sToBytes BIG_ENDIAN (regs v)) (ask_server T (reg_request regType addr n) mc)
      else Some (Err ErrUnexpectedParameters, mc))"
proof (cases "reg_type_ok regType \<and> \<not> pastEnd addr n")
  case False
  then show ?thesis
    by (auto simp: readRegisters_def reg_type_ok_def)
next
  case True
  let ?q = "reg_request regType addr n"
  have enc: "\<lparr>unitId = mc_unitId mc,
      functionCode = (if regType = HOLDING_REGISTER then fcReadHoldingRegisters else fcReadInputRegisters),
      payload = be16 addr @ be16 n\<rparr> = encode_request (mc_unitId mc) ?q"
    using True by (auto simp: encode_request_def reg_request_def reg_type_ok_def)
  have count: "(ucast c :: uint) = 2 * ucast n \<longleftrightarrow> unat c = 2 * unat n" for c :: byte
  proof -
    have "2 * unat n < 2 ^ 64"
      using unsigned_less [where 'a = nat, of n] by simp
    then have "unat (2 * ucast n :: uint) = 2 * unat n"
      by (simp add: unat_word_ariths unat_ucast_up)
    then show ?thesis
      by (simp add: word_unat_eq_iff unat_ucast_up)
  qed
  have judged: "(if functionCode res = functionCode (encode_request (mc_unitId mc) ?q) then
      if length (payload res) \<noteq> 1 + 2 * unat n then Some (Err ErrProtocolError, m)
      else do {
        count \<leftarrow> go_index (payload res) 0;
        (if (ucast count :: uint) \<noteq> 2 * ucast n then Some (Err ErrProtocolError, m)
         else do {
           bytes \<leftarrow> go_slice (payload res) 1 (length (payload res));
           Some (Ok bytes, m) }) }
      else Some (Err (notNormal (encode_request (mc_unitId mc) ?q) res), m))
    = Some (map_sum (\<lambda>e. e) (\<lambda>v. uint16sToBytes BIG_ENDIAN (regs v)) (judge_reply ?q res), m)"
    for res and m :: "('c, 'p, 't) ModbusClient"
  proof (cases "functionCode res = fc_of ?q")
    case False
    then show ?thesis
      using notNormal_judge [OF False, of "mc_unitId mc"]
      by (simp add: encode_request_def)
  next
    case True
    then show ?thesis
      by (cases "payload res")
        (auto simp: encode_request_def judge_reply_def go_index_def go_slice_def reg_request_def count uint16s_words_of)
  qed
  have conds: "(regType \<noteq> HOLDING_REGISTER \<and> regType \<noteq> INPUT_REGISTER) = False" "pastEnd addr n = False"
    "(reg_type_ok regType \<and> \<not> False) = True"
    using True by (auto simp: reg_type_ok_def)
  show ?thesis
    unfolding readRegisters_def Let_def enc conds if_False if_True
    by (rule method_asks, simp, simp only: sum.case judged)
qed

text \<open>The writes: the four bytes of the response, or an exception.\<close>

lemma finishWrite_judge:
  assumes "\<And>a b c d. echo [a, b, c, d] = Some (reply_values q [a, b, c, d] \<noteq> None)"
    and "\<And>pl. length pl \<noteq> 4 \<Longrightarrow> reply_values q pl = None"
  shows "finishWrite (encode_request u q) echo (Inr res) m =
    Some (map_sum (\<lambda>e. e) (\<lambda>_. ()) (judge_reply q res), m)"
proof (cases "functionCode res = fc_of q")
  case False
  then show ?thesis
    using notNormal_judge [OF False, of u] by (simp add: finishWrite_def encode_request_def)
next
  case fc: True
  show ?thesis
  proof (cases "length (payload res) = 4")
    case True
    then obtain a b c d where "payload res = [a, b, c, d]"
      by (rule list4E)
    with fc assms(1) show ?thesis
      by (auto simp: finishWrite_def encode_request_def judge_reply_def split: option.split)
  next
    case False
    with fc assms(2) show ?thesis
      by (simp add: finishWrite_def encode_request_def judge_reply_def)
  qed
qed

lemma write_asks:
  assumes "\<And>a b c d. echo [a, b, c, d] = Some (reply_values q [a, b, c, d] \<noteq> None)"
    and "\<And>pl. length pl \<noteq> 4 \<Longrightarrow> reply_values q pl = None"
  shows "Option.bind (executeRequest T (encode_request (mc_unitId mc) q) mc)
      (\<lambda>(r, mc1). finishWrite (encode_request (mc_unitId mc) q) echo r mc1) =
    on_values (\<lambda>_. ()) (ask_server T q mc)"
  by (rule method_asks) (simp_all add: finishWrite_def [of _ _ "Inl _"] finishWrite_judge [OF assms])

lemma reply_values_length:
  assumes "length pl \<noteq> 4" "\<And>ro addr n. q \<noteq> ReadBits ro addr n \<and> q \<noteq> ReadRegs ro addr n"
  shows "reply_values q pl = None"
  using assms by (cases "(q, pl)" rule: reply_values.cases) auto

lemma WriteCoil_asks:
  "WriteCoil T addr v mc = on_values (\<lambda>_. ()) (ask_server T (SetBit addr v) mc)"
proof -
  have enc: "\<lparr>unitId = mc_unitId mc, functionCode = fcWriteSingleCoil,
      payload = be16 addr @ (if v then [0xff, 0x00] else [0x00, 0x00])\<rparr> = encode_request (mc_unitId mc) (SetBit addr v)"
    by (simp add: encode_request_def)
  show ?thesis
    unfolding WriteCoil_def Let_def enc
    by (rule write_asks) (auto simp: go_index_def reply_values_length)
qed

lemma echo_field [simp]:
  "fieldAt [a, b, c, d] 0 = Some (be_word [a, b])" "fieldAt [a, b, c, d] 2 = Some (be_word [c, d])"
  by simp_all

lemma WriteCoils_asks:
  assumes "length vs < 65536"
  shows "WriteCoils T addr vs mc =
    (if valid_request (SetBits addr vs) then on_values (\<lambda>_. ()) (ask_server T (SetBits addr vs) mc)
     else Some (Err ErrUnexpectedParameters, mc))"
proof -
  let ?n = "of_nat (length vs) :: uint16"
  have n: "unat ?n = length vs"
    using assms by (intro unat_of_nat_eq) simp
  have enc: "\<lparr>unitId = mc_unitId mc, functionCode = fcWriteMultipleCoils,
      payload = be16 addr @ be16 ?n @ [of_nat (length (encodeBools vs))] @ encodeBools vs\<rparr>
    = encode_request (mc_unitId mc) (SetBits addr vs)"
    by (simp add: encode_request_def)
  have "valid_request (SetBits addr vs) \<longleftrightarrow> ?n \<noteq> 0 \<and> \<not> 0x7b0 < ?n \<and> \<not> pastEnd addr ?n"
    using span_check [of 1968 addr ?n] by (simp only: valid_request.simps n)  simp
  moreover have "Option.bind (executeRequest T (encode_request (mc_unitId mc) (SetBits addr vs)) mc)
      (\<lambda>(r, mc1). finishWrite (encode_request (mc_unitId mc) (SetBits addr vs)) (\<lambda>pl. do {
          a \<leftarrow> fieldAt pl 0;
          if a \<noteq> addr then Some False else do { q \<leftarrow> fieldAt pl 2; Some (q = ?n) } }) r mc1)
    = on_values (\<lambda>_. ()) (ask_server T (SetBits addr vs) mc)"
    by (rule write_asks) (auto simp: reply_values_length)
  ultimately show ?thesis
    unfolding WriteCoils_def Let_def enc by auto
qed

text \<open>
  Two words that differ by their byte order on the wire.  \<open>recode e v\<close> is the register a server
  stores when the client writes \<open>v\<close> with byte order \<open>e\<close>.
\<close>

definition recode :: "endianness \<Rightarrow> uint16 \<Rightarrow> uint16" where
  "recode e v = be_word (uint16ToBytes e v)"

lemma be16_recode: "be16 (recode e v) = uint16ToBytes e v"
proof -
  obtain a b where "uint16ToBytes e v = [a, b]"
    by (rule list2E [of "uint16ToBytes e v"]) simp_all
  then show ?thesis by (simp add: recode_def be16_be_word)
qed

lemma recode_eq:
  assumes "valid_endianness e"
  shows "bytesToUint16 e [a, b] = Some v \<longleftrightarrow> be_word [a, b] = recode e v"
proof
  assume "bytesToUint16 e [a, b] = Some v"
  moreover obtain w where w: "[a, b] = uint16ToBytes e w"
    using uint16ToBytes_surj [OF assms, of "[a, b]"] by auto
  ultimately show "be_word [a, b] = recode e v"
    using assms by (simp add: recode_def)
next
  assume "be_word [a, b] = recode e v"
  then have "be16 (be_word [a, b]) = be16 (recode e v)" by simp
  then have "[a, b] = uint16ToBytes e v"
    by (simp only: be16_be_word be16_recode)
  then show "bytesToUint16 e [a, b] = Some v"
    using assms by simp
qed

lemma WriteRegister_asks:
  assumes "valid_endianness (mc_endianness mc)"
  shows "WriteRegister T addr v mc =
    on_values (\<lambda>_. ()) (ask_server T (SetReg addr (recode (mc_endianness mc) v)) mc)"
proof -
  let ?e = "mc_endianness mc"
  let ?q = "SetReg addr (recode ?e v)"
  have enc: "\<lparr>unitId = mc_unitId mc, functionCode = fcWriteSingleRegister,
      payload = be16 addr @ uint16ToBytes ?e v\<rparr> = encode_request (mc_unitId mc) ?q"
    by (simp add: encode_request_def be16_recode)
  have echo: "bytesToUint16 ?e [c, d] = Some v \<longleftrightarrow> be_word [c, d] = recode ?e v"
    "(\<exists>z. bytesToUint16 ?e [c, d] = Some z \<and> z \<noteq> v) \<longleftrightarrow> be_word [c, d] \<noteq> recode ?e v" for c d
  proof -
    obtain w where "bytesToUint16 ?e [c, d] = Some w"
      using assms uint16ToBytes_surj [OF assms, of "[c, d]"] by auto
    then show "(\<exists>z. bytesToUint16 ?e [c, d] = Some z \<and> z \<noteq> v) \<longleftrightarrow> be_word [c, d] \<noteq> recode ?e v"
      using recode_eq [OF assms, of c d v] by auto
  qed (rule recode_eq [OF assms])
  have field: "Option.bind (go_slice [a, b, c, d] 2 4) f = f [c, d]" for a b c d and f :: "byte list \<Rightarrow> bool option"
    by (simp add: go_slice_def)
  have sel: "mc_endianness (mc\<lparr>mc_transport := x\<rparr>) = ?e" for x
    by simp
  show ?thesis
    unfolding WriteRegister_def Let_def enc
    by (rule method_asks, simp add: finishWrite_def, simp only: sel,
        rule finishWrite_judge, simp_all add: field echo reply_values_length)
qed

text \<open>Several registers, given as the bytes of their values.\<close>

lemma writeRegisters_asks:
  assumes "length bs = 2 * n" "n < 32768"
  shows "writeRegisters T addr bs mc =
    (if valid_request (SetRegs addr (words_of bs)) then on_values (\<lambda>_. ()) (ask_server T (SetRegs addr (words_of bs)) mc)
     else Some (Err ErrUnexpectedParameters, mc))"
proof -
  let ?n = "of_nat (length bs) div 2 :: uint16"
  have len: "length (words_of bs) = n"
    using bytesToUint16s_words [OF assms(1)] by simp
  have "unat (of_nat (length bs) :: uint16) = length bs"
    using assms by (intro unat_of_nat_eq) simp
  then have n: "unat ?n = n"
    using assms(1) by (simp add: unat_div)
  then have n': "?n = of_nat n"
    using unat_of_nat_eq [where 'a = 16, of n] assms(2) by (simp add: word_unat_eq_iff)
  let ?q = "SetRegs addr (words_of bs)"
  have enc: "\<lparr>unitId = mc_unitId mc, functionCode = fcWriteMultipleRegisters,
      payload = be16 addr @ be16 ?n @ [ucast (of_nat (length bs) :: uint16)] @ bs\<rparr>
    = encode_request (mc_unitId mc) ?q"
  proof -
    have "(ucast (of_nat (2 * n) :: uint16) :: byte) = of_nat (2 * n)"
      using assms(2) by (simp only: unsigned_of_nat) (simp add: take_bit_nat_eq_self)
    then show ?thesis
      by (simp only: encode_request_def fc_of.simps request_payload.simps len n' [unfolded assms(1)] assms(1) uint16s_words_of [OF assms(1)])
  qed
  have "valid_request ?q \<longleftrightarrow> ?n \<noteq> 0 \<and> \<not> 123 < ?n \<and> \<not> pastEnd addr ?n"
    using span_check [of 123 addr ?n] by (simp only: valid_request.simps n len) simp
  moreover have "Option.bind (executeRequest T (encode_request (mc_unitId mc) ?q) mc)
      (\<lambda>(r, mc1). finishWrite (encode_request (mc_unitId mc) ?q) (\<lambda>pl. do {
          a \<leftarrow> fieldAt pl 0;
          if a \<noteq> addr then Some False else do { q \<leftarrow> fieldAt pl 2; Some (q = ?n) } }) r mc1)
    = on_values (\<lambda>_. ()) (ask_server T ?q mc)"
    by (rule write_asks) (auto simp: reply_values_length n' len)
  ultimately show ?thesis
    unfolding writeRegisters_def Let_def enc by auto
qed

section \<open>Values of several registers\<close>

lemma on_ok_simps [simp]:
  "on_ok None f = None"
  "on_ok (Some (Inl e, mc)) f = Some (Err e, mc)"
  "on_ok (Some (Inr v, mc)) f = map_option (\<lambda>u. (Ok u, mc)) (f v)"
  by (simp_all add: on_ok_def)

text \<open>
  A read delivers the registers it asked for, so decoding them never panics: the number of bytes
  is a multiple of the width, even where the quantity wraps around.
\<close>

lemma judge_Regs:
  assumes "judge u (ReadRegs ro addr n) r = Ok v"
  shows "\<exists>rs. v = Regs rs \<and> length rs = n"
proof -
  obtain pl where "reply_values (ReadRegs ro addr n) pl = Some v"
    using assms by (auto simp: judge_def judge_reply_def split: sum.splits if_splits option.splits list.splits)
  then show ?thesis
    using bytesToUint16s_words [of "tl pl" n] by (cases pl) (auto split: if_splits)
qed

lemma readRegisters_length:
  assumes "readRegisters T addr n regType mc = Some (Ok bytes, mc1)"
  shows "length bytes = 2 * unat n"
  using assms
  by (auto simp: readRegisters_asks ask_server_def reg_request_def split: if_splits bind_splits dest!: judge_Regs)
    (auto simp: map_sum_def split: sum.splits dest!: judge_Regs)

context register_codec begin

lemma on_ok_decs:
  assumes ok "\<And>bytes mc. x = Some (Inr bytes, mc) \<Longrightarrow> length bytes = w * n"
  shows "on_values (\<lambda>vs. concat (map enc vs)) (on_ok x decs) = x"
    and "on_ok x decs = Some (Inr vs, mc) \<Longrightarrow> length vs = n"
proof -
  have 1: "on_ok (Some (Ok bytes, m)) decs = Some (Ok us, m)
      \<and> on_values (\<lambda>vs. concat (map enc vs)) (Some (Ok us, m)) = Some (Ok bytes, m) \<and> length us = n"
    if "x = Some (Ok bytes, m)" "decs bytes = Some us" for bytes m us
    using that decs_iff [OF assms(1), of bytes us] decs_length [OF assms(1), of bytes us] assms(2) width
    by auto
  have 2: "\<exists>us. decs bytes = Some us" if "x = Some (Ok bytes, m)" for bytes m
    using decs_total [OF assms(1)] assms(2) that by blast
  consider "x = None" | e m where "x = Some (Inl e, m)" | bytes m where "x = Some (Inr bytes, m)"
    by (metis old.sum.exhaust option.exhaust surj_pair)
  then have "on_values (\<lambda>vs. concat (map enc vs)) (on_ok x decs) = x
    \<and> (on_ok x decs = Some (Inr vs, mc) \<longrightarrow> length vs = n)"
    by cases (use 1 2 in fastforce)+
  then show "on_values (\<lambda>vs. concat (map enc vs)) (on_ok x decs) = x"
    and "on_ok x decs = Some (Inr vs, mc) \<Longrightarrow> length vs = n"
    by auto
qed

end

lemma double_mod: "unat (n * 2 :: uint16) = 2 * (unat n mod 32768)"
  by (simp add: unat_word_ariths mult.commute mult_mod_right)

lemma quadruple_mod: "unat (n * 4 :: uint16) = 4 * (unat n mod 16384)"
  by (simp add: unat_word_ariths mult.commute mult_mod_right)


lemmas typed_lengths = readRegisters_length [of _ _ "_ * 2"] readRegisters_length [of _ _ "_ * 4"] double_mod quadruple_mod

lemma typed_reads:
  assumes "valid_encoding (mc_endianness mc) (mc_wordOrder mc)"
  defines "e \<equiv> mc_endianness mc" and "wo \<equiv> mc_wordOrder mc"
  shows "on_values (\<lambda>vs. concat (map (uint16ToBytes e) vs)) (ReadRegisters T addr n regType mc) = readRegisters T addr n regType mc"
    and "on_values (\<lambda>vs. concat (map (uint32ToBytes e wo) vs)) (ReadUint32s T addr n regType mc) = readRegisters T addr (n * 2) regType mc"
    and "on_values (\<lambda>vs. concat (map (float32ToBytes e wo) vs)) (ReadFloat32s T addr n regType mc) = readRegisters T addr (n * 2) regType mc"
    and "on_values (\<lambda>vs. concat (map (uint64ToBytes e wo) vs)) (ReadUint64s T addr n regType mc) = readRegisters T addr (n * 4) regType mc"
    and "on_values (\<lambda>vs. concat (map (float64ToBytes e wo) vs)) (ReadFloat64s T addr n regType mc) = readRegisters T addr (n * 4) regType mc"
  using assms(1)
  by (auto simp: ReadRegisters_def ReadUint32s_def ReadFloat32s_def ReadUint64s_def ReadFloat64s_def e_def wo_def
      valid_encoding_endianness typed_lengths
      intro!: u16.on_ok_decs(1) [where n = "unat n"] u32.on_ok_decs(1) [where n = "unat n mod 32768"]
        f32.on_ok_decs(1) [where n = "unat n mod 32768"] u64.on_ok_decs(1) [where n = "unat n mod 16384"]
        f64.on_ok_decs(1) [where n = "unat n mod 16384"] dest!: readRegisters_length)

lemma typed_read_lengths:
  assumes "valid_encoding (mc_endianness mc) (mc_wordOrder mc)"
  shows "ReadRegisters T addr n regType mc = Some (Ok us, mc1) \<Longrightarrow> length us = unat n"
    and "ReadUint32s T addr n regType mc = Some (Ok vs, mc1) \<Longrightarrow> length vs = unat n mod 32768"
    and "ReadFloat32s T addr n regType mc = Some (Ok fs, mc1) \<Longrightarrow> length fs = unat n mod 32768"
    and "ReadUint64s T addr n regType mc = Some (Ok ws, mc1) \<Longrightarrow> length ws = unat n mod 16384"
    and "ReadFloat64s T addr n regType mc = Some (Ok gs, mc1) \<Longrightarrow> length gs = unat n mod 16384"
  unfolding ReadRegisters_def ReadUint32s_def ReadFloat32s_def ReadUint64s_def ReadFloat64s_def
  using assms
  by (auto simp: valid_encoding_endianness double_mod quadruple_mod
      elim!: u16.on_ok_decs(2) [rotated -1] u32.on_ok_decs(2) [rotated -1] f32.on_ok_decs(2) [rotated -1]
        u64.on_ok_decs(2) [rotated -1] f64.on_ok_decs(2) [rotated -1] dest!: readRegisters_length)

lemma recode_BIG: "recode BIG_ENDIAN v = v"
  by (simp add: recode_def uint16ToBytes_def be_word_be_bytes_id)

lemma uint16ToBytes_LITTLE: "uint16ToBytes LITTLE_ENDIAN v = rev (be16 v)"
  by (simp add: uint16ToBytes_def be_bytes_def)

lemma recode_recode:
  assumes "valid_endianness e"
  shows "recode e (recode e v) = v"
proof (cases "e = BIG_ENDIAN")
  case True
  then show ?thesis by (simp add: recode_BIG)
next
  case False
  then have e: "e = LITTLE_ENDIAN"
    using assms by (simp add: valid_endianness_def)
  have "be16 (recode e (recode e v)) = be16 v"
    unfolding be16_recode unfolding e uint16ToBytes_LITTLE be16_recode by simp
  then have "(be_word (be16 (recode e (recode e v))) :: uint16) = be_word (be16 v)" by simp
  then show ?thesis
    by (simp add: uint16ToBytes_def be_word_be_bytes_id)
qed

lemma uint16ToBytes_recode: "valid_endianness e \<Longrightarrow> uint16ToBytes e (recode e v) = be16 v"
  by (metis be16_recode recode_recode)

text \<open>The registers that hold the bytes of a list of values.\<close>

lemma words_of_append:
  assumes "even (length bs)"
  shows "words_of (bs @ cs) = words_of bs @ words_of cs"
  using assms by (induction bs rule: words_of.induct) auto

lemma words_of_16: "words_of (concat (map (uint16ToBytes e) vs)) = map (recode e) vs"
proof (induction vs)
  case (Cons v vs)
  obtain a b where "uint16ToBytes e v = [a, b]"
    by (rule list2E [of "uint16ToBytes e v"]) simp_all
  with Cons show ?case by (simp add: recode_def)
qed simp

lemma bytesToUint16s_recode:
  assumes "valid_endianness e"
  shows "bytesToUint16s e (uint16sToBytes BIG_ENDIAN rs) = Some (map (recode e) rs)"
proof -
  have "concat (map (uint16ToBytes e) (map (recode e) rs)) = uint16sToBytes BIG_ENDIAN rs"
    using assms by (induction rs) (simp_all add: uint16ToBytes_recode)
  then show ?thesis
    using u16.decs_iff [OF assms] by blast
qed

lemma on_ok_on_values:
  assumes "\<And>v. g (f v) = Some (h v)"
  shows "on_ok (on_values f x) g = on_values h x"
proof -
  consider "x = None" | e m where "x = Some (Inl e, m)" | v m where "x = Some (Inr v, m)"
    by (metis old.sum.exhaust option.exhaust surj_pair)
  then show ?thesis
    using assms by cases simp_all
qed

lemma ReadRegisters_asks:
  assumes "valid_endianness (mc_endianness mc)"
  shows "ReadRegisters T addr n regType mc =
     (if reg_type_ok regType \<and> \<not> pastEnd addr n
      then on_values (\<lambda>v. map (recode (mc_endianness mc)) (regs v)) (ask_server T (reg_request regType addr n) mc)
      else Some (Err ErrUnexpectedParameters, mc))"
proof -
  show ?thesis
    by (simp add: ReadRegisters_def readRegisters_asks on_ok_on_values bytesToUint16s_recode [OF assms])
qed

text \<open>The writes, by the registers they set.\<close>

lemma WriteRegisters_asks:
  assumes "length vs < 32768"
  shows "WriteRegisters T addr vs mc =
    (let q = SetRegs addr (map (recode (mc_endianness mc)) vs) in
     if valid_request q then on_values (\<lambda>_. ()) (ask_server T q mc) else Some (Err ErrUnexpectedParameters, mc))"
  using writeRegisters_asks [of "concat (map (uint16ToBytes (mc_endianness mc)) vs)" "length vs" T addr mc] assms
  by (simp add: WriteRegisters_def words_of_16 length_concat comp_def sum_list_triv Let_def)

text \<open>What writing the bytes \<open>bs\<close> means: the request that sets the registers they make up.\<close>

definition write_bytes :: "'t transport \<Rightarrow> uint16 \<Rightarrow> byte list \<Rightarrow> ('c, 'p, 't) ModbusClient \<Rightarrow> ('c, 'p, 't, unit) call" where
  "write_bytes T addr bs mc =
     (let q = SetRegs addr (words_of bs) in
      if valid_request q then on_values (\<lambda>_. ()) (ask_server T q mc) else Some (Err ErrUnexpectedParameters, mc))"

lemma writeRegisters_bytes:
  "length bs = 2 * n \<Longrightarrow> n < 32768 \<Longrightarrow> writeRegisters T addr bs mc = write_bytes T addr bs mc"
  by (simp only: writeRegisters_asks write_bytes_def Let_def)

lemma typed_writes:
  fixes mc :: "('c, 'p, 't) ModbusClient"
  defines "e \<equiv> mc_endianness mc" and "wo \<equiv> mc_wordOrder mc"
  shows "length us < 32768 \<Longrightarrow> WriteRegisters T addr us mc = write_bytes T addr (concat (map (uint16ToBytes e) us)) mc"
    and "length vs < 16384 \<Longrightarrow> WriteUint32s T addr vs mc = write_bytes T addr (concat (map (uint32ToBytes e wo) vs)) mc"
    and "length fs < 16384 \<Longrightarrow> WriteFloat32s T addr fs mc = write_bytes T addr (concat (map (float32ToBytes e wo) fs)) mc"
    and "length ws < 8192 \<Longrightarrow> WriteUint64s T addr ws mc = write_bytes T addr (concat (map (uint64ToBytes e wo) ws)) mc"
    and "length gs < 8192 \<Longrightarrow> WriteFloat64s T addr gs mc = write_bytes T addr (concat (map (float64ToBytes e wo) gs)) mc"
  unfolding WriteRegisters_def WriteUint32s_def WriteFloat32s_def WriteUint64s_def WriteFloat64s_def e_def wo_def
  by (rule writeRegisters_bytes [where n = "length us"]
      writeRegisters_bytes [where n = "2 * length vs"] writeRegisters_bytes [where n = "2 * length fs"]
      writeRegisters_bytes [where n = "4 * length ws"] writeRegisters_bytes [where n = "4 * length gs"];
      simp add: u16.length_concat_enc u32.length_concat_enc f32.length_concat_enc u64.length_concat_enc f64.length_concat_enc)+

text \<open>A single value is a list of one.\<close>

lemma single_writes:
  "WriteUint32 T addr v mc = WriteUint32s T addr [v] mc"
  "WriteFloat32 T addr f mc = WriteFloat32s T addr [f] mc"
  "WriteUint64 T addr w mc = WriteUint64s T addr [w] mc"
  "WriteFloat64 T addr g mc = WriteFloat64s T addr [g] mc"
  by (simp_all add: WriteUint32_def WriteUint32s_def WriteFloat32_def WriteFloat32s_def
      WriteUint64_def WriteUint64s_def WriteFloat64_def WriteFloat64s_def)

section \<open>Bytes of registers\<close>

lemma swapPairs_even: "length bs = 2 * n \<Longrightarrow> swapPairs bs = Some (uint16sToBytes LITTLE_ENDIAN (words_of bs))"
proof (induction bs arbitrary: n rule: swapPairs.induct)
  case (3 b c bs)
  moreover have "uint16ToBytes LITTLE_ENDIAN (be_word [b, c]) = [c, b]"
    by (simp add: uint16ToBytes_LITTLE be16_be_word)
  ultimately show ?case by (cases n) simp_all
qed simp_all

lemma swapPairs_Some: "even (length bs) \<Longrightarrow> \<exists>cs. swapPairs bs = Some cs \<and> length cs = length bs \<and> swapPairs cs = Some bs"
  by (induction bs rule: swapPairs.induct) auto

lemma take_even_pad: "length vs = 2 * ((n + 1) div 2) \<Longrightarrow> odd n \<Longrightarrow> take (length vs - 1) vs = take n vs"
  by (cases "n = 0") auto

lemma regCount: "unat (n div 2 + n mod 2 :: uint16) = (unat n + 1) div 2"
proof -
  have "unat n div 2 + unat n mod 2 < 65536"
    using unsigned_less [where 'a = nat, of n] by simp
  moreover have "unat n div 2 + unat n mod 2 = (unat n + 1) div 2"
    by (cases "even (unat n)") (auto elim: evenE oddE)
  ultimately show ?thesis
    by (simp add: unat_word_ariths unat_div unat_mod)
qed

lemma readBytes_take:
  "readBytes T addr n regType observeEndianness mc =
     on_values (\<lambda>vs. take (unat n)
         (if observeEndianness \<and> mc_endianness mc = LITTLE_ENDIAN
          then uint16sToBytes LITTLE_ENDIAN (words_of vs) else vs))
       (readRegisters T addr (n div 2 + n mod 2) regType mc)"
proof -
  let ?x = "readRegisters T addr (n div 2 + n mod 2) regType mc"
  consider "?x = None" | e m where "?x = Some (Inl e, m)" | v m where "?x = Some (Inr v, m)"
    by (metis old.sum.exhaust option.exhaust surj_pair)
  then show ?thesis
  proof cases
    case (3 v m)
    then have len: "length v = 2 * ((unat n + 1) div 2)"
      using readRegisters_length [OF 3] regCount [of n] by simp
    have odd: "n mod 2 = 1 \<longleftrightarrow> odd (unat n)"
      by (simp add: word_unat_eq_iff unat_mod odd_iff_mod_2_eq_one)
    have swapped: "length (uint16sToBytes LITTLE_ENDIAN (words_of v)) = length v"
      using bytesToUint16s_words [OF len] len by simp
    have fin: "(if n mod 2 = 1 then if vs = [] then None else go_slice vs 0 (length vs - 1) else Some vs)
        = Some (take (unat n) vs)" if vs: "length vs = length v" for vs :: "byte list"
    proof (cases "odd (unat n)")
      case True
      then have "vs \<noteq> []"
        using vs len by (auto elim: oddE)
      with True show ?thesis
        using take_even_pad [of vs "unat n"] vs len by (simp add: odd go_slice_def)
    next
      case False
      then have "length vs = unat n"
        using vs len by auto
      with False show ?thesis by (simp add: odd)
    qed
    note ends = fin [OF refl] fin [OF swapped]
    show ?thesis
    proof (cases "observeEndianness \<and> mc_endianness mc = LITTLE_ENDIAN")
      case True
      show ?thesis
        unfolding readBytes_def Let_def 3 on_ok_simps if_P [OF True] swapPairs_even [OF len] Option.bind.simps ends
        by simp
    next
      case False
      show ?thesis
        unfolding readBytes_def Let_def 3 on_ok_simps if_not_P [OF False] Option.bind.simps ends
        by simp
    qed
  qed (simp_all add: readBytes_def)
qed

text \<open>The array of a caller after the bytes \<open>sent\<close> were made of its slice, in place if they fit.\<close>

definition array_after :: "byte_slice \<Rightarrow> byte list \<Rightarrow> byte list" where
  "array_after sl sent = (if length sent \<le> length (sl_array sl) then sent @ drop (length sent) (sl_array sl) else sl_array sl)"

lemma writeBytes_swap:
  fixes mc :: "('c, 'p, 't) ModbusClient" and observeEndianness :: bool
  assumes "length (sl_bytes sl) < 65535"
  defines "padded \<equiv> if odd (length (sl_bytes sl)) then sl_bytes sl @ [0] else sl_bytes sl"
  defines "sent \<equiv> if observeEndianness \<and> mc_endianness mc = LITTLE_ENDIAN
    then uint16sToBytes LITTLE_ENDIAN (words_of padded) else padded"
  shows "writeBytes T addr sl observeEndianness mc =
    map_option (\<lambda>(r, mc1). ((r, array_after sl sent), mc1)) (write_bytes T addr sent mc)"
proof -
  define n where "n = (length (sl_bytes sl) + 1) div 2"
  have pad: "(if length (sl_bytes sl) mod 2 = 1 then sl_bytes sl @ [0x00] else sl_bytes sl) = padded"
    by (simp add: padded_def odd_iff_mod_2_eq_one)
  have len: "length padded = 2 * n" "n < 32768"
    using assms(1) unfolding padded_def n_def by (auto elim!: evenE oddE)
  have swap: "(if observeEndianness \<and> mc_endianness mc = LITTLE_ENDIAN then swapPairs padded else Some padded) = Some sent"
    by (simp add: sent_def swapPairs_even [OF len(1)])
  have sent: "length sent = 2 * n"
    using bytesToUint16s_words [OF len(1)] by (simp add: sent_def len)
  then have "writeRegisters T addr sent mc = write_bytes T addr sent mc"
    using len(2) by (rule writeRegisters_bytes)
  with sent len(1) show ?thesis
    unfolding writeBytes_def pad Let_def swap array_after_def
    by (cases "write_bytes T addr sent mc") auto
qed

section \<open>Properties of the client\<close>

text \<open>A transport that records the requests and always brings back the same response.\<close>

definition canned :: "pdu result \<Rightarrow> pdu list transport" where
  "canned r = \<lparr>t_Close = (\<lambda>t. (Ok (), t)), t_ExecuteRequest = (\<lambda>req t. Some (r, t @ [req])),
     t_ReadRequest = (\<lambda>t. None), t_WriteResponse = (\<lambda>res t. (Ok (), t))\<rparr>"

definition demo_client :: "endianness \<Rightarrow> (unit, unit, pdu list) ModbusClient" where
  "demo_client e = \<lparr>mc_conf = \<lparr>cc_URL = ''plc:502'', cc_Speed = 0, cc_DataBits = 0, cc_Parity = 0,
       cc_StopBits = 0, cc_Timeout = 1000000000, cc_TLSClientCert = None, cc_TLSRootCAs = None\<rparr>,
     mc_endianness = e, mc_wordOrder = HIGH_WORD_FIRST, mc_transport = Some [], mc_unitId = 7,
     mc_transportType = modbusTCP\<rparr>"

lemma demo_client_simps [simp]:
  "mc_endianness (demo_client e) = e" "mc_wordOrder (demo_client e) = HIGH_WORD_FIRST"
  "mc_unitId (demo_client e) = 7" "mc_transport (demo_client e) = Some []"
  by (simp_all add: demo_client_def)

lemma ask_canned [simp]:
  "mc_transport mc = Some t \<Longrightarrow> ask_server (canned r) q mc =
     Some (judge (mc_unitId mc) q r, mc\<lparr>mc_transport := Some (t @ [encode_request (mc_unitId mc) q])\<rparr>)"
  by (simp add: ask_server_def canned_def)

lemmas client_eval = judge_def judge_reply_def encode_request_def os_IsTimeout_def bits_of_def
  uint16ToBytes_def byte_order_eval mapExceptionCodeToError_def

text \<open>
  C22: the coil methods implement the abstract requests.  A read of coils or discrete inputs and
  a write of coils are rejected without a request when the quantity or the last address is out of
  bounds, and are otherwise exactly one request of the specification, judged by it; the write of
  one coil always is.  Lists of 65536 coils and more are excluded.
\<close>

theorem client_coil_methods:
  assumes "length vs < 65536"
  shows "ReadCoils T addr n mc =
      (let q = ReadBits False addr (unat n) in
       if valid_request q then on_values bits (ask_server T q mc) else Some (Err ErrUnexpectedParameters, mc))
    \<and> ReadDiscreteInputs T addr n mc =
      (let q = ReadBits True addr (unat n) in
       if valid_request q then on_values bits (ask_server T q mc) else Some (Err ErrUnexpectedParameters, mc))
    \<and> WriteCoil T addr v mc = on_values (\<lambda>_. ()) (ask_server T (SetBit addr v) mc)
    \<and> WriteCoils T addr vs mc =
      (let q = SetBits addr vs in
       if valid_request q then on_values (\<lambda>_. ()) (ask_server T q mc)
       else Some (Err ErrUnexpectedParameters, mc))"
  by (simp only: ReadCoils_def ReadDiscreteInputs_def readBools_asks WriteCoil_asks WriteCoils_asks [OF assms] Let_def simp_thms)

theorem client_coil_methods_witness:
  "length [True, False, True] < 65536
   \<and> map_option fst (WriteCoils (canned (Ok \<lparr>unitId = 7, functionCode = 15, payload = [0, 16, 0, 3]\<rparr>)) 16
       [True, False, True] (demo_client BIG_ENDIAN)) = Some (Ok ())
   \<and> map_option fst (ReadCoils (canned (Ok \<lparr>unitId = 7, functionCode = 1, payload = [1, 5]\<rparr>)) 16 3
       (demo_client BIG_ENDIAN)) = Some (Ok [True, False, True])"
proof -
  let ?w = "canned (Ok \<lparr>unitId = 7, functionCode = 15, payload = [0, 16, 0, 3]\<rparr>)"
  let ?r = "canned (Ok \<lparr>unitId = 7, functionCode = 1, payload = [1, 5]\<rparr>)"
  have "WriteCoils ?w 16 [True, False, True] (demo_client BIG_ENDIAN) =
      on_values (\<lambda>_. ()) (ask_server ?w (SetBits 16 [True, False, True]) (demo_client BIG_ENDIAN))"
    using client_coil_methods [of "[True, False, True]" ?w 16 0 "demo_client BIG_ENDIAN" False] by (simp add: Let_def)
  moreover have "ReadCoils ?r 16 3 (demo_client BIG_ENDIAN) =
      on_values bits (ask_server ?r (ReadBits False 16 3) (demo_client BIG_ENDIAN))"
    using client_coil_methods [of "[]" ?r 16 3 "demo_client BIG_ENDIAN" False] by (simp add: Let_def)
  ultimately show ?thesis
    by (simp add: client_eval boolByteCount_def upt_rec bit_numeral_rec(1))
qed


text \<open>
  C23: the 16-bit register methods implement the abstract requests.  With a named byte order, a
  read asks for the registers whenever the register type is known and the last address is in
  range, and returns the response's registers in that byte order; the writes set exactly the
  registers that hold the values in that byte order, several of them only within the limits of
  the protocol.  Lists of 32768 values and more are excluded.
\<close>

theorem client_register_methods:
  assumes "valid_endianness (mc_endianness mc)" and "length vs < 32768"
  shows "ReadRegisters T addr n regType mc =
      (if reg_type_ok regType \<and> \<not> pastEnd addr n
       then on_values (\<lambda>v. map (recode (mc_endianness mc)) (regs v))
              (ask_server T (ReadRegs (regType = INPUT_REGISTER) addr (unat n)) mc)
       else Some (Err ErrUnexpectedParameters, mc))
    \<and> WriteRegister T addr v mc =
      on_values (\<lambda>_. ()) (ask_server T (SetReg addr (recode (mc_endianness mc) v)) mc)
    \<and> WriteRegisters T addr vs mc =
      (let q = SetRegs addr (map (recode (mc_endianness mc)) vs) in
       if valid_request q then on_values (\<lambda>_. ()) (ask_server T q mc)
       else Some (Err ErrUnexpectedParameters, mc))"
  using ReadRegisters_asks [OF assms(1)] WriteRegister_asks [OF assms(1)] WriteRegisters_asks [OF assms(2)]
  by (simp only: reg_request_def simp_thms)

theorem client_register_methods_witness:
  "valid_endianness LITTLE_ENDIAN
   \<and> map_option fst (ReadRegisters (canned (Ok \<lparr>unitId = 7, functionCode = 4, payload = [2, 0x12, 0x34]\<rparr>)) 16 1
       INPUT_REGISTER (demo_client LITTLE_ENDIAN)) = Some (Ok [0x3412])
   \<and> map_option fst (WriteRegister (canned (Ok \<lparr>unitId = 255, functionCode = 0x86, payload = [6]\<rparr>)) 16 5
       (demo_client LITTLE_ENDIAN)) = Some (Err ErrServerDeviceBusy)"
proof -
  let ?w = "canned (Ok \<lparr>unitId = 255, functionCode = 0x86, payload = [6]\<rparr>)"
  let ?r = "canned (Ok \<lparr>unitId = 7, functionCode = 4, payload = [2, 0x12, 0x34]\<rparr>)"
  have v: "valid_endianness (mc_endianness (demo_client LITTLE_ENDIAN))"
    by (simp add: valid_endianness_def)
  have past: "\<not> pastEnd 16 1"
    by (simp add: pastEnd_def)
  have "WriteRegister ?w 16 5 (demo_client LITTLE_ENDIAN) =
      on_values (\<lambda>_. ()) (ask_server ?w (SetReg 16 (recode LITTLE_ENDIAN 5)) (demo_client LITTLE_ENDIAN))"
    using client_register_methods [OF v, of "[]" ?w 16 0 0 5] by simp
  moreover have "ReadRegisters ?r 16 1 INPUT_REGISTER (demo_client LITTLE_ENDIAN) =
      on_values (\<lambda>v. map (recode LITTLE_ENDIAN) (regs v))
        (ask_server ?r (ReadRegs True 16 1) (demo_client LITTLE_ENDIAN))"
    using client_register_methods [OF v, of "[]" ?r 16 1 1 5] past by (simp add: reg_type_ok_def)
  ultimately show ?thesis
    using v by (simp add: client_eval recode_def bit_numeral_rec(1))
qed

lemma on_values_OkD: "on_values f x = Some (Ok y, m) \<Longrightarrow> \<exists>v. x = Some (Ok v, m) \<and> f v = y"
proof -
  assume A: "on_values f x = Some (Ok y, m)"
  consider "x = None" | e m where "x = Some (Inl e, m)" | v m where "x = Some (Inr v, m)"
    by (metis old.sum.exhaust option.exhaust surj_pair)
  then show ?thesis
    using A by cases simp_all
qed

text \<open>
  C24: wider values are read and written as the registers that hold their bytes.  With a named
  encoding, re-encoding what a typed read returns gives back exactly the bytes of the raw read of
  as many registers, errors included, so a typed read fails when that read does, never panics on
  its own and loses nothing; and a typed write of a list that does not reach the 16-bit length
  limit sets exactly the registers made of the encoded bytes.
\<close>

theorem client_typed_values:
  fixes mc :: "('c, 'p, 't) ModbusClient"
  assumes "valid_encoding (mc_endianness mc) (mc_wordOrder mc)"
    and "length vs < 16384" "length fs < 16384" "length ws < 8192" "length gs < 8192"
  shows "on_values (\<lambda>vs. concat (map (uint32ToBytes (mc_endianness mc) (mc_wordOrder mc)) vs))
        (ReadUint32s T addr n regType mc) = readRegisters T addr (n * 2) regType mc
    \<and> on_values (\<lambda>vs. concat (map (float32ToBytes (mc_endianness mc) (mc_wordOrder mc)) vs))
        (ReadFloat32s T addr n regType mc) = readRegisters T addr (n * 2) regType mc
    \<and> on_values (\<lambda>vs. concat (map (uint64ToBytes (mc_endianness mc) (mc_wordOrder mc)) vs))
        (ReadUint64s T addr n regType mc) = readRegisters T addr (n * 4) regType mc
    \<and> on_values (\<lambda>vs. concat (map (float64ToBytes (mc_endianness mc) (mc_wordOrder mc)) vs))
        (ReadFloat64s T addr n regType mc) = readRegisters T addr (n * 4) regType mc
    \<and> WriteUint32s T addr vs mc =
        write_bytes T addr (concat (map (uint32ToBytes (mc_endianness mc) (mc_wordOrder mc)) vs)) mc
    \<and> WriteFloat32s T addr fs mc =
        write_bytes T addr (concat (map (float32ToBytes (mc_endianness mc) (mc_wordOrder mc)) fs)) mc
    \<and> WriteUint64s T addr ws mc =
        write_bytes T addr (concat (map (uint64ToBytes (mc_endianness mc) (mc_wordOrder mc)) ws)) mc
    \<and> WriteFloat64s T addr gs mc =
        write_bytes T addr (concat (map (float64ToBytes (mc_endianness mc) (mc_wordOrder mc)) gs)) mc"
  using typed_reads [OF assms(1)] typed_writes(2) [OF assms(2)] typed_writes(3) [OF assms(3)]
    typed_writes(4) [OF assms(4)] typed_writes(5) [OF assms(5)]
  by (intro conjI) assumption+

theorem client_typed_values_witness:
  "map_option fst (ReadUint32s (canned (Ok \<lparr>unitId = 7, functionCode = 3, payload = [4, 0x12, 0x34, 0x56, 0x78]\<rparr>))
       16 1 HOLDING_REGISTER (demo_client BIG_ENDIAN)) = Some (Ok [0x12345678])"
proof -
  let ?r = "canned (Ok \<lparr>unitId = 7, functionCode = 3, payload = [4, 0x12, 0x34, 0x56, 0x78]\<rparr>)"
  let ?mc = "demo_client BIG_ENDIAN"
  have v: "valid_encoding (mc_endianness ?mc) (mc_wordOrder ?mc)"
    by (simp add: valid_encoding_def valid_endianness_def valid_word_order_def)
  have past: "\<not> pastEnd 16 2"
    by (simp add: pastEnd_def)
  have "map_option fst (readRegisters ?r 16 (1 * 2) HOLDING_REGISTER ?mc) = Some (Ok [0x12, 0x34, 0x56, 0x78])"
    using past by (simp add: readRegisters_asks reg_type_ok_def reg_request_def client_eval)
  then obtain m where m: "readRegisters ?r 16 (1 * 2) HOLDING_REGISTER ?mc = Some (Ok [0x12, 0x34, 0x56, 0x78], m)"
    by fastforce
  have same: "on_values (\<lambda>vs. concat (map (uint32ToBytes BIG_ENDIAN HIGH_WORD_FIRST) vs))
      (ReadUint32s ?r 16 1 HOLDING_REGISTER ?mc) = readRegisters ?r 16 (1 * 2) HOLDING_REGISTER ?mc"
    using client_typed_values [OF v, of "[]" "[]" "[]" "[]" ?r 16 1 HOLDING_REGISTER]
    by (simp only: demo_client_simps list.size)
  obtain vs where r: "ReadUint32s ?r 16 1 HOLDING_REGISTER ?mc = Some (Ok vs, m)"
    "concat (map (uint32ToBytes BIG_ENDIAN HIGH_WORD_FIRST) vs) = [0x12, 0x34, 0x56, 0x78]"
    using on_values_OkD [OF trans [OF same m]] by blast
  have "bytesToUint32s BIG_ENDIAN HIGH_WORD_FIRST [0x12, 0x34, 0x56, 0x78] = Some vs"
    using u32.decs_iff [of BIG_ENDIAN HIGH_WORD_FIRST "[0x12, 0x34, 0x56, 0x78]" vs] v r(2)
    by (simp only: demo_client_simps)
  with r show ?thesis
    by (auto simp: bytesToUint32_def byte_order_eval)
qed

text \<open>
  C25: the byte methods move bytes as they are, or swapped by register.  A read of \<open>n\<close> bytes
  reads half as many registers, rounded up, and returns their first \<open>n\<close> bytes, in little endian
  mode with the bytes of each register swapped; a write pads to full registers, swaps likewise and
  sets those registers.  The padding and the swapping are done in the array of the caller, which keeps them,
  except that an odd number of bytes in an array without room for one more is copied and stays as it was.
\<close>

theorem client_byte_methods:
  fixes mc :: "('c, 'p, 't) ModbusClient"
  assumes "length (sl_bytes sl) < 65535"
  defines "padded \<equiv> if odd (length (sl_bytes sl)) then sl_bytes sl @ [0] else sl_bytes sl"
    and "swap \<equiv> \<lambda>vs. if mc_endianness mc = LITTLE_ENDIAN then uint16sToBytes LITTLE_ENDIAN (words_of vs) else vs"
    and "after \<equiv> \<lambda>sent. if length sent \<le> length (sl_array sl) then sent @ drop (length sent) (sl_array sl) else sl_array sl"
  shows "ReadRawBytes T addr n regType mc =
        on_values (take (unat n)) (readRegisters T addr (n div 2 + n mod 2) regType mc)
    \<and> ReadBytes T addr n regType mc =
        on_values (\<lambda>vs. take (unat n) (swap vs)) (readRegisters T addr (n div 2 + n mod 2) regType mc)
    \<and> WriteRawBytes T addr sl mc = map_option (\<lambda>(r, mc1). ((r, after padded), mc1)) (write_bytes T addr padded mc)
    \<and> WriteBytes T addr sl mc =
        map_option (\<lambda>(r, mc1). ((r, after (swap padded)), mc1)) (write_bytes T addr (swap padded) mc)"
  unfolding ReadRawBytes_def ReadBytes_def WriteRawBytes_def WriteBytes_def readBytes_take
    writeBytes_swap [OF assms(1)] padded_def swap_def after_def array_after_def
  by auto

theorem client_byte_methods_witness:
  "map_option fst (WriteBytes (canned (Ok \<lparr>unitId = 7, functionCode = 16, payload = [0, 16, 0, 2]\<rparr>)) 16
     \<lparr>sl_array = [0xaa, 0xbb, 0xcc, 0xdd, 0xee], sl_len = 3\<rparr> (demo_client LITTLE_ENDIAN)) = Some (Ok (), [0xbb, 0xaa, 0, 0xcc, 0xee])"
  using client_byte_methods [of "\<lparr>sl_array = [0xaa, 0xbb, 0xcc, 0xdd, 0xee], sl_len = 3\<rparr>"
      "canned (Ok \<lparr>unitId = 7, functionCode = 16, payload = [0, 16, 0, 2]\<rparr>)" 16 2 HOLDING_REGISTER "demo_client LITTLE_ENDIAN"]
  by (simp add: sl_bytes_def numeral_3_eq_3 write_bytes_def Let_def client_eval)

text \<open>
  C26: quantities and lengths are truncated to 16 bits before they are checked.  A typed read that
  succeeds returns the quantity asked for modulo 32768 (32-bit values) or 16384 (64-bit values),
  not the quantity itself.
\<close>

theorem typed_read_quantity_wraps:
  assumes "valid_encoding (mc_endianness mc) (mc_wordOrder mc)"
  shows "(ReadUint32s T addr n regType mc = Some (Ok vs, mc1) \<longrightarrow> length vs = unat n mod 32768)
    \<and> (ReadFloat32s T addr n regType mc = Some (Ok fs, mc1) \<longrightarrow> length fs = unat n mod 32768)
    \<and> (ReadUint64s T addr n regType mc = Some (Ok ws, mc1) \<longrightarrow> length ws = unat n mod 16384)
    \<and> (ReadFloat64s T addr n regType mc = Some (Ok gs, mc1) \<longrightarrow> length gs = unat n mod 16384)"
  by (intro conjI impI) (erule typed_read_lengths [OF assms])+

theorem typed_read_quantity_wraps_witness:
  "\<exists>v mc1. ReadUint32s (canned (Ok \<lparr>unitId = 7, functionCode = 3, payload = [4, 0x12, 0x34, 0x56, 0x78]\<rparr>))
       16 32769 HOLDING_REGISTER (demo_client BIG_ENDIAN) = Some (Ok [v], mc1)"
proof -
  let ?r = "canned (Ok \<lparr>unitId = 7, functionCode = 3, payload = [4, 0x12, 0x34, 0x56, 0x78]\<rparr>)"
  let ?mc = "demo_client BIG_ENDIAN"
  have v: "valid_encoding (mc_endianness ?mc) (mc_wordOrder ?mc)"
    by (simp add: valid_encoding_def valid_endianness_def valid_word_order_def)
  have past: "\<not> pastEnd 16 2"
    by (simp add: pastEnd_def)
  have two: "(32769 * 2 :: uint16) = 2"
    by simp
  have "\<exists>bytes m. readRegisters ?r 16 (32769 * 2) HOLDING_REGISTER ?mc = Some (Ok bytes, m)"
    unfolding two using past by (simp add: readRegisters_asks reg_type_ok_def reg_request_def client_eval)
  then obtain vs m where r: "ReadUint32s ?r 16 32769 HOLDING_REGISTER ?mc = Some (Ok vs, m)"
    using on_values_OkD [OF trans [OF typed_reads(2) [OF v, of ?r 16 32769 HOLDING_REGISTER]]] by blast
  moreover have "length vs = 1"
    using typed_read_quantity_wraps [OF v] r by fastforce
  ultimately show ?thesis
    by (auto simp: length_Suc_conv)
qed

text \<open>
  C27: the limit on a write is checked on the truncated length.  Whatever the length of the list,
  the number of registers the client announces is that length modulo 32768; the request goes out
  when this number is within the limits, and it carries the bytes of all the values.
\<close>

theorem write_length_truncates:
  assumes "k = length vs mod 32768" "0 < k" "k \<le> 123" "unat addr + k \<le> 65536"
    and "mc_transport mc = Some t"
    and "t_ExecuteRequest T \<lparr>unitId = mc_unitId mc, functionCode = fcWriteMultipleRegisters,
        payload = be16 addr @ be16 (of_nat k) @ [of_nat (2 * k)]
          @ concat (map (uint16ToBytes (mc_endianness mc)) vs)\<rparr> t = Some (r, t')"
  shows "\<exists>res. WriteRegisters T addr vs mc = Some (res, mc\<lparr>mc_transport := Some t'\<rparr>)"
proof -
  let ?bs = "concat (map (uint16ToBytes (mc_endianness mc)) vs)"
  let ?l = "of_nat (length ?bs) :: uint16"
  have len: "length ?bs = 2 * length vs"
    by (rule u16.length_concat_enc)
  have "unat ?l = 2 * length vs mod 65536"
    unfolding len by (simp only: unat_of_nat take_bit_eq_mod) simp
  then have "unat ?l = 2 * k"
    using mult_mod_right [of 2 "length vs" 32768] assms(1) by simp
  then have l: "?l = of_nat (2 * k)" "unat (?l div 2) = k"
    using assms(3) unat_of_nat_eq [where 'a = 16, of "2 * k"] by (simp_all only: word_unat_eq_iff unat_div) simp_all
  have "unat (of_nat k :: uint16) = k"
    using assms(3) by (intro unat_of_nat_eq) simp
  then have q: "?l div 2 = of_nat k"
    using l(2) by (simp only: word_unat_eq_iff)
  have c: "(ucast ?l :: byte) = of_nat (2 * k)"
    unfolding l(1) using assms(3) by (simp only: unsigned_of_nat) (simp add: take_bit_nat_eq_self)
  have "of_nat k \<noteq> (0 :: uint16) \<and> \<not> 123 < (of_nat k :: uint16) \<and> \<not> pastEnd addr (of_nat k)"
    using span_check [of 123 addr "of_nat k"] assms(2-4) \<open>unat (of_nat k) = k\<close> by simp
  then show ?thesis
    unfolding WriteRegisters_def writeRegisters_def Let_def q c
    using assms(5,6) by (auto simp: executeRequest_accept finishWrite_def elim!: list4E split: sum.splits)
qed

theorem write_length_truncates_witness:
  "\<exists>res mc1 req. WriteRegisters (canned (Err ErrShortFrame)) 16 (replicate 32769 5) (demo_client BIG_ENDIAN)
      = Some (res, mc1) \<and> mc_transport mc1 = Some [req] \<and> length (payload req) = 65543"
proof -
  let ?req = "\<lparr>unitId = 7, functionCode = fcWriteMultipleRegisters,
      payload = be16 16 @ be16 (of_nat 1) @ [of_nat (2 * 1)]
        @ concat (map (uint16ToBytes BIG_ENDIAN) (replicate 32769 5))\<rparr>"
  have "t_ExecuteRequest (canned (Err ErrShortFrame)) ?req [] = Some (Err ErrShortFrame, [?req])"
    by (simp add: canned_def)
  then have "\<exists>res. WriteRegisters (canned (Err ErrShortFrame)) 16 (replicate 32769 5) (demo_client BIG_ENDIAN)
      = Some (res, (demo_client BIG_ENDIAN)\<lparr>mc_transport := Some [?req]\<rparr>)"
    using write_length_truncates [of 1 "replicate 32769 5" 16 "demo_client BIG_ENDIAN" "[]"
        "canned (Err ErrShortFrame)" "Err ErrShortFrame" "[?req]"] by simp
  moreover have "length (payload ?req) = 65543"
    using u16.length_concat_enc [of BIG_ENDIAN "replicate 32769 5"] by (simp del: map_replicate)
  ultimately show ?thesis
    by (metis (no_types, lifting) ModbusClient.select_convs(4) ModbusClient.surjective ModbusClient.update_convs(4))
qed

end
