(* ===== verification/Crc.thy ===== *)
theory Crc
  imports Encoding
begin

text \<open>
  internal/modbus/crc.go: the table-driven CRC of RTU frames, the bitwise CRC-16 it implements
  (reflected polynomial 0xA001, start value 0xffff), and what the check detects.
\<close>

unbundle bit_operations_syntax

section \<open>The generator of the code\<close>

definition crcTable :: "uint16 list" where
  "crcTable =
    [0x0000, 0xc0c1, 0xc181, 0x0140, 0xc301, 0x03c0, 0x0280, 0xc241,
     0xc601, 0x06c0, 0x0780, 0xc741, 0x0500, 0xc5c1, 0xc481, 0x0440,
     0xcc01, 0x0cc0, 0x0d80, 0xcd41, 0x0f00, 0xcfc1, 0xce81, 0x0e40,
     0x0a00, 0xcac1, 0xcb81, 0x0b40, 0xc901, 0x09c0, 0x0880, 0xc841,
     0xd801, 0x18c0, 0x1980, 0xd941, 0x1b00, 0xdbc1, 0xda81, 0x1a40,
     0x1e00, 0xdec1, 0xdf81, 0x1f40, 0xdd01, 0x1dc0, 0x1c80, 0xdc41,
     0x1400, 0xd4c1, 0xd581, 0x1540, 0xd701, 0x17c0, 0x1680, 0xd641,
     0xd201, 0x12c0, 0x1380, 0xd341, 0x1100, 0xd1c1, 0xd081, 0x1040,
     0xf001, 0x30c0, 0x3180, 0xf141, 0x3300, 0xf3c1, 0xf281, 0x3240,
     0x3600, 0xf6c1, 0xf781, 0x3740, 0xf501, 0x35c0, 0x3480, 0xf441,
     0x3c00, 0xfcc1, 0xfd81, 0x3d40, 0xff01, 0x3fc0, 0x3e80, 0xfe41,
     0xfa01, 0x3ac0, 0x3b80, 0xfb41, 0x3900, 0xf9c1, 0xf881, 0x3840,
     0x2800, 0xe8c1, 0xe981, 0x2940, 0xeb01, 0x2bc0, 0x2a80, 0xea41,
     0xee01, 0x2ec0, 0x2f80, 0xef41, 0x2d00, 0xedc1, 0xec81, 0x2c40,
     0xe401, 0x24c0, 0x2580, 0xe541, 0x2700, 0xe7c1, 0xe681, 0x2640,
     0x2200, 0xe2c1, 0xe381, 0x2340, 0xe101, 0x21c0, 0x2080, 0xe041,
     0xa001, 0x60c0, 0x6180, 0xa141, 0x6300, 0xa3c1, 0xa281, 0x6240,
     0x6600, 0xa6c1, 0xa781, 0x6740, 0xa501, 0x65c0, 0x6480, 0xa441,
     0x6c00, 0xacc1, 0xad81, 0x6d40, 0xaf01, 0x6fc0, 0x6e80, 0xae41,
     0xaa01, 0x6ac0, 0x6b80, 0xab41, 0x6900, 0xa9c1, 0xa881, 0x6840,
     0x7800, 0xb8c1, 0xb981, 0x7940, 0xbb01, 0x7bc0, 0x7a80, 0xba41,
     0xbe01, 0x7ec0, 0x7f80, 0xbf41, 0x7d00, 0xbdc1, 0xbc81, 0x7c40,
     0xb401, 0x74c0, 0x7580, 0xb541, 0x7700, 0xb7c1, 0xb681, 0x7640,
     0x7200, 0xb2c1, 0xb381, 0x7340, 0xb101, 0x71c0, 0x7080, 0xb041,
     0x5000, 0x90c1, 0x9181, 0x5140, 0x9301, 0x53c0, 0x5280, 0x9241,
     0x9601, 0x56c0, 0x5780, 0x9741, 0x5500, 0x95c1, 0x9481, 0x5440,
     0x9c01, 0x5cc0, 0x5d80, 0x9d41, 0x5f00, 0x9fc1, 0x9e81, 0x5e40,
     0x5a00, 0x9ac1, 0x9b81, 0x5b40, 0x9901, 0x59c0, 0x5880, 0x9841,
     0x8801, 0x48c0, 0x4980, 0x8941, 0x4b00, 0x8bc1, 0x8a81, 0x4a40,
     0x4e00, 0x8ec1, 0x8f81, 0x4f40, 0x8d01, 0x4dc0, 0x4c80, 0x8c41,
     0x4400, 0x84c1, 0x8581, 0x4540, 0x8701, 0x47c0, 0x4680, 0x8641,
     0x8201, 0x42c0, 0x4380, 0x8341, 0x4100, 0x81c1, 0x8081, 0x4040]"

record crc =
  crc_reg :: uint16

definition crc_init :: "crc \<Rightarrow> crc" where
  "crc_init c = c\<lparr>crc_reg := 0xffff\<rparr>"

text \<open>One turn of the loop of \<open>add\<close>.\<close>

definition crc_add_byte :: "byte \<Rightarrow> crc \<Rightarrow> crc" where
  "crc_add_byte b c =
     (let index = b XOR ucast (crc_reg c AND 0xff)
      in c\<lparr>crc_reg := drop_bit 8 (crc_reg c) XOR crcTable ! unat index\<rparr>)"

definition crc_add :: "byte list \<Rightarrow> crc \<Rightarrow> crc" where
  "crc_add bs c = fold crc_add_byte bs c"

definition crc_value :: "crc \<Rightarrow> byte list" where
  "crc_value c = uint16ToBytes LITTLE_ENDIAN (crc_reg c)"

definition crc_isEqual :: "byte \<Rightarrow> byte \<Rightarrow> crc \<Rightarrow> bool" where
  "crc_isEqual low high c \<longleftrightarrow> bytesToUint16 LITTLE_ENDIAN [low, high] = Some (crc_reg c)"

section \<open>The bitwise CRC-16\<close>

definition crc_shift :: "uint16 \<Rightarrow> uint16" where
  "crc_shift r = (if bit r 0 then drop_bit 1 r XOR 0xA001 else drop_bit 1 r)"

definition crc16_byte :: "uint16 \<Rightarrow> byte \<Rightarrow> uint16" where
  "crc16_byte r b = (crc_shift ^^ 8) (r XOR ucast b)"

definition crc16 :: "byte list \<Rightarrow> uint16" where
  "crc16 bs = foldl crc16_byte 0xffff bs"

subsection \<open>The table\<close>

text \<open>
  The table is the exclusive or of a row of 16 entries for the low and a row of 16 entries for
  the high half of the index; the two rows are evaluated against the bitwise definition.
\<close>

definition crc_low :: "uint16 list" where
  "crc_low =
    [0x0000, 0xc0c1, 0xc181, 0x0140, 0xc301, 0x03c0, 0x0280, 0xc241,
     0xc601, 0x06c0, 0x0780, 0xc741, 0x0500, 0xc5c1, 0xc481, 0x0440]"

definition crc_high :: "uint16 list" where
  "crc_high =
    [0x0000, 0xcc01, 0xd801, 0x1400, 0xf001, 0x3c00, 0x2800, 0xe401,
     0xa001, 0x6c00, 0x7800, 0xb401, 0x5000, 0x9c01, 0x8801, 0x4400]"

lemma funpow8: "(f ^^ 8) x = f (f (f (f (f (f (f (f x)))))))"
  by (simp add: numeral_eq_Suc)

lemma crc_low_eq: "crc_low = map (\<lambda>k. (crc_shift ^^ 8) (of_nat k)) [0..<16]"
  by (simp add: upt_conv_Cons crc_low_def funpow8 crc_shift_def)

lemma crc_high_eq: "crc_high = map (\<lambda>k. (crc_shift ^^ 8) (push_bit 4 (of_nat k))) [0..<16]"
  by (simp add: upt_conv_Cons crc_high_def funpow8 crc_shift_def)

lemma crcTable_split: "crcTable = concat (map (\<lambda>h. map (\<lambda>l. h XOR l) crc_low) crc_high)"
  by (simp add: crcTable_def crc_low_def crc_high_def)

lemma nth_concat_map_uniform:
  "(\<And>x. length (f x) = n) \<Longrightarrow> i < n * length xs \<Longrightarrow>
   concat (map f xs) ! i = f (xs ! (i div n)) ! (i mod n)"
proof (induction xs arbitrary: i)
  case Nil
  then show ?case by simp
next
  case (Cons x xs)
  show ?case
  proof (cases "i < n")
    case True
    with Cons.prems show ?thesis by (simp add: nth_append)
  next
    case False
    moreover from this Cons.prems have "0 < n" by (cases n) auto
    ultimately show ?thesis
      using Cons.prems Cons.IH [of "i - n"]
      by (simp add: nth_append le_div_geq le_mod_geq)
  qed
qed

lemma crcTable_halves: "i < 256 \<Longrightarrow> crcTable ! i = crc_high ! (i div 16) XOR crc_low ! (i mod 16)"
  unfolding crcTable_split
  by (subst nth_concat_map_uniform [where n = 16]) (simp_all add: crc_low_eq crc_high_eq)

subsection \<open>Linearity\<close>

lemma crc_shift_xor: "crc_shift (x XOR y) = crc_shift x XOR crc_shift y"
  by (rule bit_word_eqI) (auto simp: crc_shift_def bit_simps)

lemma crc_shifts_xor: "(crc_shift ^^ n) (x XOR y) = (crc_shift ^^ n) x XOR (crc_shift ^^ n) y"
  by (induction n) (simp_all add: crc_shift_xor)

lemma crc_shifts_zero_bits:
  "(\<And>i. i < n \<Longrightarrow> \<not> bit x i) \<Longrightarrow> (crc_shift ^^ n) x = drop_bit n x"
proof (induction n)
  case 0
  then show ?case by simp
next
  case (Suc n)
  then have "(crc_shift ^^ n) x = drop_bit n x" by simp
  moreover have "\<not> bit (drop_bit n x) 0"
    using Suc.prems [of n] by (simp add: bit_simps)
  ultimately have "crc_shift ((crc_shift ^^ n) x) = drop_bit 1 (drop_bit n x)"
    by (simp add: crc_shift_def [of "drop_bit n x"])
  then show ?case by simp
qed

lemma crc_shift_inj: "inj crc_shift"
proof (rule injI)
  fix x y
  assume eq: "crc_shift x = crc_shift y"
  have top: "bit (crc_shift z) 15 \<longleftrightarrow> bit z 0" for z
    by (auto simp: crc_shift_def bit_simps dest: bit_imp_le_length)
  then have low: "bit x 0 \<longleftrightarrow> bit y 0"
    using eq by metis
  have "drop_bit 1 x = drop_bit 1 y"
    using eq low by (simp add: crc_shift_def split: if_splits)
  then have "bit x (Suc i) \<longleftrightarrow> bit y (Suc i)" for i
    by (metis bit_drop_bit_eq comp_apply plus_1_eq_Suc)
  with low show "x = y"
    by (intro bit_word_eqI) (metis not0_implies_Suc)
qed

lemma crc_shifts_inj: "(crc_shift ^^ n) x = (crc_shift ^^ n) y \<longleftrightarrow> x = y"
  by (induction n) (auto dest: injD [OF crc_shift_inj])

lemma crc_shift_zero [simp]: "(crc_shift ^^ n) 0 = 0"
  by (induction n) (simp_all add: crc_shift_def)


lemma crcTable_nth: "crcTable ! unat (i :: byte) = (crc_shift ^^ 8) (ucast i)"
proof -
  have i: "unat i < 256"
    using unsigned_less [where 'a = nat, of i] by simp
  have "(ucast i :: uint16) = push_bit 4 (of_nat (unat i div 16)) XOR of_nat (unat i mod 16)"
  proof -
    have "unat (drop_bit 4 i) = unat i div 16"
      by (rule trans [OF unat_drop_bit_eq]) (subst drop_bit_eq_div, simp)
    moreover have "unat (take_bit 4 i) = unat i mod 16"
      by (rule trans [OF unsigned_take_bit_eq]) (subst take_bit_eq_mod, simp)
    ultimately have "of_nat (unat i div 16) = (ucast (drop_bit 4 i) :: uint16)"
        "of_nat (unat i mod 16) = (ucast (take_bit 4 i) :: uint16)"
      by (metis of_nat_unat)+
    moreover have "(ucast i :: uint16) = push_bit 4 (ucast (drop_bit 4 i)) XOR ucast (take_bit 4 i)"
      by (rule bit_word_eqI) (auto simp: bit_simps)
    ultimately show ?thesis by simp
  qed
  moreover have "unat i div 16 < 16"
    using i by simp
  ultimately show ?thesis
    using i by (simp add: crcTable_halves crc_low_eq crc_high_eq crc_shifts_xor)
qed

section \<open>Correctness of the generator\<close>

lemma crc_add_byte_eq: "crc_reg (crc_add_byte b c) = crc16_byte (crc_reg c) b"
proof -
  let ?r = "crc_reg c"
  let ?i = "b XOR ucast (?r AND 0xff) :: byte"
  have mask: "bit (0xff :: uint16) k \<longleftrightarrow> k < 8" for k
    using bit_mask_iff [where 'a = "16 word", of 8 k]
    by (auto simp: mask_eq_exp_minus_1 bit_simps)
  have "(ucast (?r AND 0xff) :: byte) = ucast ?r"
    by (rule bit_word_eqI) (simp only: bit_unsigned_iff bit_and_iff mask, simp)
  then have "?r XOR ucast b = push_bit 8 (drop_bit 8 ?r) XOR ucast ?i"
    by (intro bit_word_eqI) (auto simp: bit_simps dest: bit_byteD bit_uint16D)
  moreover have top: "bit ?r (8 + n) \<Longrightarrow> n < 8" for n
    using bit_uint16D [of ?r "8 + n"] by simp
  then have "(crc_shift ^^ 8) (push_bit 8 (drop_bit 8 ?r)) = drop_bit 8 ?r"
    by (subst crc_shifts_zero_bits) (auto simp: bit_simps intro!: bit_word_eqI)
  ultimately have "crc16_byte ?r b = drop_bit 8 ?r XOR (crc_shift ^^ 8) (ucast ?i)"
    by (simp only: crc16_byte_def crc_shifts_xor)
  then show ?thesis
    by (simp add: crc_add_byte_def Let_def crcTable_nth)
qed

lemma crc_add_foldl: "crc_reg (crc_add bs c) = foldl crc16_byte (crc_reg c) bs"
  by (induction bs arbitrary: c) (simp_all add: crc_add_def crc_add_byte_eq)

lemma crc_add_init: "crc_reg (crc_add bs (crc_init c)) = crc16 bs"
  by (simp add: crc_add_foldl crc16_def crc_init_def)

lemma crc_add_append: "crc_add (xs @ ys) c = crc_add ys (crc_add xs c)"
  by (simp add: crc_add_def)

lemma crc16_two:
  "foldl crc16_byte r [a, b] = (crc_shift ^^ 16) (r XOR le_word [a, b])"
proof -
  have le: "(le_word [a, b] :: uint16) = ucast a XOR push_bit 8 (ucast b)"
    by (rule bit_word_eqI) (auto simp: le_word.simps bit_simps dest: bit_byteD)
  have hi: "(crc_shift ^^ 8) (push_bit 8 (ucast b)) = ucast b"
    by (subst crc_shifts_zero_bits) (auto simp: bit_simps intro!: bit_word_eqI dest: bit_byteD)
  have "foldl crc16_byte r [a, b] = (crc_shift ^^ 8) ((crc_shift ^^ 8) (r XOR ucast a) XOR
      (crc_shift ^^ 8) (push_bit 8 (ucast b)))"
    by (simp add: crc16_byte_def hi)
  also have "\<dots> = (crc_shift ^^ 8) ((crc_shift ^^ 8) (r XOR ucast a XOR push_bit 8 (ucast b)))"
    by (simp only: crc_shifts_xor xor.assoc)
  also have "\<dots> = (crc_shift ^^ 16) (r XOR ucast a XOR push_bit 8 (ucast b))"
    by (simp only: funpow_add [symmetric, THEN fun_cong, unfolded comp_def]) simp
  finally show ?thesis
    by (simp only: le xor.assoc)
qed

lemma foldl_crc16_inj: "foldl crc16_byte r bs = foldl crc16_byte r' bs \<longleftrightarrow> r = r'"
proof (induction bs arbitrary: r r')
  case Nil
  then show ?case by simp
next
  case (Cons b bs)
  then show ?case
    by (simp add: crc16_byte_def crc_shifts_inj)
qed

lemma crc16_burst:
  "crc16 (xs @ a # b # ys) = crc16 (xs @ a' # b' # ys) \<longleftrightarrow> a = a' \<and> b = b'"
proof -
  let ?r = "crc16 xs"
  have "crc16 (xs @ c # d # ys) = foldl crc16_byte ((crc_shift ^^ 16) (?r XOR le_word [c, d])) ys" for c d
    using crc16_two [of ?r c d] by (simp add: crc16_def)
  then have "crc16 (xs @ a # b # ys) = crc16 (xs @ a' # b' # ys) \<longleftrightarrow>
      ?r XOR le_word [a, b] = ?r XOR le_word [a', b']"
    by (simp add: foldl_crc16_inj crc_shifts_inj)
  also have "\<dots> \<longleftrightarrow> le_word [a, b] = (le_word [a', b'] :: uint16)"
    by simp
  also have "\<dots> \<longleftrightarrow> a = a' \<and> b = b'"
    using le_word_inj [where 'a = 16, of "[a, b]" "[a', b']"] by auto
  finally show ?thesis .
qed

text \<open>A body followed by two check bytes passes the check exactly when the CRC of the whole is 0.\<close>

lemma crc_isEqual_residue:
  "crc_isEqual low high (crc_add body (crc_init c)) \<longleftrightarrow> crc16 (body @ [low, high]) = 0"
proof -
  have "crc16 (body @ [low, high]) = (crc_shift ^^ 16) (crc16 body XOR le_word [low, high])"
    using crc16_two [of "crc16 body"] by (simp add: crc16_def)
  then have "crc16 (body @ [low, high]) = 0 \<longleftrightarrow> crc16 body XOR le_word [low, high] = 0"
    using crc_shifts_inj [of 16 _ 0] by simp
  also have "\<dots> \<longleftrightarrow> crc16 body = le_word [low, high]"
    by (rule xor_zero_iff)
  finally show ?thesis
    by (auto simp: crc_isEqual_def bytesToUint16_def go_slice_def crc_add_init)
qed

lemma crc_isEqual_value: "crc_value c = [low, high] \<Longrightarrow> crc_isEqual low high c"
  using bytesToUint16_uint16ToBytes [of LITTLE_ENDIAN "crc_reg c"]
  by (simp add: crc_value_def crc_isEqual_def valid_endianness_def)

lemma crc_isEqual_iff:
  "crc_isEqual low high (crc_add body (crc_init c)) \<longleftrightarrow> crc_value (crc_add body (crc_init c)) = [low, high]"
proof -
  let ?c = "crc_add body (crc_init c)"
  have "length (crc_value ?c) = 2"
    by (simp add: crc_value_def)
  then obtain l h where v: "crc_value ?c = [l, h]"
    by (rule list2E)
  then have "crc_isEqual l h ?c"
    by (rule crc_isEqual_value)
  then have "crc_isEqual low high ?c \<longleftrightarrow> l = low \<and> h = high"
    using crc16_burst [of body l h "[]" low high] by (simp add: crc_isEqual_residue)
  with v show ?thesis by simp
qed

text \<open>
  C18: the generator computes CRC-16/MODBUS.  From the initial register, the table-driven loop of
  \<open>add\<close> leaves the register that eight bitwise shifts per byte leave, whatever register value
  the generator held before, and however the input is cut into calls of \<open>add\<close>.
\<close>

theorem crc_add_is_crc16:
  "crc_reg (crc_add bs (crc_init c)) = crc16 bs
   \<and> crc_reg (crc_add ys (crc_add xs (crc_init c))) = crc16 (xs @ ys)"
  by (simp add: crc_add_init crc_add_append [symmetric])

text \<open>
  The check of a received frame accepts the two bytes \<open>value\<close> produces for its body and no
  others, and it detects every corruption confined to two adjacent bytes anywhere in the frame,
  the check bytes included: two frames that differ only there are not both accepted.
\<close>

lemma crc_check_detects_burst:
  "(crc_isEqual low high (crc_add body (crc_init c)) \<longleftrightarrow>
      crc_value (crc_add body (crc_init c)) = [low, high])
   \<and> \<not> (body @ [low, high] = xs @ a # b # ys \<and> body' @ [low', high'] = xs @ a' # b' # ys
        \<and> (a, b) \<noteq> (a', b')
        \<and> crc_isEqual low high (crc_add body (crc_init c))
        \<and> crc_isEqual low' high' (crc_add body' (crc_init c)))"
proof -
  have False if "body @ [low, high] = xs @ a # b # ys" "body' @ [low', high'] = xs @ a' # b' # ys"
    "(a, b) \<noteq> (a', b')" "crc_isEqual low high (crc_add body (crc_init c))"
    "crc_isEqual low' high' (crc_add body' (crc_init c))"
  proof -
    from that have "crc16 (xs @ a # b # ys) = 0" "crc16 (xs @ a' # b' # ys) = 0"
      by (simp_all only: crc_isEqual_residue)
    with that(3) show False
      using crc16_burst [of xs a b ys a' b'] by simp
  qed
  then show ?thesis
    unfolding crc_isEqual_iff by blast
qed

end
