(* ===== verification/Rtu_Transport.thy ===== *)
theory Rtu_Transport
  imports Net_Conn Crc Modbus_Pdu
begin

text \<open>
  internal/modbus/rtu_transport.go: the RTU framing with its CRC, the timing of the line, and the
  RTU transport over any link.  As for TCP, the stream is parsed by a pure function, \<open>rtu_next\<close>,
  which the reading code implements.  Times and durations are nanoseconds; all the durations
  the code computes from a baud rate are below 2^63, and \<open>time.Duration(rate)\<close> reads a \<open>uint\<close> as a
  signed 64-bit number.
\<close>

section \<open>The transport\<close>

definition maxRTUFrameLength :: nat where
  "maxRTUFrameLength = 256"

record 's rtuTransport =
  rt_link :: 's
  rt_timeout :: int
  rt_lastActivity :: int
  rt_t35 :: int
  rt_t1 :: int

text \<open>A rate of 0 divides by zero.\<close>

definition serialCharTime :: "uint \<Rightarrow> int option" where
  "serialCharTime rate_bps =
     (if rate_bps = 0 then None else Some (11 * 1000000000 sdiv sint rate_bps))"

text \<open>The zero value of \<open>time.Time\<close>, January 1 of the year 1.\<close>

definition zeroTime :: int where
  "zeroTime = - 62135596800 * 1000000000"

definition newRTUTransport :: "'s \<Rightarrow> uint \<Rightarrow> int \<Rightarrow> 's rtuTransport option" where
  "newRTUTransport link speed timeout = do {
     t1 \<leftarrow> serialCharTime speed;
     t35 \<leftarrow> (if 19200 \<le> speed then Some (1750 * 1000)
             else do { ct \<leftarrow> serialCharTime speed; Some (ct * 35 sdiv 10) });
     Some \<lparr>rt_link = link, rt_timeout = timeout, rt_lastActivity = zeroTime, rt_t35 = t35, rt_t1 = t1\<rparr> }"

definition rtu_Close :: "'s rtuLink \<Rightarrow> 's rtuTransport \<Rightarrow> unit result \<times> 's rtuTransport" where
  "rtu_Close L rt = apsnd (\<lambda>s. rt\<lparr>rt_link := s\<rparr>) (link_Close L (rt_link rt))"

definition assembleRTUFrame :: "pdu \<Rightarrow> byte list" where
  "assembleRTUFrame p =
     (let adu = [unitId p] @ [functionCode p] @ payload p;
          c = crc_add adu (crc_init \<lparr>crc_reg = 0\<rparr>)
      in adu @ crc_value c)"

definition expectedResponseLenth :: "uint8 \<Rightarrow> uint8 \<Rightarrow> nat result" where
  "expectedResponseLenth responseCode responseLength =
     (if responseCode \<in> {fcReadHoldingRegisters, fcReadInputRegisters, fcReadCoils, fcReadDiscreteInputs}
        then Ok (unat responseLength)
      else if responseCode \<in> {fcWriteSingleRegister, fcWriteMultipleRegisters, fcWriteSingleCoil,
          fcWriteMultipleCoils} then Ok 3
      else if responseCode = fcMaskWriteRegister then Ok 5
      else if responseCode \<in> {or fcReadHoldingRegisters 0x80, or fcReadInputRegisters 0x80,
          or fcReadCoils 0x80, or fcReadDiscreteInputs 0x80, or fcWriteSingleRegister 0x80,
          or fcWriteMultipleRegisters 0x80, or fcWriteSingleCoil 0x80, or fcWriteMultipleCoils 0x80,
          or fcMaskWriteRegister 0x80} then Ok 0
      else Err ErrProtocolError)"

definition readRTUFrame :: "'s rtuLink \<Rightarrow> 's rtuTransport \<Rightarrow> (pdu result \<times> 's rtuTransport) option" where
  "readRTUFrame L rt = do {
     let rxbuf0 = replicate maxRTUFrameLength 0;
     ((got, err), s1) \<leftarrow> io_ReadFull L 3 (rt_link rt);
     let rxbuf1 = go_copy rxbuf0 got;
     let byteCount = length got;
     (if (0 < byteCount \<or> err = None) \<and> byteCount \<noteq> 3 then Some (Err ErrShortFrame, rt\<lparr>rt_link := s1\<rparr>)
      else if err \<noteq> None \<and> err \<noteq> Some ErrUnexpectedEOF then Some (Err (the err), rt\<lparr>rt_link := s1\<rparr>)
      else do {
        responseCode \<leftarrow> go_index rxbuf1 1;
        responseLength \<leftarrow> go_index rxbuf1 2;
        (case expectedResponseLenth responseCode responseLength of
           Inl e \<Rightarrow> Some (Err e, rt\<lparr>rt_link := s1\<rparr>)
         | Inr n \<Rightarrow> do {
             let bytesNeeded = n + 2;
             (if maxRTUFrameLength < byteCount + bytesNeeded
              then Some (Err ErrProtocolError, rt\<lparr>rt_link := s1\<rparr>)
              else do {
                dst \<leftarrow> go_slice rxbuf1 3 (3 + bytesNeeded);
                ((got, err), s2) \<leftarrow> io_ReadFull L (length dst) s1;
                let rxbuf2 = take 3 rxbuf1 @ go_copy (drop 3 rxbuf1) got;
                (if err \<noteq> None \<and> err \<noteq> Some ErrUnexpectedEOF then Some (Err (the err), rt\<lparr>rt_link := s2\<rparr>)
                 else if length got \<noteq> bytesNeeded then Some (Err ErrShortFrame, rt\<lparr>rt_link := s2\<rparr>)
                 else do {
                   body \<leftarrow> go_slice rxbuf2 0 (3 + bytesNeeded - 2);
                   low \<leftarrow> go_index rxbuf2 (3 + bytesNeeded - 2);
                   high \<leftarrow> go_index rxbuf2 (3 + bytesNeeded - 1);
                   (if \<not> crc_isEqual low high (crc_add body (crc_init \<lparr>crc_reg = 0\<rparr>))
                    then Some (Err ErrBadCRC, rt\<lparr>rt_link := s2\<rparr>)
                    else do {
                      unit \<leftarrow> go_index rxbuf2 0;
                      fc \<leftarrow> go_index rxbuf2 1;
                      data \<leftarrow> go_slice rxbuf2 2 (3 + bytesNeeded - 2);
                      Some (Ok \<lparr>unitId = unit, functionCode = fc, payload = data\<rparr>,
                            rt\<lparr>rt_link := s2\<rparr>) }) }) }) }) }) }"

text \<open>The results of both calls are ignored.\<close>

definition discard :: "'s rtuLink \<Rightarrow> 's \<Rightarrow> 's option" where
  "discard L s = do {
     let s1 = snd (link_SetDeadline L (time_Now L s + 500 * 1000) s);
     (_, s2) \<leftarrow> io_ReadFull L 1024 s1;
     Some s2 }"

definition rtu_SetDeadline :: "'s rtuLink \<Rightarrow> 's rtuTransport \<Rightarrow> unit result \<times> 's rtuTransport" where
  "rtu_SetDeadline L rt =
     apsnd (\<lambda>s. rt\<lparr>rt_link := s\<rparr>)
       (link_SetDeadline L (time_Now L (rt_link rt) + rt_timeout rt) (rt_link rt))"

text \<open>\<open>time.Sleep\<close> in the transport's world, and the wait for t3.5 after the last activity.\<close>

definition rtu_Sleep :: "'s rtuLink \<Rightarrow> int \<Rightarrow> 's rtuTransport \<Rightarrow> 's rtuTransport" where
  "rtu_Sleep L d rt = rt\<lparr>rt_link := time_Sleep L d (rt_link rt)\<rparr>"

definition rtu_wait :: "'s rtuLink \<Rightarrow> 's rtuTransport \<Rightarrow> 's rtuTransport" where
  "rtu_wait L rt =
     (let t = time_Now L (rt_link rt) - (rt_lastActivity rt + rt_t35 rt)
      in if t < 0 then rtu_Sleep L (t * (- 1)) rt else rt)"

text \<open>What follows the read: the flush after a framing error, and the time stamp.\<close>

definition rtu_finish :: "'s rtuLink \<Rightarrow> pdu result \<Rightarrow> 's rtuTransport \<Rightarrow> (pdu result \<times> 's rtuTransport) option" where
  "rtu_finish L r rt = do {
     rt1 \<leftarrow> (if r = Err ErrBadCRC \<or> r = Err ErrProtocolError \<or> r = Err ErrShortFrame then do {
               let rt0 = rtu_Sleep L (int maxRTUFrameLength * rt_t1 rt) rt;
               s \<leftarrow> discard L (rt_link rt0);
               Some (rt0\<lparr>rt_link := s\<rparr>) }
             else Some rt);
     Some (r, if r \<noteq> Err ErrRequestTimedOut then rt1\<lparr>rt_lastActivity := time_Now L (rt_link rt1)\<rparr> else rt1) }"

definition rtu_ExecuteRequest ::
  "'s rtuLink \<Rightarrow> pdu \<Rightarrow> 's rtuTransport \<Rightarrow> (pdu result \<times> 's rtuTransport) option" where
  "rtu_ExecuteRequest L req rt =
     (case rtu_SetDeadline L rt of
        (Inl e, rt1) \<Rightarrow> Some (Err e, rt1)
      | (Inr _, rt1) \<Rightarrow>
          let rt2 = rtu_wait L rt1;
              ts = time_Now L (rt_link rt2)
          in (case link_Write L (assembleRTUFrame req) (rt_link rt2) of
                ((n, Some e), s) \<Rightarrow> Some (Err e, rt2\<lparr>rt_link := s\<rparr>)
              | ((n, None), s) \<Rightarrow>
                  let rt3 = rt2\<lparr>rt_link := s, rt_lastActivity := ts + int n * rt_t1 rt2\<rparr>;
                      rt4 = rtu_Sleep L (rt_lastActivity rt3 + rt_t35 rt3 - time_Now L (rt_link rt3)) rt3
                  in do { (r, rt5) \<leftarrow> readRTUFrame L rt4; rtu_finish L r rt5 }))"

definition rtu_ReadRequest :: "'s rtuTransport \<Rightarrow> (pdu result \<times> 's rtuTransport) option" where
  "rtu_ReadRequest rt = Some (Err (OtherError ''unimplemented''), rt)"

definition rtu_WriteResponse :: "'s rtuLink \<Rightarrow> pdu \<Rightarrow> 's rtuTransport \<Rightarrow> unit result \<times> 's rtuTransport" where
  "rtu_WriteResponse L res rt =
     (case link_Write L (assembleRTUFrame res) (rt_link rt) of
        ((n, Some e), s) \<Rightarrow> (Err e, rt\<lparr>rt_link := s\<rparr>)
      | ((n, None), s) \<Rightarrow> (Ok (), rt\<lparr>rt_link := s, rt_lastActivity := time_Now L s + rt_t1 rt * int n\<rparr>))"

definition rtuTransportOps :: "'s rtuLink \<Rightarrow> 's rtuTransport transport" where
  "rtuTransportOps L =
     \<lparr>t_Close = rtu_Close L, t_ExecuteRequest = rtu_ExecuteRequest L,
      t_ReadRequest = rtu_ReadRequest, t_WriteResponse = rtu_WriteResponse L\<rparr>"

text \<open>A transport over another link.\<close>

definition map_rtu :: "('s \<Rightarrow> 'u) \<Rightarrow> 's rtuTransport \<Rightarrow> 'u rtuTransport" where
  "map_rtu e rt = \<lparr>rt_link = e (rt_link rt), rt_timeout = rt_timeout rt, rt_lastActivity = rt_lastActivity rt,
     rt_t35 = rt_t35 rt, rt_t1 = rt_t1 rt\<rparr>"

lemma map_rtu_simps [simp]:
  "rt_link (map_rtu e rt) = e (rt_link rt)" "rt_timeout (map_rtu e rt) = rt_timeout rt"
  "rt_lastActivity (map_rtu e rt) = rt_lastActivity rt" "rt_t35 (map_rtu e rt) = rt_t35 rt" "rt_t1 (map_rtu e rt) = rt_t1 rt"
  "(map_rtu e rt)\<lparr>rt_link := e s\<rparr> = map_rtu e (rt\<lparr>rt_link := s\<rparr>)"
  "(map_rtu e rt)\<lparr>rt_lastActivity := t\<rparr> = map_rtu e (rt\<lparr>rt_lastActivity := t\<rparr>)"
  "(map_rtu e rt)\<lparr>rt_link := e s, rt_lastActivity := t\<rparr> = map_rtu e (rt\<lparr>rt_link := s, rt_lastActivity := t\<rparr>)"
  by (simp_all add: map_rtu_def)

text \<open>A transport over a recording link.\<close>

definition recorded :: "link_event list \<Rightarrow> 's rtuTransport \<Rightarrow> ('s \<times> link_event list) rtuTransport" where
  "recorded log = map_rtu (\<lambda>s. (s, log))"

lemma recorded_simps [simp]:
  "rt_link (recorded log rt) = (rt_link rt, log)" "rt_timeout (recorded log rt) = rt_timeout rt"
  "rt_lastActivity (recorded log rt) = rt_lastActivity rt" "rt_t35 (recorded log rt) = rt_t35 rt" "rt_t1 (recorded log rt) = rt_t1 rt"
  "(recorded log rt)\<lparr>rt_link := (s, log')\<rparr> = recorded log' (rt\<lparr>rt_link := s\<rparr>)"
  "(recorded log rt)\<lparr>rt_lastActivity := a\<rparr> = recorded log (rt\<lparr>rt_lastActivity := a\<rparr>)"
  "(recorded log rt)\<lparr>rt_link := (s, log'), rt_lastActivity := a\<rparr> = recorded log' (rt\<lparr>rt_link := s, rt_lastActivity := a\<rparr>)"
  by (simp_all add: recorded_def map_rtu_def)

section \<open>Frames of a stream\<close>

text \<open>
  The first frame of a stream: \<open>RtuBad e rest\<close> is a framing error and what is left unread, \<open>Silent\<close>
  an empty stream, \<open>Stub\<close> one that ends in the first three bytes, \<open>Cut\<close> a frame whose end has
  not arrived.
\<close>

datatype rtu_outcome = RtuFrame pdu "byte list" | RtuBad go_error "byte list" | Silent | Stub | Cut

definition rtu_next :: "byte list \<Rightarrow> rtu_outcome" where
  "rtu_next bs =
     (if bs = [] then Silent
      else if length bs < 3 then Stub
      else case expectedResponseLenth (bs ! 1) (bs ! 2) of
        Inl e \<Rightarrow> RtuBad e (drop 3 bs)
      | Inr n \<Rightarrow>
          if 251 < n then RtuBad ErrProtocolError (drop 3 bs)
          else if length bs < n + 5 then Cut
          else if crc16 (take (n + 5) bs) \<noteq> 0 then RtuBad ErrBadCRC (drop (n + 5) bs)
          else RtuFrame \<lparr>unitId = bs ! 0, functionCode = bs ! 1, payload = take (n + 1) (drop 2 bs)\<rparr>
                 (drop (n + 5) bs))"

text \<open>The responses an RTU master can delimit: the length is what the first bytes announce.\<close>

definition rtu_sized :: "pdu \<Rightarrow> bool" where
  "rtu_sized p \<longleftrightarrow> payload p \<noteq> [] \<and> length (payload p) \<le> 252
     \<and> expectedResponseLenth (functionCode p) (hd (payload p)) = Ok (length (payload p) - 1)"

lemma crc16_assemble: "crc16 (assembleRTUFrame p) = 0"
proof -
  let ?adu = "unitId p # functionCode p # payload p"
  let ?c = "crc_add ?adu (crc_init \<lparr>crc_reg = 0\<rparr>)"
  have "length (crc_value ?c) = 2"
    by (simp add: crc_value_def)
  then obtain l h where v: "crc_value ?c = [l, h]"
    by (rule list2E)
  then have "crc_isEqual l h ?c"
    by (rule crc_isEqual_value)
  then have "crc16 (?adu @ [l, h]) = 0"
    by (simp only: crc_isEqual_residue)
  with v show ?thesis
    by (simp add: assembleRTUFrame_def Let_def)
qed

lemma length_assembleRTUFrame [simp]: "length (assembleRTUFrame p) = length (payload p) + 4"
  by (simp add: assembleRTUFrame_def Let_def crc_value_def)

lemma assembleRTUFrame_split:
  "assembleRTUFrame p = unitId p # functionCode p # payload p @ drop (length (payload p) + 2) (assembleRTUFrame p)"
  by (simp add: assembleRTUFrame_def Let_def)

text \<open>A body with a zero residue is the assembled frame of its fields.\<close>

lemma residue_assemble:
  assumes "crc16 (u # f # data @ [l, h]) = 0"
  shows "assembleRTUFrame \<lparr>unitId = u, functionCode = f, payload = data\<rparr> = u # f # data @ [l, h]"
proof -
  have "crc_isEqual l h (crc_add (u # f # data) (crc_init \<lparr>crc_reg = 0\<rparr>))"
    using assms by (simp add: crc_isEqual_residue)
  then show ?thesis
    unfolding crc_isEqual_iff by (simp add: assembleRTUFrame_def)
qed

text \<open>The parser on a complete frame, from the parts of the stream it looks at.\<close>

lemma rtu_next_complete:
  assumes "expectedResponseLenth (bs ! 1) (bs ! 2) = Ok n" "n \<le> 251" "n + 5 \<le> length bs"
  shows "rtu_next bs =
    (if crc16 (take (n + 5) bs) \<noteq> 0 then RtuBad ErrBadCRC (drop (n + 5) bs)
     else RtuFrame \<lparr>unitId = bs ! 0, functionCode = bs ! 1, payload = take (n + 1) (drop 2 bs)\<rparr>
            (drop (n + 5) bs))"
  using assms by (auto simp: rtu_next_def)

lemma rtu_next_assemble:
  assumes "rtu_sized p"
  shows "rtu_next (assembleRTUFrame p @ rest) = RtuFrame p rest"
proof -
  let ?f = "assembleRTUFrame p"
  let ?n = "length (payload p) - 1"
  have n: "?n + 5 = length ?f" "?n \<le> 251" "?n + 1 = length (payload p)"
    using assms by (auto simp: rtu_sized_def Suc_le_eq)
  obtain d ds where d: "payload p = d # ds"
    using assms by (cases "payload p") (auto simp: rtu_sized_def)
  have nth: "(?f @ rest) ! 0 = unitId p" "(?f @ rest) ! 1 = functionCode p" "(?f @ rest) ! 2 = d"
    by (subst assembleRTUFrame_split, simp add: d numeral_2_eq_2)+
  have parts: "take (?n + 1) (drop 2 (?f @ rest)) = payload p"
    "take (?n + 5) (?f @ rest) = ?f" "drop (?n + 5) (?f @ rest) = rest"
    unfolding n by (subst assembleRTUFrame_split) (simp_all add: numeral_2_eq_2)
  have "expectedResponseLenth ((?f @ rest) ! 1) ((?f @ rest) ! 2) = Ok ?n"
    using assms unfolding nth by (simp add: rtu_sized_def d)
  moreover have "?n + 5 \<le> length (?f @ rest)"
    unfolding n(1) by simp
  ultimately have "rtu_next (?f @ rest) = RtuFrame \<lparr>unitId = unitId p, functionCode = functionCode p,
      payload = payload p\<rparr> rest"
    using n(2) by (subst rtu_next_complete) (assumption | simp only: parts nth crc16_assemble simp_thms if_False)+
  then show ?thesis by simp
qed

lemma rtu_next_RtuFrame:
  assumes "rtu_next bs = RtuFrame p rest"
  shows "bs = assembleRTUFrame p @ rest \<and> rtu_sized p"
proof -
  obtain n where n: "expectedResponseLenth (bs ! 1) (bs ! 2) = Ok n" "n \<le> 251" "n + 5 \<le> length bs"
    using assms by (auto simp: rtu_next_def split: if_splits sum.splits)
  with assms have crc: "crc16 (take (n + 5) bs) = 0" and rest: "rest = drop (n + 5) bs"
    and p: "p = \<lparr>unitId = bs ! 0, functionCode = bs ! 1, payload = take (n + 1) (drop 2 bs)\<rparr>"
    by (simp_all add: rtu_next_complete split: if_splits)
  obtain u bs' where b1: "bs = u # bs'"
    using n(3) by (cases bs) auto
  obtain f ds where b2: "bs' = f # ds"
    using n(3) b1 by (cases bs') auto
  note bs = b1 [unfolded b2]
  let ?data = "take (n + 1) ds"
  let ?l = "ds ! (n + 1)" and ?h = "ds ! (n + 2)"
  have ds: "n + 3 \<le> length ds"
    using n(3) bs by simp
  then have "take (n + 3) ds = ?data @ [?l, ?h]"
    by (simp add: take_Suc_conv_app_nth numeral_3_eq_3)
  then have fr: "take (n + 5) bs = u # f # ?data @ [?l, ?h]"
    by (simp add: bs add.commute [of n] numeral_eq_Suc)
  have p: "p = \<lparr>unitId = u, functionCode = f, payload = ?data\<rparr>"
    by (simp add: p bs)
  have "assembleRTUFrame p = take (n + 5) bs"
    unfolding p fr by (rule residue_assemble) (use crc fr in simp)
  then have "bs = assembleRTUFrame p @ rest"
    using rest by simp
  moreover have "hd ?data = ds ! 0" "?data \<noteq> []" "length ?data = n + 1"
    using ds by (cases ds; simp)+
  then have "rtu_sized p"
    using n by (simp add: p bs rtu_sized_def)
  ultimately show ?thesis ..
qed

lemma rtu_next_RtuFrame_iff:
  "rtu_next bs = RtuFrame p rest \<longleftrightarrow> bs = assembleRTUFrame p @ rest \<and> rtu_sized p"
  using rtu_next_RtuFrame rtu_next_assemble by blast

section \<open>The reading code implements the parser\<close>

text \<open>What \<open>readRTUFrame\<close> returns and leaves in the stream.\<close>

definition rtu_read :: "rtu_outcome \<Rightarrow> pdu result \<Rightarrow> byte list \<Rightarrow> bool" where
  "rtu_read out r left =
     (case out of
        RtuFrame p rest \<Rightarrow> r = Ok p \<and> left = rest
      | RtuBad e rest \<Rightarrow> r = Err e \<and> left = rest
      | Stub \<Rightarrow> r = Err ErrShortFrame
      | Silent \<Rightarrow> (case r of Inl e \<Rightarrow> \<not> framing_error e \<or> e = ErrProtocolError | Inr _ \<Rightarrow> False)
      | Cut \<Rightarrow> (case r of Inl e \<Rightarrow> \<not> framing_error e \<or> e = ErrShortFrame | Inr _ \<Rightarrow> False))"

text \<open>The buffer after the two reads, by its parts.\<close>

lemma rtu_header_buffer:
  "length got = 3 \<Longrightarrow> go_copy (replicate maxRTUFrameLength 0) got = got @ replicate 253 0"
  by (simp add: go_copy_def maxRTUFrameLength_def)

lemma rtu_body_buffer:
  "length got = 3 \<Longrightarrow> length body \<le> 253 \<Longrightarrow>
   take 3 (got @ replicate 253 0) @ go_copy (drop 3 (got @ replicate 253 0)) body
     = (got @ body) @ replicate (253 - length body) 0"
  by (simp add: go_copy_def)

lemma rtu_frame_slices:
  fixes fr :: "byte list"
  assumes "length fr = n + 5"
  shows "go_slice (fr @ zs) 0 (3 + (n + 2) - 2) = Some (take (n + 3) fr)"
    and "go_index (fr @ zs) (3 + (n + 2) - 2) = Some (fr ! (n + 3))"
    and "go_index (fr @ zs) (3 + (n + 2) - 1) = Some (fr ! (n + 4))"
    and "go_index (fr @ zs) 0 = Some (fr ! 0)" "go_index (fr @ zs) 1 = Some (fr ! 1)"
    and "go_slice (fr @ zs) 2 (3 + (n + 2) - 2) = Some (take (n + 1) (drop 2 fr))"
    and "crc_isEqual (fr ! (n + 3)) (fr ! (n + 4)) (crc_add (take (n + 3) fr) (crc_init c)) \<longleftrightarrow> crc16 fr = 0"
proof -
  obtain l h where lh: "drop (n + 3) fr = [l, h]"
    by (rule list2E [of "drop (n + 3) fr"]) (use assms in simp)
  have "fr ! (n + 3) = l" "fr ! (n + 4) = h"
    using nth_drop [of "n + 3" fr 0] nth_drop [of "n + 3" fr 1] lh assms
    by (simp_all add: add.commute)
  then have "take (n + 3) fr @ [fr ! (n + 3), fr ! (n + 4)] = fr"
    using append_take_drop_id [of "n + 3" fr] lh by simp
  then show "crc_isEqual (fr ! (n + 3)) (fr ! (n + 4)) (crc_add (take (n + 3) fr) (crc_init c))
      \<longleftrightarrow> crc16 fr = 0"
    by (simp only: crc_isEqual_residue)
qed (use assms in \<open>auto simp: go_simps nth_append eval_nat_numeral\<close>)

lemma readRTUFrame_header:
  assumes "io_ReadFull L 3 (rt_link rt) = Some ((got, None), s1)" "length got = 3"
  shows "readRTUFrame L rt =
    (case expectedResponseLenth (got ! 1) (got ! 2) of
       Inl e \<Rightarrow> Some (Err e, rt\<lparr>rt_link := s1\<rparr>)
     | Inr n \<Rightarrow>
         if 251 < n then Some (Err ErrProtocolError, rt\<lparr>rt_link := s1\<rparr>)
         else do {
           ((body, err), s2) \<leftarrow> io_ReadFull L (n + 2) s1;
           (if err \<noteq> None \<and> err \<noteq> Some ErrUnexpectedEOF then Some (Err (the err), rt\<lparr>rt_link := s2\<rparr>)
            else if length body \<noteq> n + 2 then Some (Err ErrShortFrame, rt\<lparr>rt_link := s2\<rparr>)
            else Some (if crc16 (got @ body) \<noteq> 0 then Err ErrBadCRC
                       else Ok \<lparr>unitId = (got @ body) ! 0, functionCode = (got @ body) ! 1,
                                payload = take (n + 1) (drop 2 (got @ body))\<rparr>, rt\<lparr>rt_link := s2\<rparr>)) })"
proof -
  have idx: "go_index (got @ replicate 253 0) 1 = Some (got ! 1)"
    "go_index (got @ replicate 253 0) 2 = Some (got ! 2)"
    using assms(2) by (simp_all add: go_simps nth_append)
  show ?thesis
  proof (cases "expectedResponseLenth (got ! 1) (got ! 2)")
    case (Inl e)
    then show ?thesis
      by (simp add: readRTUFrame_def assms rtu_header_buffer idx Let_def del: One_nat_def)
  next
    case (Inr n)
    show ?thesis
    proof (cases "251 < n")
      case True
      then have "maxRTUFrameLength < 3 + (n + 2)"
        by (simp add: maxRTUFrameLength_def)
      with True Inr show ?thesis
        by (simp add: readRTUFrame_def assms rtu_header_buffer idx Let_def del: One_nat_def)
    next
      case False
      then have dst: "\<exists>dst. go_slice (got @ replicate 253 0) 3 (3 + (n + 2)) = Some dst \<and> length dst = n + 2"
        using assms(2) by (simp add: go_simps)
      then obtain dst where dst: "go_slice (got @ replicate 253 0) 3 (3 + (n + 2)) = Some dst" "length dst = n + 2"
        by blast
      have max: "\<not> maxRTUFrameLength < 3 + (n + 2)"
        using False by (simp add: maxRTUFrameLength_def)
      show ?thesis
      proof (cases "io_ReadFull L (n + 2) s1")
        case None
        with False Inr dst max show ?thesis
          by (simp add: readRTUFrame_def assms rtu_header_buffer idx Let_def del: One_nat_def)
      next
        case (Some res)
        obtain body err s2 where res: "res = ((body, err), s2)"
          by (metis surj_pair)
        show ?thesis
        proof (cases "length body = n + 2")
          case False
          with \<open>\<not> 251 < n\<close> Inr dst max Some res show ?thesis
            by (simp add: readRTUFrame_def assms rtu_header_buffer idx Let_def del: One_nat_def)
        next
          case True
          then have buf: "take 3 (got @ replicate 253 0) @ go_copy (drop 3 (got @ replicate 253 0)) body
              = (got @ body) @ replicate (253 - length body) 0"
            using \<open>\<not> 251 < n\<close> assms(2) by (intro rtu_body_buffer) simp_all
          have "length (got @ body) = n + 5"
            using True assms(2) by simp
          note S = rtu_frame_slices [OF this]
          show ?thesis
            using True \<open>\<not> 251 < n\<close> Inr max
            by (simp only: readRTUFrame_def assms rtu_header_buffer idx Inr dst Some res buf Let_def
                bind.bind_lunit prod.case sum.case S if_False simp_thms) simp
        qed
      qed
    qed
  qed
qed

context byte_link begin

lemma readRTUFrame_short:
  assumes "inv (rt_link rt)" "length (avail (rt_link rt)) < 3"
  shows "\<exists>r s'. readRTUFrame L rt = Some (r, rt\<lparr>rt_link := s'\<rparr>) \<and> inv s' \<and> sent s' = sent (rt_link rt)
    \<and> rtu_read (rtu_next (avail (rt_link rt))) r (avail s')"
proof -
  let ?bs = "avail (rt_link rt)"
  obtain e s' where r: "io_ReadFull L 3 (rt_link rt) = Some ((?bs, Some e), s')"
    "inv s'" "sent s' = sent (rt_link rt)" "\<not> framing_error e"
    by (rule ReadFull_short [OF assms])
  have zeros: "go_copy (replicate maxRTUFrameLength 0) [] = replicate maxRTUFrameLength 0"
    "go_index (replicate maxRTUFrameLength 0) 1 = Some (0 :: byte)"
    "go_index (replicate maxRTUFrameLength 0) 2 = Some (0 :: byte)"
    by (simp_all only: go_copy_def maxRTUFrameLength_def) (simp_all add: go_index_def)
  show ?thesis
  proof (cases "?bs = []")
    case False
    then have "readRTUFrame L rt = Some (Err ErrShortFrame, rt\<lparr>rt_link := s'\<rparr>)"
      using r(1) assms(2) by (simp add: readRTUFrame_def Let_def)
    moreover have "rtu_next ?bs = Stub"
      using False assms(2) by (simp add: rtu_next_def)
    ultimately show ?thesis
      using r by (auto simp: rtu_read_def)
  next
    case True
    then have "readRTUFrame L rt = Some (Err (if e = ErrUnexpectedEOF then ErrProtocolError else e),
        rt\<lparr>rt_link := s'\<rparr>)"
      using r(1) by (simp add: readRTUFrame_def Let_def zeros expectedResponseLenth_def del: One_nat_def)
    moreover have "rtu_next ?bs = Silent"
      using True by (simp add: rtu_next_def)
    ultimately show ?thesis
      using r by (auto simp: rtu_read_def)
  qed
qed

lemma readRTUFrame_refines:
  assumes "inv (rt_link rt)"
  shows "\<exists>r s'. readRTUFrame L rt = Some (r, rt\<lparr>rt_link := s'\<rparr>) \<and> inv s' \<and> sent s' = sent (rt_link rt)
    \<and> rtu_read (rtu_next (avail (rt_link rt))) r (avail s')"
proof (cases "length (avail (rt_link rt)) < 3")
  case True
  with assms show ?thesis by (rule readRTUFrame_short)
next
  case False
  let ?bs = "avail (rt_link rt)"
  let ?got = "take 3 ?bs"
  have three: "3 \<le> length ?bs"
    using False by simp
  obtain s1 where s1: "io_ReadFull L 3 (rt_link rt) = Some ((?got, None), s1)"
    "inv s1" "sent s1 = sent (rt_link rt)" "avail s1 = drop 3 ?bs"
    by (rule ReadFull_ok [OF assms three]) blast
  have "length ?got = 3" "?got ! 1 = ?bs ! 1" "?got ! 2 = ?bs ! 2"
    using three by simp_all
  note H = readRTUFrame_header [OF s1(1) this(1), unfolded this(2,3)]
  have nonempty: "?bs \<noteq> []"
    using three by auto
  show ?thesis
  proof (cases "expectedResponseLenth (?bs ! 1) (?bs ! 2)")
    case (Inl e)
    with H nonempty False s1 show ?thesis
      by (auto simp: rtu_read_def rtu_next_def)
  next
    case (Inr n)
    show ?thesis
    proof (cases "251 < n")
      case True
      with Inr H nonempty False s1 show ?thesis
        by (auto simp: rtu_read_def rtu_next_def)
    next
      case n: False
      show ?thesis
      proof (cases "n + 2 \<le> length (avail s1)")
        case short: False
        then have len: "length (avail s1) < n + 2" by simp
        obtain e s' where r: "io_ReadFull L (n + 2) s1 = Some ((avail s1, Some e), s')"
          "inv s'" "sent s' = sent s1" "\<not> framing_error e"
          by (rule ReadFull_short [OF s1(2) len])
        have "readRTUFrame L rt = Some (Err (if e = ErrUnexpectedEOF then ErrShortFrame else e),
            rt\<lparr>rt_link := s'\<rparr>)"
          using short n unfolding H by (simp add: Inr r(1) del: One_nat_def add_2_eq_Suc')
        moreover have "length ?bs < n + 5"
          using short s1(4) by simp
        then have "rtu_next ?bs = Cut"
          using Inr n nonempty False by (simp add: rtu_next_def)
        ultimately show ?thesis
          using r s1 by (auto simp: rtu_read_def)
      next
        case full: True
        obtain s' where r: "io_ReadFull L (n + 2) s1 = Some ((take (n + 2) (avail s1), None), s')"
          "inv s'" "sent s' = sent s1" "avail s' = drop (n + 2) (avail s1)"
          by (rule ReadFull_ok [OF s1(2) full])
        have "n + 5 \<le> length ?bs"
          using full s1(4) three by simp
        then have nxt: "rtu_next ?bs = (if crc16 (take (n + 5) ?bs) \<noteq> 0
            then RtuBad ErrBadCRC (drop (n + 5) ?bs)
            else RtuFrame \<lparr>unitId = ?bs ! 0, functionCode = ?bs ! 1, payload = take (n + 1) (drop 2 ?bs)\<rparr>
              (drop (n + 5) ?bs))"
          using Inr n by (intro rtu_next_complete) simp_all
        have fr: "?got @ take (n + 2) (avail s1) = take (n + 5) ?bs"
          unfolding s1(4) take_add [symmetric] by (simp add: add.commute)
        have "readRTUFrame L rt = Some (if crc16 (take (n + 5) ?bs) \<noteq> 0 then Err ErrBadCRC
            else Ok \<lparr>unitId = ?bs ! 0, functionCode = ?bs ! 1, payload = take (n + 1) (drop 2 ?bs)\<rparr>,
            rt\<lparr>rt_link := s'\<rparr>)"
          using full n unfolding H by (simp add: Inr r(1) fr drop_take del: One_nat_def add_2_eq_Suc')
        moreover have "avail s' = drop (n + 5) ?bs"
          by (simp add: r(4) s1(4) add.commute)
        ultimately show ?thesis
          using r s1 nxt by (auto simp: rtu_read_def)
      qed
    qed
  qed
qed

lemma rtu_wait_ok:
  assumes "inv (rt_link rt)"
  shows "\<exists>s'. rtu_wait L rt = rt\<lparr>rt_link := s'\<rparr> \<and> inv s' \<and> sent s' = sent (rt_link rt)
    \<and> avail s' = avail (rt_link rt)"
proof (cases "time_Now L (rt_link rt) - (rt_lastActivity rt + rt_t35 rt) < 0")
  case True
  then show ?thesis
    using sleep_ok [OF assms] by (auto simp: rtu_wait_def Let_def rtu_Sleep_def)
next
  case False
  with assms show ?thesis
    by (intro exI [of _ "rt_link rt"]) (simp add: rtu_wait_def)
qed

lemma discard_ok:
  assumes "inv s"
  shows "\<exists>s'. discard L s = Some s' \<and> inv s' \<and> sent s' = sent s
    \<and> (1024 \<le> length (avail s) \<longrightarrow> avail s' = drop 1024 (avail s))"
proof -
  obtain s1 where s1: "link_SetDeadline L (time_Now L s + 500 * 1000) s = (Ok (), s1)"
    "inv s1" "sent s1 = sent s" "avail s1 = avail s"
    using deadline_ok [OF assms] by blast
  obtain bs e s2 where s2: "io_ReadFull L 1024 s1 = Some ((bs, e), s2)" "inv s2" "sent s2 = sent s1"
    "e = None \<longrightarrow> length bs = 1024 \<and> avail s1 = bs @ avail s2" "e \<noteq> None \<longrightarrow> length bs < 1024 \<and> bs = avail s1"
    using ReadFull_returns [OF s1(2)] by blast
  have "avail s2 = drop 1024 (avail s)" if "1024 \<le> length (avail s)"
  proof (cases e)
    case None
    with s1(4) s2(4) have "avail s = bs @ avail s2" "length bs = 1024"
      by simp_all
    then show ?thesis by simp
  qed (use that s1(4) s2(5) in auto)
  with s1 s2 show ?thesis
    by (auto simp: discard_def Let_def)
qed

lemma rtu_finish_ok:
  assumes "inv (rt_link rt)"
  shows "\<exists>s' t. rtu_finish L r rt = Some (r, rt\<lparr>rt_lastActivity := t, rt_link := s'\<rparr>) \<and> inv s'
    \<and> sent s' = sent (rt_link rt)
    \<and> (if r \<in> {Err ErrBadCRC, Err ErrProtocolError, Err ErrShortFrame}
       then 1024 \<le> length (avail (rt_link rt)) \<longrightarrow> avail s' = drop 1024 (avail (rt_link rt))
       else avail s' = avail (rt_link rt))"
proof (cases "r \<in> {Err ErrBadCRC, Err ErrProtocolError, Err ErrShortFrame}")
  case True
  let ?s = "time_Sleep L (int maxRTUFrameLength * rt_t1 rt) (rt_link rt)"
  have s: "inv ?s" "sent ?s = sent (rt_link rt)" "avail ?s = avail (rt_link rt)"
    using sleep_ok [OF assms] by blast+
  obtain s' where s': "discard L ?s = Some s'" "inv s'" "sent s' = sent ?s"
    "1024 \<le> length (avail ?s) \<longrightarrow> avail s' = drop 1024 (avail ?s)"
    using discard_ok [OF s(1)] by blast
  with True s show ?thesis
    by (intro exI [of _ s'] exI [of _ "time_Now L s'"]) (auto simp: rtu_finish_def rtu_Sleep_def Let_def)
next
  case False
  with assms show ?thesis
    by (intro exI [of _ "rt_link rt"]
        exI [of _ "if r \<noteq> Err ErrRequestTimedOut then time_Now L (rt_link rt) else rt_lastActivity rt"])
      (auto simp: rtu_finish_def)
qed

lemma rtu_ExecuteRequest_refines:
  assumes "inv (rt_link rt)"
  shows "\<exists>r s' t left. rtu_ExecuteRequest L req rt = Some (r, rt\<lparr>rt_lastActivity := t, rt_link := s'\<rparr>)
    \<and> inv s' \<and> sent s' = sent (rt_link rt) @ assembleRTUFrame req
    \<and> rtu_read (rtu_next (avail (rt_link rt))) r left
    \<and> (if r \<in> {Err ErrBadCRC, Err ErrProtocolError, Err ErrShortFrame}
       then 1024 \<le> length left \<longrightarrow> avail s' = drop 1024 left else avail s' = left)"
proof -
  let ?s = "rt_link rt"
  obtain s1 where s1: "link_SetDeadline L (time_Now L ?s + rt_timeout rt) ?s = (Ok (), s1)"
    "inv s1" "sent s1 = sent ?s" "avail s1 = avail ?s"
    using deadline_ok [OF assms] by blast
  obtain s2 where s2: "rtu_wait L (rt\<lparr>rt_link := s1\<rparr>) = rt\<lparr>rt_link := s2\<rparr>"
    "inv s2" "sent s2 = sent ?s" "avail s2 = avail ?s"
    using rtu_wait_ok [of "rt\<lparr>rt_link := s1\<rparr>"] s1 by auto
  let ?f = "assembleRTUFrame req"
  obtain s3 where s3: "link_Write L ?f s2 = ((length ?f, None), s3)"
    "inv s3" "sent s3 = sent ?s @ ?f" "avail s3 = avail ?s"
    using write_ok [OF s2(2)] s2(3,4) by metis
  let ?t = "time_Now L s2 + int (length ?f) * rt_t1 rt"
  let ?s4 = "time_Sleep L (?t + rt_t35 rt - time_Now L s3) s3"
  have s4: "inv ?s4" "sent ?s4 = sent ?s @ ?f" "avail ?s4 = avail ?s"
    using sleep_ok [OF s3(2)] s3(3,4) by auto
  let ?rt = "rt\<lparr>rt_lastActivity := ?t, rt_link := ?s4\<rparr>"
  obtain r s5 where s5: "readRTUFrame L ?rt = Some (r, ?rt\<lparr>rt_link := s5\<rparr>)" "inv s5"
    "sent s5 = sent ?s @ ?f" "rtu_read (rtu_next (avail ?s)) r (avail s5)"
    using readRTUFrame_refines [of ?rt] s4 by auto
  have x: "rtu_ExecuteRequest L req rt = rtu_finish L r (?rt\<lparr>rt_link := s5\<rparr>)"
    using s1(1) s2(1) s3(1) s5(1)
    by (simp add: rtu_ExecuteRequest_def rtu_SetDeadline_def rtu_Sleep_def Let_def)
  obtain s' t where f: "rtu_finish L r (?rt\<lparr>rt_link := s5\<rparr>) =
      Some (r, ?rt\<lparr>rt_link := s5\<rparr>\<lparr>rt_lastActivity := t, rt_link := s'\<rparr>)" "inv s'" "sent s' = sent s5"
    "if r \<in> {Err ErrBadCRC, Err ErrProtocolError, Err ErrShortFrame}
       then 1024 \<le> length (avail s5) \<longrightarrow> avail s' = drop 1024 (avail s5) else avail s' = avail s5"
    using rtu_finish_ok [of "?rt\<lparr>rt_link := s5\<rparr>" r] s5(2) by auto
  have "?rt\<lparr>rt_link := s5\<rparr>\<lparr>rt_lastActivity := t, rt_link := s'\<rparr> = rt\<lparr>rt_lastActivity := t, rt_link := s'\<rparr>"
    by simp
  with f s5 x show ?thesis by metis
qed

end

context timed_link begin

lemma discard_clock:
  assumes "inv s" "discard L s = Some s'"
  shows "time_Now L s \<le> time_Now L s'"
proof -
  obtain s1 where s1: "link_SetDeadline L (time_Now L s + 500 * 1000) s = (Ok (), s1)" "inv s1"
    using deadline_ok [OF assms(1)] by blast
  with assms(2) obtain q where "io_ReadFull L 1024 s1 = Some (q, s')"
    by (auto simp: discard_def Let_def split: bind_splits)
  with s1 show ?thesis
    using deadline_clock [OF assms(1) s1(1)] ReadFull_clock [OF s1(2)] by fastforce
qed

lemma rtu_wait_clock:
  assumes "inv (rt_link rt)"
  shows "max (time_Now L (rt_link rt)) (rt_lastActivity rt + rt_t35 rt) \<le> time_Now L (rt_link (rtu_wait L rt))"
  using sleep_clock [OF assms, of "rt_lastActivity rt + rt_t35 rt - time_Now L (rt_link rt)"]
  by (simp add: rtu_wait_def Let_def rtu_Sleep_def)

lemma readRTUFrame_clock:
  assumes "inv (rt_link rt)" "readRTUFrame L rt = Some (r, rt')"
  shows "time_Now L (rt_link rt) \<le> time_Now L (rt_link rt')"
proof -
  obtain got err s1 where s1: "io_ReadFull L 3 (rt_link rt) = Some ((got, err), s1)" "inv s1"
    using ReadFull_returns [OF assms(1)] by blast
  note C1 = ReadFull_clock [OF assms(1) s1(1)]
  have "rt_link rt' = s1 \<or> (\<exists>n q. io_ReadFull L n s1 = Some (q, rt_link rt'))"
    using assms(2) s1(1)
    by (auto simp: readRTUFrame_def Let_def split: bind_splits if_splits sum.splits prod.splits)
  with C1 ReadFull_clock [OF s1(2)] show ?thesis
    by fastforce
qed

lemma rtu_finish_clock:
  assumes "inv (rt_link rt)" "rtu_finish L r rt = Some (r', rt')"
  shows "time_Now L (rt_link rt) \<le> time_Now L (rt_link rt')"
    and "r' = r"
    and "r \<noteq> Err ErrRequestTimedOut \<Longrightarrow> rt_lastActivity rt' = time_Now L (rt_link rt')"
proof -
  let ?s = "time_Sleep L (int maxRTUFrameLength * rt_t1 rt) (rt_link rt)"
  have "inv ?s" "time_Now L (rt_link rt) \<le> time_Now L ?s"
    using sleep_ok [OF assms(1)] sleep_clock [OF assms(1)] by blast+
  with assms(2) show "time_Now L (rt_link rt) \<le> time_Now L (rt_link rt')"
    using discard_clock [of ?s]
    by (fastforce simp: rtu_finish_def rtu_Sleep_def Let_def split: bind_splits if_splits)
qed (use assms(2) in \<open>auto simp: rtu_finish_def split: bind_splits if_splits\<close>)

lemma rtu_ExecuteRequest_clock:
  assumes "inv (rt_link rt)" "rtu_ExecuteRequest L req rt = Some (r, rt')"
  shows "max (time_Now L (rt_link rt)) (rt_lastActivity rt + rt_t35 rt)
      + int (length (assembleRTUFrame req)) * rt_t1 rt + rt_t35 rt \<le> time_Now L (rt_link rt')"
    and "r \<noteq> Err ErrRequestTimedOut \<Longrightarrow> rt_lastActivity rt' = time_Now L (rt_link rt')"
proof -
  let ?s = "rt_link rt"
  obtain s1 where s1: "link_SetDeadline L (time_Now L ?s + rt_timeout rt) ?s = (Ok (), s1)" "inv s1"
    using deadline_ok [OF assms(1)] by blast
  obtain s2 where s2: "rtu_wait L (rt\<lparr>rt_link := s1\<rparr>) = rt\<lparr>rt_link := s2\<rparr>" "inv s2"
    using rtu_wait_ok [of "rt\<lparr>rt_link := s1\<rparr>"] s1 by auto
  let ?f = "assembleRTUFrame req"
  let ?t = "time_Now L s2 + int (length ?f) * rt_t1 rt"
  obtain s3 where s3: "link_Write L ?f s2 = ((length ?f, None), s3)" "inv s3"
    using write_ok [OF s2(2)] by metis
  let ?s4 = "time_Sleep L (?t + rt_t35 rt - time_Now L s3) s3"
  have s4: "inv ?s4" "?t + rt_t35 rt \<le> time_Now L ?s4"
    using sleep_ok [OF s3(2)] sleep_clock [OF s3(2), of "?t + rt_t35 rt - time_Now L s3"] by auto
  let ?rt = "rt\<lparr>rt_lastActivity := ?t, rt_link := ?s4\<rparr>"
  obtain q s5 where s5: "readRTUFrame L ?rt = Some (q, ?rt\<lparr>rt_link := s5\<rparr>)" "inv s5"
    using readRTUFrame_refines [of ?rt] s4 by auto
  have x: "rtu_finish L q (?rt\<lparr>rt_link := s5\<rparr>) = Some (r, rt')"
    using s1(1) s2(1) s3(1) s5(1) assms(2)
    by (simp add: rtu_ExecuteRequest_def rtu_SetDeadline_def rtu_Sleep_def Let_def)
  have i5: "inv (rt_link (?rt\<lparr>rt_link := s5\<rparr>))"
    using s5(2) by simp
  note F = rtu_finish_clock [OF i5 x]
  have "max (time_Now L ?s) (rt_lastActivity rt + rt_t35 rt) \<le> time_Now L s2"
    using rtu_wait_clock [of "rt\<lparr>rt_link := s1\<rparr>"] s1 s2 deadline_clock [OF assms(1) s1(1)] by simp
  moreover have "time_Now L ?s4 \<le> time_Now L s5"
    using readRTUFrame_clock [OF _ s5(1)] s4 by simp
  ultimately show "max (time_Now L ?s) (rt_lastActivity rt + rt_t35 rt)
      + int (length ?f) * rt_t1 rt + rt_t35 rt \<le> time_Now L (rt_link rt')"
    using F(1) [simplified] s4(2) by linarith
  show "r \<noteq> Err ErrRequestTimedOut \<Longrightarrow> rt_lastActivity rt' = time_Now L (rt_link rt')"
    using F(2,3) by simp
qed

text \<open>The same on a link that records: one write, after the silence, and reads after the next silence.\<close>

lemma discard_traced:
  assumes "from_time T s" "discard L s = Some s'"
  shows "from_time T s' \<and> (\<exists>reads. discard (traced L) (s, log) = Some (s', log @ map Asked reads) \<and> list_all (\<lambda>u. T \<le> u) reads)"
proof -
  obtain s1 where s1: "link_SetDeadline L (time_Now L s + 500 * 1000) s = (Ok (), s1)" "inv s1"
    using deadline_ok assms(1) by blast
  with assms obtain q where q: "io_ReadFull L 1024 s1 = Some (q, s')"
    by (auto simp: discard_def Let_def split: bind_splits)
  have "from_time T s1"
    using s1 deadline_clock [OF _ s1(1)] assms(1) by fastforce
  from ReadFull_traced [OF this, of log 1024] q s1(1) show ?thesis
    by (auto simp: tracks_def discard_def)
qed

lemma readRTUFrame_traced:
  assumes "from_time T (rt_link rt)"
  shows "tracks (\<lambda>rt. from_time T (rt_link rt)) recorded T log
    (readRTUFrame L rt) (readRTUFrame (traced L) (recorded log rt))"
  unfolding readRTUFrame_def Let_def recorded_simps
  by (rule tracks_read tracks_Some tracks_if tracks_sum tracks_bind assms recorded_simps(6) | simp)+

lemma rtu_finish_traced:
  assumes "from_time T (rt_link rt)"
  shows "tracks (\<lambda>rt. from_time T (rt_link rt)) recorded T log
    (rtu_finish L r rt) (rtu_finish (traced L) r (recorded log rt))"
proof -
  let ?s = "time_Sleep L (int maxRTUFrameLength * rt_t1 rt) (rt_link rt)"
  have s: "from_time T ?s"
    using assms sleep_ok [of "rt_link rt"] sleep_clock [of "rt_link rt"] by (meson order_trans)
  show ?thesis
    unfolding tracks_def
  proof (intro allI impI)
    fix q t
    assume f: "rtu_finish L r rt = Some (q, t)"
    show "from_time T (rt_link t) \<and> (\<exists>reads. rtu_finish (traced L) r (recorded log rt)
        = Some (q, recorded (log @ map Asked reads) t) \<and> list_all (\<lambda>u. T \<le> u) reads)"
    proof (cases "r = Err ErrBadCRC \<or> r = Err ErrProtocolError \<or> r = Err ErrShortFrame")
      case True
      with f obtain s' where d: "discard L ?s = Some s'" "q = r" "t = rt\<lparr>rt_link := s', rt_lastActivity := time_Now L s'\<rparr>"
        by (auto simp: rtu_finish_def rtu_Sleep_def Let_def bind_eq_Some_conv)
      from discard_traced [OF s d(1), of log] True d(2,3) show ?thesis
        by (auto simp: rtu_finish_def rtu_Sleep_def Let_def)
    next
      case False
      with f assms show ?thesis
        by (auto simp: rtu_finish_def intro!: exI [of _ "[]"])
    qed
  qed
qed

lemma rtu_ExecuteRequest_traced:
  assumes "inv (rt_link rt)" "rtu_ExecuteRequest L req rt = Some (r, rt')"
  shows "\<exists>t reads. rtu_ExecuteRequest (traced L) req (recorded [] rt)
      = Some (r, recorded (Wrote t (assembleRTUFrame req) # map Asked reads) rt')
    \<and> max (time_Now L (rt_link rt)) (rt_lastActivity rt + rt_t35 rt) \<le> t
    \<and> list_all (\<lambda>u. t + int (length (assembleRTUFrame req)) * rt_t1 rt + rt_t35 rt \<le> u) reads"
proof -
  let ?s = "rt_link rt" and ?f = "assembleRTUFrame req"
  obtain s1 where s1: "link_SetDeadline L (time_Now L ?s + rt_timeout rt) ?s = (Ok (), s1)" "inv s1"
    using deadline_ok [OF assms(1)] by blast
  obtain s2 where s2: "rtu_wait L (rt\<lparr>rt_link := s1\<rparr>) = rt\<lparr>rt_link := s2\<rparr>" "inv s2"
    using rtu_wait_ok [of "rt\<lparr>rt_link := s1\<rparr>"] s1 by auto
  have w2: "rtu_wait (traced L) (recorded log rt) = recorded log (rtu_wait L rt)" for log and rt :: "'a rtuTransport"
    by (simp add: rtu_wait_def Let_def rtu_Sleep_def)
  let ?w = "time_Now L s2"
  let ?t = "?w + int (length ?f) * rt_t1 rt"
  obtain s3 where s3: "link_Write L ?f s2 = ((length ?f, None), s3)" "inv s3"
    using write_ok [OF s2(2)] by metis
  let ?s4 = "time_Sleep L (?t + rt_t35 rt - time_Now L s3) s3"
  have s4: "from_time (?t + rt_t35 rt) ?s4"
    using sleep_ok [OF s3(2)] sleep_clock [OF s3(2), of "?t + rt_t35 rt - time_Now L s3"] by auto
  let ?rt = "rt\<lparr>rt_lastActivity := ?t, rt_link := ?s4\<rparr>" and ?log = "[Wrote ?w ?f]"
  have plain: "rtu_ExecuteRequest L req rt = readRTUFrame L ?rt \<bind> (\<lambda>(q, rt5). rtu_finish L q rt5)"
    using s1(1) s2(1) s3(1) by (simp add: rtu_ExecuteRequest_def rtu_SetDeadline_def rtu_Sleep_def Let_def)
  have recorded: "rtu_ExecuteRequest (traced L) req (recorded [] rt)
      = readRTUFrame (traced L) (recorded ?log ?rt) \<bind> (\<lambda>(q, rt5). rtu_finish (traced L) q rt5)"
    using s1(1) s3(1) by (simp add: rtu_ExecuteRequest_def rtu_SetDeadline_def rtu_Sleep_def Let_def w2 s2(1))
  have "tracks (\<lambda>x. from_time (?t + rt_t35 rt) (rt_link x)) recorded (?t + rt_t35 rt) ?log
      (rtu_ExecuteRequest L req rt) (rtu_ExecuteRequest (traced L) req (recorded [] rt))"
    unfolding plain recorded
    by (rule tracks_state [OF readRTUFrame_traced]) (use s4 rtu_finish_traced in \<open>simp_all del: recorded_simps\<close>)
  with assms(2) obtain reads where "rtu_ExecuteRequest (traced L) req (recorded [] rt)
      = Some (r, recorded (?log @ map Asked reads) rt')" "list_all (\<lambda>u. ?t + rt_t35 rt \<le> u) reads"
    unfolding tracks_def by blast
  moreover have "max (time_Now L ?s) (rt_lastActivity rt + rt_t35 rt) \<le> ?w"
    using rtu_wait_clock [of "rt\<lparr>rt_link := s1\<rparr>"] s1 s2 deadline_clock [OF assms(1) s1(1)] by simp
  ultimately show ?thesis by auto
qed

end

section \<open>The RTU transport over sockets\<close>

interpretation rtu: transport_contract "rtuTransportOps sockLink" "\<lambda>rt. sock_inv (rt_link rt)"
    "\<lambda>rt. tx (rt_link rt)" "\<lambda>req rt. assembleRTUFrame req"
proof
  fix rt :: "sock rtuTransport" and req
  assume "sock_inv (rt_link rt)"
  from tcp_sock.rtu_ExecuteRequest_refines [OF this, of req]
  show "\<exists>r rt'. t_ExecuteRequest (rtuTransportOps sockLink) req rt = Some (r, rt') \<and> sock_inv (rt_link rt')
      \<and> tx (rt_link rt') = tx (rt_link rt) @ assembleRTUFrame req"
    by (auto simp: rtuTransportOps_def)
qed

text \<open>
  C15: the RTU reader and the RTU assembler agree.  From an open connection, \<open>readRTUFrame\<close> returns
  the PDU \<open>p\<close> and leaves \<open>rest\<close> unread exactly when the waiting bytes are the assembled frame
  followed by \<open>rest\<close> and the frame has the length its function code and first payload byte
  announce: the CRC in the frame is then the right one, and no byte of the next frame is eaten.
\<close>

theorem rtu_frame_roundtrip:
  assumes "sock_inv (rt_link rt)"
  shows "(\<exists>rt'. readRTUFrame sockLink rt = Some (Ok p, rt') \<and> sock_avail (rt_link rt') = rest)
    \<longleftrightarrow> sock_avail (rt_link rt) = assembleRTUFrame p @ rest \<and> rtu_sized p"
proof -
  obtain r s' where r: "readRTUFrame sockLink rt = Some (r, rt\<lparr>rt_link := s'\<rparr>)"
    "rtu_read (rtu_next (sock_avail (rt_link rt))) r (sock_avail s')"
    using tcp_sock.readRTUFrame_refines [OF assms] by blast
  from r(2) have "r = Ok p \<and> sock_avail s' = rest \<longleftrightarrow> rtu_next (sock_avail (rt_link rt)) = RtuFrame p rest"
    by (auto simp: rtu_read_def split: rtu_outcome.splits sum.splits)
  with r(1) show ?thesis
    by (auto simp: rtu_next_RtuFrame_iff [symmetric])
qed

definition demo_rtu :: "byte list list \<Rightarrow> sock rtuTransport" where
  "demo_rtu segs =
     \<lparr>rt_link = \<lparr>rx = segs, rx_end = ErrDeadlineExceeded, tx = [], is_open = True, sock_deadline = 0, clock = 0\<rparr>,
      rt_timeout = 1000000000, rt_lastActivity = 0, rt_t35 = 1750000, rt_t1 = 572916\<rparr>"

lemma demo_rtu_simps [simp]:
  "sock_inv (rt_link (demo_rtu segs))"
  "sock_avail (rt_link (demo_rtu segs)) = concat segs"
  by (simp_all add: demo_rtu_def sock_inv_def framing_error_def sock_avail_def)

definition demo_response :: pdu where
  "demo_response = \<lparr>unitId = 0x11, functionCode = fcReadHoldingRegisters, payload = [2, 0x12, 0x34]\<rparr>"

lemma demo_response_sized: "rtu_sized demo_response"
  by (simp add: rtu_sized_def demo_response_def expectedResponseLenth_def)

theorem rtu_frame_roundtrip_witness:
  "sock_inv (rt_link (demo_rtu [assembleRTUFrame demo_response, [9]]))
   \<and> (\<exists>rt'. readRTUFrame sockLink (demo_rtu [assembleRTUFrame demo_response, [9]]) = Some (Ok demo_response, rt')
        \<and> sock_avail (rt_link rt') = [9])"
  using rtu_frame_roundtrip [of "demo_rtu [assembleRTUFrame demo_response, [9]]" demo_response "[9]"]
    demo_response_sized by simp

text \<open>
  C16: a corrupted response is never taken for data.  When two adjacent bytes of an assembled frame
  (any two, or one of them alone) arrive changed, and the length announced is still that of the
  frame, \<open>readRTUFrame\<close> consumes the frame and reports \<open>ErrBadCRC\<close>.
\<close>

theorem rtu_corruption_detected:
  assumes "sock_inv (rt_link rt)" and "rtu_sized p"
    and "assembleRTUFrame p = xs @ a # b # ys" and "(a', b') \<noteq> (a, b)"
    and "sock_avail (rt_link rt) = (xs @ a' # b' # ys) @ rest"
    and "expectedResponseLenth ((xs @ a' # b' # ys) ! 1) ((xs @ a' # b' # ys) ! 2) = Ok (length (payload p) - 1)"
  shows "\<exists>rt'. readRTUFrame sockLink rt = Some (Err ErrBadCRC, rt') \<and> sock_avail (rt_link rt') = rest"
proof -
  let ?f = "xs @ a' # b' # ys" and ?n = "length (payload p) - 1"
  have n: "?n + 5 = length ?f" "?n \<le> 251"
    using assms(2) arg_cong [OF assms(3), of length] by (auto simp: rtu_sized_def Suc_le_eq)
  have hdr: "1 < length ?f" "2 < length ?f"
    using n(1) by linarith+
  have "crc16 (xs @ a # b # ys) = 0"
    using crc16_assemble [of p] by (simp add: assms(3))
  then have crc: "crc16 ?f \<noteq> 0"
    using crc16_burst [of xs a b ys a' b'] assms(4) by auto
  have "expectedResponseLenth ((?f @ rest) ! 1) ((?f @ rest) ! 2) = Ok ?n"
    using assms(6) by (simp only: nth_append [of ?f rest] hdr if_True)
  moreover have "?n + 5 \<le> length (?f @ rest)"
    unfolding n(1) by simp
  moreover have parts: "take (?n + 5) (?f @ rest) = ?f" "drop (?n + 5) (?f @ rest) = rest"
    unfolding n(1) by simp_all
  ultimately have "rtu_next (?f @ rest) = RtuBad ErrBadCRC rest"
    using rtu_next_complete [of "?f @ rest" ?n] n(2) crc by (simp only: parts if_True simp_thms)
  with tcp_sock.readRTUFrame_refines [OF assms(1)] show ?thesis
    unfolding assms(5) by (auto simp: rtu_read_def)
qed

theorem rtu_corruption_detected_witness:
  "\<exists>rt'. readRTUFrame sockLink (demo_rtu [[0x11, 3, 2, 0x13, 0x34] @ drop 5 (assembleRTUFrame demo_response)])
      = Some (Err ErrBadCRC, rt')"
proof -
  let ?ys = "drop 5 (assembleRTUFrame demo_response)"
  have "assembleRTUFrame demo_response = [0x11, 3, 2] @ 0x12 # 0x34 # ?ys"
    by (simp add: assembleRTUFrame_def demo_response_def)
  from rtu_corruption_detected [OF demo_rtu_simps(1) [of "[[0x11, 3, 2, 0x13, 0x34] @ ?ys]"]
      demo_response_sized this, where a' = "0x13" and b' = "0x34" and rest = "[]"]
  show ?thesis
    by (auto simp: expectedResponseLenth_def demo_response_def)
qed

text \<open>
  C17: the RTU client keeps the line's silent intervals.  A request always returns.  On a socket that records
  what is done with it and when, the request is a single write, of its frame, at a time \<open>t\<close> when t3.5 has passed
  since the last activity, and reads that all come later than \<open>t\<close> plus the estimated transmission time of
  the frame plus another t3.5.  The activity mark is then the clock, so the next request waits again.
\<close>

theorem rtu_line_silence:
  assumes "sock_inv (rt_link rt)"
  shows "\<exists>r rt' t reads. rtu_ExecuteRequest sockLink req rt = Some (r, rt') \<and> sock_inv (rt_link rt')
    \<and> tx (rt_link rt') = tx (rt_link rt) @ assembleRTUFrame req
    \<and> max (clock (rt_link rt)) (rt_lastActivity rt + rt_t35 rt)
        + int (length (assembleRTUFrame req)) * rt_t1 rt + rt_t35 rt \<le> clock (rt_link rt')
    \<and> (r = Err ErrRequestTimedOut \<or> rt_lastActivity rt' = clock (rt_link rt'))
    \<and> rt_t1 rt' = rt_t1 rt \<and> rt_t35 rt' = rt_t35 rt
    \<and> rtu_ExecuteRequest (traced sockLink) req (recorded [] rt)
        = Some (r, recorded (Wrote t (assembleRTUFrame req) # map Asked reads) rt')
    \<and> max (clock (rt_link rt)) (rt_lastActivity rt + rt_t35 rt) \<le> t
    \<and> list_all (\<lambda>u. t + int (length (assembleRTUFrame req)) * rt_t1 rt + rt_t35 rt \<le> u) reads"
proof -
  obtain r s' t where r: "rtu_ExecuteRequest sockLink req rt = Some (r, rt\<lparr>rt_lastActivity := t, rt_link := s'\<rparr>)"
    "sock_inv s'" "tx s' = tx (rt_link rt) @ assembleRTUFrame req"
    using tcp_sock.rtu_ExecuteRequest_refines [OF assms] by blast
  have now: "time_Now sockLink = clock"
    by (simp add: sockLink_def)
  note C = tcp_clock.rtu_ExecuteRequest_clock [OF assms r(1), unfolded now]
  obtain w reads where w: "rtu_ExecuteRequest (traced sockLink) req (recorded [] rt)
      = Some (r, recorded (Wrote w (assembleRTUFrame req) # map Asked reads) (rt\<lparr>rt_lastActivity := t, rt_link := s'\<rparr>))"
    "max (clock (rt_link rt)) (rt_lastActivity rt + rt_t35 rt) \<le> w"
    "list_all (\<lambda>u. w + int (length (assembleRTUFrame req)) * rt_t1 rt + rt_t35 rt \<le> u) reads"
    using tcp_clock.rtu_ExecuteRequest_traced [OF assms r(1), unfolded now] by blast
  show ?thesis
    using r C w
    by (intro exI [of _ r] exI [of _ "rt\<lparr>rt_lastActivity := t, rt_link := s'\<rparr>"] exI [of _ w] exI [of _ reads]) auto
qed

theorem rtu_line_silence_witness:
  "\<exists>r rt' t reads. rtu_ExecuteRequest (traced sockLink) demo_response (recorded [] (demo_rtu []))
      = Some (r, recorded (Wrote t (assembleRTUFrame demo_response) # map Asked reads) rt')
     \<and> 1750000 \<le> t \<and> list_all (\<lambda>u. 1750000 + 7 * 572916 + 1750000 \<le> u) reads"
proof -
  let ?rt = "demo_rtu []"
  have len: "length (assembleRTUFrame demo_response) = 7"
    by (simp add: demo_response_def)
  have demo: "clock (rt_link ?rt) = 0" "rt_lastActivity ?rt = 0" "rt_t35 ?rt = 1750000" "rt_t1 ?rt = 572916"
    by (simp_all add: demo_rtu_def)
  obtain r rt' t reads where w: "rtu_ExecuteRequest (traced sockLink) demo_response (recorded [] ?rt)
      = Some (r, recorded (Wrote t (assembleRTUFrame demo_response) # map Asked reads) rt')"
    "1750000 \<le> t" "list_all (\<lambda>u. t + 7 * 572916 + 1750000 \<le> u) reads"
    using rtu_line_silence [OF demo_rtu_simps(1) [of "[]"], of demo_response] unfolding demo len by auto
  from w(3) have "list_all (\<lambda>u. 1750000 + 7 * 572916 + 1750000 \<le> u) reads"
    by (rule list.pred_mono_strong) (use w(2) in simp)
  with w(1,2) show ?thesis by blast
qed

lemma sdiv_nonneg: "0 \<le> a \<Longrightarrow> 0 < b \<Longrightarrow> a sdiv b = (a div b :: int)"
  by (cases "a = 0") (simp_all add: signed_divide_int_def)

text \<open>
  The character time and the silent interval of \<open>newRTUTransport\<close>.  It panics on rate 0 only; for
  every other rate below 2^63 one character of 11 bits takes the longest whole number of
  nanoseconds that fits 11 bits at that rate, and t3.5 is 1750 microseconds from 19200 baud on, and
  3.5 character times (rounded down) below.
\<close>

lemma rtu_timing:
  assumes "unat rate < 2 ^ 63"
  shows "if rate = 0 then newRTUTransport link rate timeout = None
    else \<exists>rt. newRTUTransport link rate timeout = Some rt
      \<and> rt_t1 rt * int (unat rate) \<le> 11 * 10 ^ 9 \<and> 11 * 10 ^ 9 < (rt_t1 rt + 1) * int (unat rate)
      \<and> (if 19200 \<le> unat rate then rt_t35 rt = 1750 * 10 ^ 3
         else 10 * rt_t35 rt \<le> 35 * rt_t1 rt \<and> 35 * rt_t1 rt < 10 * rt_t35 rt + 10)"
proof (cases "rate = 0")
  case True
  then show ?thesis
    by (simp add: newRTUTransport_def serialCharTime_def)
next
  case False
  define n where "n = int (unat rate)"
  let ?t1 = "11 * 1000000000 div n"
  have n: "0 < n"
    using False unsigned_eq_0_iff [where 'a = nat, of rate] unfolding n_def by linarith
  have "int (unat rate) < int (2 ^ 63)"
    using assms by (simp only: of_nat_less_iff)
  then have "uint rate < 2 ^ 63"
    by simp
  then have "signed_take_bit 63 (uint rate) = uint rate"
  proof (intro signed_take_bit_int_eq_self)
    have "0 \<le> uint rate"
      by simp
    then show "- (2 ^ 63) \<le> uint rate"
      by (rule order_trans [rotated]) simp
  qed assumption
  then have s: "sint rate = n"
    by (simp add: sint_uint n_def)
  have t1: "serialCharTime rate = Some ?t1"
    using False n by (simp add: serialCharTime_def s sdiv_nonneg)
  have fast: "19200 \<le> rate \<longleftrightarrow> 19200 \<le> unat rate"
    by (simp add: word_le_nat_alt)
  have second: "(10 :: int) ^ 9 = 1000000000"
    by simp
  have len: "?t1 * n \<le> 11 * 10 ^ 9" "11 * 10 ^ 9 < (?t1 + 1) * n"
    unfolding second distrib_right
    using div_mult_mod_eq [of "11 * 1000000000" n] pos_mod_bound [OF n, of "11 * 1000000000"]
      pos_mod_sign [OF n, of "11 * 1000000000"] by linarith+
  have "0 \<le> ?t1"
    using n by (simp add: div_int_pos_iff)
  then have slow: "?t1 * 35 sdiv 10 = ?t1 * 35 div 10"
    by (intro sdiv_nonneg) simp_all
  have rt: "newRTUTransport link rate timeout = Some \<lparr>rt_link = link, rt_timeout = timeout,
      rt_lastActivity = zeroTime, rt_t35 = (if 19200 \<le> unat rate then 1750 * 1000 else ?t1 * 35 div 10),
      rt_t1 = ?t1\<rparr>"
    by (simp only: newRTUTransport_def t1 fast slow bind.bind_lunit) simp
  have tenths: "10 * (t * 35 div 10) \<le> 35 * t \<and> 35 * t < 10 * (t * 35 div 10) + 10" for t :: int
    by presburger
  show ?thesis
    using False tenths [of ?t1] len
    by (simp only: rt n_def [symmetric] if_False option.inject ex_simps simp_thms rtuTransport.simps)
      (simp split: if_splits)
qed

lemma rtu_timing_witness:
  "unat (9600 :: uint) < 2 ^ 63
   \<and> (\<exists>rt. newRTUTransport () 9600 0 = Some rt \<and> 10 * rt_t35 rt \<le> 35 * rt_t1 rt
        \<and> rt_t1 rt * 9600 \<le> 11 * 10 ^ 9)"
  using rtu_timing [of 9600 "()" 0] by auto

end
