(* ===== verification/Client_Calls.thy ===== *)
theory Client_Calls
  imports Client Tcp_Transport Rtu_Transport
begin

text \<open>
  The client over the transports of the program: whatever the methods are called with, they come
  back, leave the client usable and send at most one request.  Proved once for any transport with
  the contract of Modbus_Pdu and applied to the three that have it.
\<close>

section \<open>The invariant of an open client\<close>

definition client_inv :: "('t \<Rightarrow> bool) \<Rightarrow> ('c, 'p, 't) ModbusClient \<Rightarrow> bool" where
  "client_inv tinv mc \<longleftrightarrow> valid_encoding (mc_endianness mc) (mc_wordOrder mc)
     \<and> (\<exists>t. mc_transport mc = Some t \<and> tinv t)"

text \<open>A method comes back: with the client as it was, but for its transport.\<close>

definition comes_back ::
  "('t \<Rightarrow> bool) \<Rightarrow> ('t \<Rightarrow> byte list) \<Rightarrow> (pdu \<Rightarrow> 't \<Rightarrow> byte list) \<Rightarrow> 't \<Rightarrow> ('c, 'p, 't) ModbusClient
    \<Rightarrow> ('a \<times> ('c, 'p, 't) ModbusClient) option \<Rightarrow> bool" where
  "comes_back tinv wire framed t0 mc x \<longleftrightarrow>
     (\<exists>r t. x = Some (r, mc\<lparr>mc_transport := Some t\<rparr>) \<and> tinv t
       \<and> (wire t = wire t0 \<or> (\<exists>req. wire t = wire t0 @ framed req t0)))"

lemma comes_back_map [simp]:
  "comes_back tinv wire framed t0 mc (map_option (apfst f) x) = comes_back tinv wire framed t0 mc x"
  by (cases x) (auto simp: comes_back_def apfst_def map_prod_def split: prod.splits)

lemma comes_back_refused:
  "mc_transport mc = Some t \<Longrightarrow> tinv t \<Longrightarrow> comes_back tinv wire framed t mc (Some (r, mc))"
  by (auto simp: comes_back_def intro!: exI [of _ t])

lemma comes_back_on_ok:
  assumes "comes_back tinv wire framed t0 mc x" "\<And>v m. x = Some (Ok v, m) \<Longrightarrow> f v \<noteq> None"
  shows "comes_back tinv wire framed t0 mc (on_ok x f)"
proof -
  obtain r t where x: "x = Some (r, mc\<lparr>mc_transport := Some t\<rparr>)" "tinv t"
    "wire t = wire t0 \<or> (\<exists>req. wire t = wire t0 @ framed req t0)"
    using assms(1) by (auto simp: comes_back_def)
  then have "\<exists>r'. on_ok x f = Some (r', mc\<lparr>mc_transport := Some t\<rparr>)"
    using assms(2) by (cases r) auto
  with x(2,3) show ?thesis
    unfolding comes_back_def by blast
qed

section \<open>The methods\<close>

datatype (plugins only:) client_op =
    OpReadCoils uint16 uint16
  | OpReadCoil uint16
  | OpReadDiscreteInputs uint16 uint16
  | OpReadDiscreteInput uint16
  | OpReadRegisters uint16 uint16 RegType
  | OpReadRegister uint16 RegType
  | OpReadUint32s uint16 uint16 RegType
  | OpReadUint32 uint16 RegType
  | OpReadFloat32s uint16 uint16 RegType
  | OpReadFloat32 uint16 RegType
  | OpReadUint64s uint16 uint16 RegType
  | OpReadUint64 uint16 RegType
  | OpReadFloat64s uint16 uint16 RegType
  | OpReadFloat64 uint16 RegType
  | OpReadBytes uint16 uint16 RegType
  | OpReadRawBytes uint16 uint16 RegType
  | OpWriteCoil uint16 bool
  | OpWriteCoils uint16 "bool list"
  | OpWriteRegister uint16 uint16
  | OpWriteRegisters uint16 "uint16 list"
  | OpWriteUint32s uint16 "uint32 list"
  | OpWriteUint32 uint16 uint32
  | OpWriteFloat32s uint16 "float32 list"
  | OpWriteFloat32 uint16 float32
  | OpWriteUint64s uint16 "uint64 list"
  | OpWriteUint64 uint16 uint64
  | OpWriteFloat64s uint16 "float64 list"
  | OpWriteFloat64 uint16 float64
  | OpWriteBytes uint16 byte_slice
  | OpWriteRawBytes uint16 byte_slice
  | OpSetUnitId uint8
  | OpSetEncoding endianness word_order

fun perform :: "'t transport \<Rightarrow> client_op \<Rightarrow> ('c, 'p, 't) ModbusClient \<Rightarrow> ('c, 'p, 't) ModbusClient option" where
  "perform T (OpReadCoils a n) mc = map_option snd (ReadCoils T a n mc)"
| "perform T (OpReadCoil a) mc = map_option snd (ReadCoil T a mc)"
| "perform T (OpReadDiscreteInputs a n) mc = map_option snd (ReadDiscreteInputs T a n mc)"
| "perform T (OpReadDiscreteInput a) mc = map_option snd (ReadDiscreteInput T a mc)"
| "perform T (OpReadRegisters a n rt) mc = map_option snd (ReadRegisters T a n rt mc)"
| "perform T (OpReadRegister a rt) mc = map_option snd (ReadRegister T a rt mc)"
| "perform T (OpReadUint32s a n rt) mc = map_option snd (ReadUint32s T a n rt mc)"
| "perform T (OpReadUint32 a rt) mc = map_option snd (ReadUint32 T a rt mc)"
| "perform T (OpReadFloat32s a n rt) mc = map_option snd (ReadFloat32s T a n rt mc)"
| "perform T (OpReadFloat32 a rt) mc = map_option snd (ReadFloat32 T a rt mc)"
| "perform T (OpReadUint64s a n rt) mc = map_option snd (ReadUint64s T a n rt mc)"
| "perform T (OpReadUint64 a rt) mc = map_option snd (ReadUint64 T a rt mc)"
| "perform T (OpReadFloat64s a n rt) mc = map_option snd (ReadFloat64s T a n rt mc)"
| "perform T (OpReadFloat64 a rt) mc = map_option snd (ReadFloat64 T a rt mc)"
| "perform T (OpReadBytes a n rt) mc = map_option snd (ReadBytes T a n rt mc)"
| "perform T (OpReadRawBytes a n rt) mc = map_option snd (ReadRawBytes T a n rt mc)"
| "perform T (OpWriteCoil a v) mc = map_option snd (WriteCoil T a v mc)"
| "perform T (OpWriteCoils a vs) mc = map_option snd (WriteCoils T a vs mc)"
| "perform T (OpWriteRegister a v) mc = map_option snd (WriteRegister T a v mc)"
| "perform T (OpWriteRegisters a vs) mc = map_option snd (WriteRegisters T a vs mc)"
| "perform T (OpWriteUint32s a vs) mc = map_option snd (WriteUint32s T a vs mc)"
| "perform T (OpWriteUint32 a v) mc = map_option snd (WriteUint32 T a v mc)"
| "perform T (OpWriteFloat32s a vs) mc = map_option snd (WriteFloat32s T a vs mc)"
| "perform T (OpWriteFloat32 a v) mc = map_option snd (WriteFloat32 T a v mc)"
| "perform T (OpWriteUint64s a vs) mc = map_option snd (WriteUint64s T a vs mc)"
| "perform T (OpWriteUint64 a v) mc = map_option snd (WriteUint64 T a v mc)"
| "perform T (OpWriteFloat64s a vs) mc = map_option snd (WriteFloat64s T a vs mc)"
| "perform T (OpWriteFloat64 a v) mc = map_option snd (WriteFloat64 T a v mc)"
| "perform T (OpWriteBytes a bs) mc = map_option snd (WriteBytes T a bs mc)"
| "perform T (OpWriteRawBytes a bs) mc = map_option snd (WriteRawBytes T a bs mc)"
| "perform T (OpSetUnitId u) mc = Some (SetUnitId u mc)"
| "perform T (OpSetEncoding e wo) mc = Some (snd (SetEncoding e wo mc))"

fun run :: "'t transport \<Rightarrow> client_op list \<Rightarrow> ('c, 'p, 't) ModbusClient \<Rightarrow> ('c, 'p, 't) ModbusClient option" where
  "run T [] mc = Some mc"
| "run T (op # ops) mc = Option.bind (perform T op mc) (run T ops)"

section \<open>Every method comes back\<close>

lemma judge_Bits:
  assumes "judge u (ReadBits ro addr n) r = Ok v"
  shows "\<exists>bs. v = Bits bs \<and> length bs = n"
proof -
  obtain pl where "reply_values (ReadBits ro addr n) pl = Some v"
    using assms by (auto simp: judge_def judge_reply_def split: sum.splits if_splits option.splits list.splits)
  then show ?thesis
    by (cases pl) (auto split: if_splits)
qed

lemma readBools_length:
  assumes "readBools T addr n di mc = Some (Ok vs, m)"
  shows "length vs = unat n"
proof -
  have "on_values bits (ask_server T (ReadBits di addr (unat n)) mc) = Some (Ok vs, m)"
    using assms by (simp add: readBools_asks split: if_splits)
  from on_values_OkD [OF this] obtain v where "ask_server T (ReadBits di addr (unat n)) mc = Some (Ok v, m)" "bits v = vs"
    by blast
  then show ?thesis
    by (auto simp: ask_server_def split: bind_splits dest!: judge_Bits)
qed

context transport_contract begin

abbreviation ok_call :: "'t \<Rightarrow> ('c, 'p, 't) ModbusClient \<Rightarrow> ('a \<times> ('c, 'p, 't) ModbusClient) option \<Rightarrow> bool" where
  "ok_call \<equiv> comes_back tinv wire framed"

lemma ask_server_back:
  assumes "mc_transport mc = Some t" "tinv t"
  shows "ok_call t mc (ask_server T q mc)"
proof -
  obtain r t' where "t_ExecuteRequest T (encode_request (mc_unitId mc) q) t = Some (r, t')" "tinv t'"
    "wire t' = wire t @ framed (encode_request (mc_unitId mc) q) t"
    using execute_returns [OF assms(2)] by blast
  with assms(1) show ?thesis
    by (auto simp: ask_server_def comes_back_def)
qed

lemma finishWrite_back:
  assumes "mc_transport mc = Some t" "tinv t" "\<And>a b c d m. echo m [a, b, c, d] \<noteq> None"
  shows "ok_call t mc (Option.bind (executeRequest T req mc) (\<lambda>(r, mc1). finishWrite req (echo mc1) r mc1))"
proof -
  obtain r t' where "t_ExecuteRequest T req t = Some (r, t')" "tinv t'" "wire t' = wire t @ framed req t"
    using execute_returns [OF assms(2)] by blast
  then have ex: "\<exists>r. executeRequest T req mc = Some (r, mc\<lparr>mc_transport := Some t'\<rparr>)"
    using assms(1) by (simp add: executeRequest_accept)
  have "\<exists>u. finishWrite req (echo m) r m = Some (u, m)" for r and m :: "('a, 'b, 't) ModbusClient"
    using assms(3) [of m] by (fastforce simp: finishWrite_def elim!: list4E split: sum.splits)
  with ex \<open>tinv t'\<close> \<open>wire t' = _\<close> show ?thesis
    by (fastforce simp: comes_back_def)
qed

lemma read_back:
  assumes "mc_transport mc = Some t" "tinv t"
  shows "ok_call t mc (readBools T addr n di mc)" and "ok_call t mc (readRegisters T addr n regType mc)"
  using ask_server_back [OF assms] assms by (auto simp: readBools_asks readRegisters_asks comes_back_refused)

lemma write_back:
  assumes "mc_transport mc = Some t" "tinv t"
  shows "ok_call t mc (writeRegisters T addr bs mc)" and "ok_call t mc (WriteCoils T addr vs mc)"
    and "ok_call t mc (WriteCoil T addr v mc)"
  unfolding writeRegisters_def WriteCoils_def WriteCoil_def Let_def
  using assms
  by (auto intro!: finishWrite_back [where echo = "\<lambda>_. f" for f] comes_back_refused simp: go_index_def)

lemma WriteRegister_back:
  assumes "mc_transport mc = Some t" "tinv t" "valid_endianness (mc_endianness mc)"
  shows "ok_call t mc (WriteRegister T addr v mc)"
  using ask_server_back [OF assms(1,2)] assms(3) by (simp add: WriteRegister_asks)

lemma bytes_back:
  assumes "mc_transport mc = Some t" "tinv t"
  shows "ok_call t mc (readBytes T addr n regType oe mc)" and "ok_call t mc (writeBytes T addr sl oe mc)"
proof -
  show "ok_call t mc (readBytes T addr n regType oe mc)"
    using read_back [OF assms] by (simp add: readBytes_take)
  let ?bs = "sl_bytes sl"
  let ?padded = "if length ?bs mod 2 = 1 then ?bs @ [0] else ?bs"
  have even: "even (length ?padded)"
    by (simp, presburger)
  obtain sent where "(if oe \<and> mc_endianness mc = LITTLE_ENDIAN then swapPairs ?padded else Some ?padded) = Some sent"
    using swapPairs_Some [OF even] that by (cases "oe \<and> mc_endianness mc = LITTLE_ENDIAN") metis+
  then have "writeBytes T addr sl oe mc =
      map_option (apfst (\<lambda>r. (r, if length ?padded \<le> length (sl_array sl) then sent @ drop (length sent) (sl_array sl) else sl_array sl)))
        (writeRegisters T addr sent mc)"
    by (cases "writeRegisters T addr sent mc") (auto simp: writeBytes_def Let_def)
  with write_back(1) [OF assms] show "ok_call t mc (writeBytes T addr sl oe mc)"
    by simp
qed

text \<open>Typed reads: re-encoding them is the raw read.\<close>

lemma typed_back:
  assumes "mc_transport mc = Some t" "tinv t" "valid_encoding (mc_endianness mc) (mc_wordOrder mc)"
  shows "ok_call t mc (ReadRegisters T addr n regType mc)" and "ok_call t mc (ReadUint32s T addr n regType mc)"
    and "ok_call t mc (ReadFloat32s T addr n regType mc)" and "ok_call t mc (ReadUint64s T addr n regType mc)"
    and "ok_call t mc (ReadFloat64s T addr n regType mc)"
  using read_back(2) [OF assms(1,2)] typed_reads [OF assms(3)]
  by (metis comes_back_map)+

lemma first_back:
  assumes "ok_call t mc x" "\<And>vs m. x = Some (Ok vs, m) \<Longrightarrow> length vs = 1"
  shows "ok_call t mc (on_ok x (\<lambda>vs. go_index vs 0))"
  using assms by (intro comes_back_on_ok) (auto simp: go_index_None_iff)

lemma single_back:
  assumes "mc_transport mc = Some t" "tinv t" "valid_encoding (mc_endianness mc) (mc_wordOrder mc)"
  shows "ok_call t mc (ReadCoil T addr mc)" and "ok_call t mc (ReadDiscreteInput T addr mc)"
    and "ok_call t mc (ReadRegister T addr regType mc)"
    and "ok_call t mc (ReadUint32 T addr regType mc)" and "ok_call t mc (ReadFloat32 T addr regType mc)"
    and "ok_call t mc (ReadUint64 T addr regType mc)" and "ok_call t mc (ReadFloat64 T addr regType mc)"
  unfolding ReadCoil_def ReadDiscreteInput_def ReadRegister_def ReadUint32_def ReadFloat32_def ReadUint64_def ReadFloat64_def
  by (auto intro!: first_back read_back [OF assms(1,2)] typed_back [OF assms]
      dest!: readBools_length typed_read_lengths [OF assms(3)])

text \<open>Every method of an open client comes back and leaves it open, with a named encoding.\<close>

definition after_call :: "'t \<Rightarrow> ('c, 'p, 't) ModbusClient option \<Rightarrow> bool" where
  "after_call t0 x \<longleftrightarrow> (\<exists>mc t. x = Some mc \<and> client_inv tinv mc \<and> mc_transport mc = Some t
     \<and> (wire t = wire t0 \<or> (\<exists>req. wire t = wire t0 @ framed req t0)))"

lemma ok_call_after:
  assumes "ok_call t mc x" "valid_encoding (mc_endianness mc) (mc_wordOrder mc)"
  shows "after_call t (map_option snd x)"
  using assms by (auto simp: comes_back_def after_call_def client_inv_def)

lemma perform_after:
  assumes "client_inv tinv mc" "mc_transport mc = Some t"
  shows "after_call t (perform T op mc)"
proof -
  have t: "tinv t" and v: "valid_encoding (mc_endianness mc) (mc_wordOrder mc)"
    using assms by (auto simp: client_inv_def)
  note call = ok_call_after [OF _ v]
  note calls = read_back [OF assms(2) t] write_back [OF assms(2) t] bytes_back [OF assms(2) t]
    typed_back [OF assms(2) t v] single_back [OF assms(2) t v]
    WriteRegister_back [OF assms(2) t valid_encoding_endianness [OF v]]
  show ?thesis
  proof (cases op)
    case (OpSetUnitId u)
    then show ?thesis
      using assms by (auto simp: after_call_def client_inv_def SetUnitId_def)
  next
    case (OpSetEncoding e wo)
    then show ?thesis
      using assms by (auto simp: after_call_def client_inv_def SetEncoding_def valid_encoding_def
          valid_endianness_def valid_word_order_def)
  qed (simp only: perform.simps ReadCoils_def ReadDiscreteInputs_def ReadBytes_def
      ReadRawBytes_def WriteRegisters_def WriteUint32s_def WriteUint32_def WriteFloat32s_def WriteFloat32_def
      WriteUint64s_def WriteUint64_def WriteFloat64s_def WriteFloat64_def WriteBytes_def WriteRawBytes_def,
      rule call, rule calls)+
qed

lemma run_inv: "client_inv tinv mc \<Longrightarrow> \<exists>mc'. run T ops mc = Some mc' \<and> client_inv tinv mc'"
proof (induction ops arbitrary: mc)
  case (Cons op ops)
  then obtain t where "mc_transport mc = Some t"
    by (auto simp: client_inv_def)
  from perform_after [OF Cons.prems this, of op] Cons.IH show ?case
    by (auto simp: after_call_def)
qed simp

end
section \<open>Properties\<close>

text \<open>
  C28: an open client cannot be broken.  Over a TCP or TLS socket, over UDP and over RTU framing
  on a socket, any sequence of calls of the client's methods, with any arguments and whatever the
  peer sends or fails to send, comes back call by call without a panic and without looping, and
  leaves the client open with a named encoding.
\<close>

theorem client_sessions_survive:
  fixes tc :: "('c, 'p, sock tcpTransport) ModbusClient"
    and uc :: "('c, 'p, sock udpSockWrapper tcpTransport) ModbusClient"
    and rc :: "('c, 'p, sock rtuTransport) ModbusClient"
  shows "(client_inv (\<lambda>tt. sock_inv (tt_socket tt)) tc \<longrightarrow> (\<exists>tc'. run (tcpTransportOps sockLink) ops tc = Some tc'
        \<and> client_inv (\<lambda>tt. sock_inv (tt_socket tt)) tc'))
    \<and> (client_inv (\<lambda>tt. usw_inv sock_inv (tt_socket tt)) uc \<longrightarrow>
        (\<exists>uc'. run (tcpTransportOps (uswLink udpConn)) ops uc = Some uc'
         \<and> client_inv (\<lambda>tt. usw_inv sock_inv (tt_socket tt)) uc'))
    \<and> (client_inv (\<lambda>rt. sock_inv (rt_link rt)) rc \<longrightarrow> (\<exists>rc'. run (rtuTransportOps sockLink) ops rc = Some rc'
        \<and> client_inv (\<lambda>rt. sock_inv (rt_link rt)) rc'))"
  using tcp.run_inv udp.run_inv rtu.run_inv by blast

definition demo_tcp_client :: "byte list list \<Rightarrow> (unit, unit, sock tcpTransport) ModbusClient" where
  "demo_tcp_client segs = \<lparr>mc_conf = mc_conf (demo_client BIG_ENDIAN), mc_endianness = BIG_ENDIAN,
     mc_wordOrder = HIGH_WORD_FIRST, mc_transport = Some (demo_tcp segs), mc_unitId = 1,
     mc_transportType = modbusTCP\<rparr>"

lemma demo_tcp_client_inv: "client_inv (\<lambda>tt. sock_inv (tt_socket tt)) (demo_tcp_client segs)"
  by (simp add: client_inv_def demo_tcp_client_def valid_encoding_def valid_endianness_def valid_word_order_def)

theorem client_sessions_survive_witness:
  "\<exists>tc. run (tcpTransportOps sockLink) [OpReadUint64s 1 20000 5, OpSetEncoding 2 1, OpReadBytes 0 0 0,
      OpWriteCoils 3 [], OpReadRegisters 7 1 0] (demo_tcp_client [[1, 2, 3], [0xff]]) = Some tc
     \<and> client_inv (\<lambda>tt. sock_inv (tt_socket tt)) tc"
  using client_sessions_survive demo_tcp_client_inv by blast

text \<open>
  C29: one call, at most one request.  Every method of a client over TCP writes either nothing or
  exactly one MBAP frame, under the transaction id after the last one, and every method of a
  client over RTU nothing or exactly one RTU frame.
\<close>

theorem client_sends_one_frame:
  fixes tc :: "('c, 'p, sock tcpTransport) ModbusClient" and rc :: "('c, 'p, sock rtuTransport) ModbusClient"
  assumes "client_inv (\<lambda>tt. sock_inv (tt_socket tt)) tc" "mc_transport tc = Some tt"
    and "client_inv (\<lambda>rt. sock_inv (rt_link rt)) rc" "mc_transport rc = Some rt"
    and "perform (tcpTransportOps sockLink) op tc = Some tc'" "mc_transport tc' = Some tt'"
    and "perform (rtuTransportOps sockLink) op rc = Some rc'" "mc_transport rc' = Some rt'"
  shows "(tx (tt_socket tt') = tx (tt_socket tt)
      \<or> (\<exists>req. tx (tt_socket tt') = tx (tt_socket tt) @ assembleMBAPFrame (tt_lastTxnId tt + 1) req))
    \<and> (tx (rt_link rt') = tx (rt_link rt) \<or> (\<exists>req. tx (rt_link rt') = tx (rt_link rt) @ assembleRTUFrame req))"
  using tcp.perform_after [OF assms(1,2), of op] rtu.perform_after [OF assms(3,4), of op] assms(5-8)
  unfolding tcp.after_call_def rtu.after_call_def by auto

definition demo_rtu_client :: "byte list list \<Rightarrow> (unit, unit, sock rtuTransport) ModbusClient" where
  "demo_rtu_client segs = \<lparr>mc_conf = mc_conf (demo_client BIG_ENDIAN), mc_endianness = BIG_ENDIAN,
     mc_wordOrder = HIGH_WORD_FIRST, mc_transport = Some (demo_rtu segs), mc_unitId = 1,
     mc_transportType = modbusRTU\<rparr>"

theorem client_sends_one_frame_witness:
  "\<exists>tc' rc' tt' rt'. perform (tcpTransportOps sockLink) (OpWriteCoil 3 True) (demo_tcp_client []) = Some tc'
     \<and> perform (rtuTransportOps sockLink) (OpWriteCoil 3 True) (demo_rtu_client []) = Some rc'
     \<and> mc_transport tc' = Some tt' \<and> mc_transport rc' = Some rt'
     \<and> (tx (tt_socket tt') = [] \<or> (\<exists>req. tx (tt_socket tt') = assembleMBAPFrame 1 req))
     \<and> (tx (rt_link rt') = [] \<or> (\<exists>req. tx (rt_link rt') = assembleRTUFrame req))"
proof -
  let ?tc = "demo_tcp_client []" and ?rc = "demo_rtu_client []"
  have i: "client_inv (\<lambda>tt. sock_inv (tt_socket tt)) ?tc" "mc_transport ?tc = Some (demo_tcp [])"
    "client_inv (\<lambda>rt. sock_inv (rt_link rt)) ?rc" "mc_transport ?rc = Some (demo_rtu [])"
    by (rule demo_tcp_client_inv)
      (simp_all add: demo_tcp_client_def demo_rtu_client_def client_inv_def valid_encoding_def
        valid_endianness_def valid_word_order_def)
  obtain tc' tt' where t: "perform (tcpTransportOps sockLink) (OpWriteCoil 3 True) ?tc = Some tc'" "mc_transport tc' = Some tt'"
    using tcp.perform_after [OF i(1,2), of "OpWriteCoil 3 True"] by (auto simp: tcp.after_call_def)
  obtain rc' rt' where r: "perform (rtuTransportOps sockLink) (OpWriteCoil 3 True) ?rc = Some rc'" "mc_transport rc' = Some rt'"
    using rtu.perform_after [OF i(3,4), of "OpWriteCoil 3 True"] by (auto simp: rtu.after_call_def)
  have start: "tx (tt_socket (demo_tcp [])) = []" "tt_lastTxnId (demo_tcp []) = 0" "tx (rt_link (demo_rtu [])) = []"
    by (simp_all add: demo_rtu_def)
  from client_sends_one_frame [OF i t r, unfolded start add_0 append_Nil] t r show ?thesis
    by (intro exI conjI) (assumption | elim conjE)+
qed

end
