(* ===== verification/Client_Server.thy ===== *)
theory Client_Server
  imports Server_Session Client_Calls
begin

text \<open>
  The two ends of a TCP connection: what the client of client.go makes of the bytes the server of
  server.go sends for its request.
\<close>

section \<open>What the client makes of the server's answers\<close>

text \<open>The values of a request as its caller gets them, and the errors of its caller.\<close>

fun read_values :: "mb_request \<Rightarrow> mb_values \<Rightarrow> mb_values" where
  "read_values (ReadBits _ _ _) v = v"
| "read_values (ReadRegs _ _ _) v = v"
| "read_values (SetBit _ _) _ = Bits []"
| "read_values (SetBits _ _) _ = Bits []"
| "read_values (SetReg _ _) _ = Regs []"
| "read_values (SetRegs _ _) _ = Regs []"

definition seen :: "mb_request \<Rightarrow> mb_values \<Rightarrow> go_error option \<Rightarrow> mb_values result" where
  "seen q vals err =
     (case err of
        Some e \<Rightarrow> Err (if modbus_exception e then e else ErrServerDeviceFailure)
      | None \<Rightarrow> if fits q vals then Ok (read_values q vals) else Err ErrServerDeviceFailure)"

lemma reply_values_be16:
  "reply_values (SetBits addr vs) (be16 addr @ be16 (of_nat (length vs))) = Some (Bits [])"
  "reply_values (SetReg addr v) (be16 addr @ be16 v) = Some (Regs [])"
  "reply_values (SetRegs addr ws) (be16 addr @ be16 (of_nat (length ws))) = Some (Regs [])"
  "reply_values (SetBit addr b) (be16 addr @ [if b then 0xff else 0, 0]) = Some (Bits [])"
proof -
  obtain a1 a0 where a: "be16 addr = [a1, a0]" "be_word [a1, a0] = addr"
    by (rule be16_parts)
  have two: "\<exists>c d. be16 w = [c, d] \<and> be_word [c, d] = w" for w :: uint16
    using be16_parts [of w] by metis
  show "reply_values (SetBits addr vs) (be16 addr @ be16 (of_nat (length vs))) = Some (Bits [])"
    "reply_values (SetReg addr v) (be16 addr @ be16 v) = Some (Regs [])"
    "reply_values (SetRegs addr ws) (be16 addr @ be16 (of_nat (length ws))) = Some (Regs [])"
    "reply_values (SetBit addr b) (be16 addr @ [if b then 0xff else 0, 0]) = Some (Bits [])"
    using a two [of v] two [of "of_nat (length vs)"] two [of "of_nat (length ws)"] by auto
qed

lemma reply_response:
  assumes "valid_request q" "fits q vals"
  shows "reply_values q (response_payload q vals) = Some (read_values q vals)"
proof (cases q)
  case (ReadBits ro addr n)
  with assms have "boolByteCount n < 256"
    using boolByteCount_bound [of n] by simp
  then have "unat (of_nat (boolByteCount n) :: byte) = boolByteCount n"
    by (intro unat_of_nat_eq) simp
  with ReadBits assms show ?thesis
    using bits_of_encodeBools by (cases vals) auto
next
  case (ReadRegs ro addr n)
  with assms have "unat (of_nat (2 * n) :: byte) = 2 * n"
    by (intro unat_of_nat_eq) simp
  with ReadRegs assms show ?thesis
    by (cases vals) (auto simp: words_of_uint16s)
qed (simp_all add: reply_values_be16)

lemma fc_no_error_bit: "\<not> bit (fc_of q) 7" "or 0x80 (fc_of q) \<noteq> fc_of q" "bit (or 0x80 (fc_of q)) 7"
  by (cases q; simp add: bit_numeral_rec)+

lemma judge_answer:
  assumes "valid_request q" "answer u q vals err = Some res"
  shows "judge u q (Ok res) = seen q vals err"
proof (cases "err = None \<and> fits q vals")
  case True
  with assms have "res = \<lparr>unitId = u, functionCode = fc_of q, payload = response_payload q vals\<rparr>"
    by (simp add: answer_def)
  with True assms show ?thesis
    by (simp add: judge_def judge_reply_def seen_def reply_response)
next
  case False
  define e where "e = (case err of Some e \<Rightarrow> e | None \<Rightarrow> ErrServerDeviceFailure)"
  have "res = exception_pdu u (fc_of q) e"
    using assms(2) False by (auto simp: answer_def e_def split: option.splits if_splits)
  then have "judge u q (Ok res) = Err (if modbus_exception e then e else ErrServerDeviceFailure)"
    by (simp add: judge_def judge_reply_def exception_pdu_def fc_no_error_bit map_exception_of_error)
  moreover have "modbus_exception ErrServerDeviceFailure"
    by (simp add: modbus_exception_def)
  ultimately show ?thesis
    using False by (auto simp: seen_def e_def split: option.splits)
qed

section \<open>One exchange over TCP\<close>

lemma request_payload_bound:
  assumes "valid_request q"
  shows "length (payload (encode_request u q)) \<le> 252"
  using assms by (cases q) (auto simp: encode_request_def boolByteCount_up)

lemma answer_bound:
  assumes "valid_request q" "answer u q vals err = Some res"
  shows "length (payload res) \<le> 252"
  using assms response_payload_bound [OF assms(1)]
  by (fastforce simp: answer_def exception_pdu_def split: option.splits if_splits)

text \<open>What the server sends back for one request frame.\<close>

lemma serve_one:
  assumes "valid_request q" "ask H ca cr u q h = ((vals, err), h')" "err \<noteq> Some ErrProtocolError"
  obtains res where "answer u q vals err = Some res"
    and "serve_stream H ca cr (assembleMBAPFrame txn (encode_request u q)) h = (assembleMBAPFrame txn res, h')"
proof -
  have "answer u q vals err \<noteq> None"
    using assms(3) by (auto simp: answer_def split: option.splits)
  then obtain res where res: "answer u q vals err = Some res"
    by blast
  have "serve_spec H ca cr (encode_request u q) h = (Some res, h')"
    using serve_valid [OF assms(1), of H ca cr u h] assms(2) res by (simp add: serveRequest_spec)
  then have "serve_stream H ca cr (assembleMBAPFrame txn (encode_request u q) @ []) h = (assembleMBAPFrame txn res, h')"
    unfolding serve_stream_frame [OF request_payload_bound [OF assms(1)]]
    by (simp add: serve_stream_Nil)
  with res show ?thesis
    by (intro that) (simp_all only: append_Nil2)
qed

lemma ask_server_tcp:
  assumes "sock_inv (tt_socket tt)" "mc_transport mc = Some tt"
    and "mbap_response (tt_lastTxnId tt + 1) (sock_avail (tt_socket tt)) = Answer res rest"
  shows "\<exists>tt'. ask_server (tcpTransportOps sockLink) q mc =
        Some (judge (mc_unitId mc) q (Ok res), mc\<lparr>mc_transport := Some tt'\<rparr>)
    \<and> sock_inv (tt_socket tt') \<and> sock_avail (tt_socket tt') = rest
    \<and> tt_lastTxnId tt' = tt_lastTxnId tt + 1
    \<and> tx (tt_socket tt') = tx (tt_socket tt)
        @ assembleMBAPFrame (tt_lastTxnId tt + 1) (encode_request (mc_unitId mc) q)"
proof -
  obtain r s' where r: "tcp_ExecuteRequest sockLink (encode_request (mc_unitId mc) q) tt =
        Some (r, tt\<lparr>tt_lastTxnId := tt_lastTxnId tt + 1, tt_socket := s'\<rparr>)"
    "sock_inv s'" "tx s' = tx (tt_socket tt)
        @ assembleMBAPFrame (tt_lastTxnId tt + 1) (encode_request (mc_unitId mc) q)"
    "answer_read (Answer res rest) r (sock_avail s')"
    using tcp_sock.tcp_ExecuteRequest_refines [OF assms(1), of "encode_request (mc_unitId mc) q"] assms(3) by auto
  then have "r = Ok res" "sock_avail s' = rest"
    by (simp_all add: answer_read_def)
  with r assms(2) show ?thesis
    by (intro exI [of _ "tt\<lparr>tt_lastTxnId := tt_lastTxnId tt + 1, tt_socket := s'\<rparr>"])
      (simp add: ask_server_def)
qed

lemma exchange:
  assumes "sock_inv (tt_socket tt)" "mc_transport mc = Some tt" "valid_request q"
    and "ask H ca cr (mc_unitId mc) q h = ((vals, err), h')" "err \<noteq> Some ErrProtocolError"
    and "\<forall>f \<in> set strays. stray (tt_lastTxnId tt + 1) f"
    and "sock_avail (tt_socket tt) = concat (map mbap_wire strays)
      @ fst (serve_stream H ca cr (assembleMBAPFrame (tt_lastTxnId tt + 1) (encode_request (mc_unitId mc) q)) h) @ rest"
  shows "\<exists>tt'. ask_server (tcpTransportOps sockLink) q mc = Some (seen q vals err, mc\<lparr>mc_transport := Some tt'\<rparr>)
    \<and> sock_inv (tt_socket tt') \<and> sock_avail (tt_socket tt') = rest
    \<and> tt_lastTxnId tt' = tt_lastTxnId tt + 1
    \<and> tx (tt_socket tt') = tx (tt_socket tt)
        @ assembleMBAPFrame (tt_lastTxnId tt + 1) (encode_request (mc_unitId mc) q)"
proof -
  obtain res where res: "answer (mc_unitId mc) q vals err = Some res"
    "serve_stream H ca cr (assembleMBAPFrame (tt_lastTxnId tt + 1) (encode_request (mc_unitId mc) q)) h
      = (assembleMBAPFrame (tt_lastTxnId tt + 1) res, h')"
    by (rule serve_one [OF assms(3-5)])
  have "mbap_response (tt_lastTxnId tt + 1) (sock_avail (tt_socket tt)) = Answer res rest"
    using assms(6,7) answer_bound [OF assms(3) res(1)]
    by (subst mbap_response_Answer_iff) (auto simp: res(2))
  from ask_server_tcp [OF assms(1,2) this, of q] show ?thesis
    by (simp only: judge_answer [OF assms(3) res(1)])
qed

section \<open>The methods of the client\<close>

text \<open>The client method that makes a request, with values in the order of the wire.\<close>

fun client_call :: "'t transport \<Rightarrow> mb_request \<Rightarrow> ('c, 'p, 't) ModbusClient \<Rightarrow> ('c, 'p, 't, mb_values) call" where
  "client_call T (ReadBits ro addr n) mc =
     on_values Bits (if ro then ReadDiscreteInputs T addr (of_nat n) mc else ReadCoils T addr (of_nat n) mc)"
| "client_call T (ReadRegs ro addr n) mc =
     on_values Regs (ReadRegisters T addr (of_nat n) (if ro then INPUT_REGISTER else HOLDING_REGISTER) mc)"
| "client_call T (SetBit addr v) mc = on_values (\<lambda>_. Bits []) (WriteCoil T addr v mc)"
| "client_call T (SetBits addr vs) mc = on_values (\<lambda>_. Bits []) (WriteCoils T addr vs mc)"
| "client_call T (SetReg addr v) mc = on_values (\<lambda>_. Regs []) (WriteRegister T addr v mc)"
| "client_call T (SetRegs addr vs) mc = on_values (\<lambda>_. Regs []) (WriteRegisters T addr vs mc)"

lemma on_values_comp: "on_values f (on_values g x) = on_values (\<lambda>v. f (g v)) x"
  by (simp add: option.map_comp comp_def apfst_def map_prod_def sum.map_comp split_def)

text \<open>A judged result has the shape of the request, so the detour through the method loses nothing.\<close>

lemma judge_shape:
  assumes "judge u q r = Ok v"
  shows "case q of ReadBits _ _ _ \<Rightarrow> Bits (bits v) = v | ReadRegs _ _ _ \<Rightarrow> Regs (regs v) = v
    | SetBit _ _ \<Rightarrow> v = Bits [] | SetBits _ _ \<Rightarrow> v = Bits [] | SetReg _ _ \<Rightarrow> v = Regs [] | SetRegs _ _ \<Rightarrow> v = Regs []"
proof -
  obtain pl where "reply_values q pl = Some v"
    using assms by (auto simp: judge_def judge_reply_def split: sum.splits if_splits option.splits list.splits)
  then show ?thesis
    by (cases "(q, pl)" rule: reply_values.cases) (auto split: if_splits)
qed

lemma on_values_ask:
  assumes "\<And>r v. judge (mc_unitId mc) q r = Ok v \<Longrightarrow> f v = v"
  shows "on_values f (ask_server T q mc) = ask_server T q mc"
proof -
  have "map_sum (\<lambda>e. e) f (judge (mc_unitId mc) q r) = judge (mc_unitId mc) q r" for r
    using assms by (cases "judge (mc_unitId mc) q r") auto
  then show ?thesis
    by (auto simp: ask_server_def split: bind_splits intro!: option.expand)
qed

lemma client_call_asks:
  assumes "valid_request q" "mc_endianness mc = BIG_ENDIAN"
  shows "client_call T q mc = ask_server T q mc"
proof -
  have e: "valid_endianness (mc_endianness mc)"
    using assms(2) by (simp add: valid_endianness_def)
  have shape: "on_values f (ask_server T q mc) = ask_server T q mc"
    if "\<And>v. case q of ReadBits _ _ _ \<Rightarrow> Bits (bits v) = v | ReadRegs _ _ _ \<Rightarrow> Regs (regs v) = v
      | SetBit _ _ \<Rightarrow> v = Bits [] | SetBits _ _ \<Rightarrow> v = Bits [] | SetReg _ _ \<Rightarrow> v = Regs [] | SetRegs _ _ \<Rightarrow> v = Regs []
      \<Longrightarrow> f v = v" for f
    by (rule on_values_ask) (use that judge_shape in blast)
  have word: "unat (of_nat n :: uint16) = n" if "n < 65536" for n
    by (rule unat_of_nat_eq) (use that in simp)
  have big: "recode BIG_ENDIAN = (\<lambda>v. v)"
    by (rule ext) (rule recode_BIG)
  show ?thesis
  proof (cases q)
    case (ReadBits ro addr n)
    then have "unat (of_nat n :: uint16) = n"
      using assms(1) by (intro word) simp
    with ReadBits assms(1) show ?thesis
      using shape [of "\<lambda>v. Bits (bits v)"]
      by (cases ro) (simp_all add: ReadCoils_def ReadDiscreteInputs_def readBools_asks on_values_comp del: in_range.simps)
  next
    case (ReadRegs ro addr n)
    then have n: "unat (of_nat n :: uint16) = n"
      using assms(1) by (intro word) simp
    then have "\<not> pastEnd addr (of_nat n)"
      using ReadRegs assms(1) span_check [of 125 addr "of_nat n"] by simp
    with ReadRegs n show ?thesis
      using shape [of "\<lambda>v. Regs (regs v)"]
      by (cases ro) (simp_all add: ReadRegisters_asks [OF e] on_values_comp assms(2) big reg_type_ok_def reg_request_def)
  next
    case (SetBit addr v)
    with shape [of "\<lambda>_. Bits []"] show ?thesis
      by (simp add: WriteCoil_asks on_values_comp)
  next
    case (SetBits addr vs)
    with assms(1) shape [of "\<lambda>_. Bits []"] show ?thesis
      by (simp add: WriteCoils_asks on_values_comp)
  next
    case (SetReg addr v)
    with shape [of "\<lambda>_. Regs []"] show ?thesis
      by (simp add: WriteRegister_asks [OF e] assms(2) recode_BIG on_values_comp)
  next
    case (SetRegs addr vs)
    with assms(1) shape [of "\<lambda>_. Regs []"] show ?thesis
      by (simp add: WriteRegisters_asks assms(2) big on_values_comp Let_def)
  qed
qed

section \<open>Properties\<close>

text \<open>
  C1: client and server understand each other.  A client in big endian mode makes any valid
  request through the method for it; if what then arrives on its socket, after any frames of
  other transactions and protocols, is what a server session with handler \<open>H\<close> sends on receiving
  the client's frame, the method returns what the handler returned for exactly that request:
  its values, its Modbus error, or \<open>ErrServerDeviceFailure\<close> for other errors and for values of the
  wrong number.  A handler that reports a protocol error is excluded: the server hangs up.
\<close>

theorem tcp_client_server_exchange:
  assumes "sock_inv (tt_socket tt)" "mc_transport mc = Some tt" "mc_endianness mc = BIG_ENDIAN" "valid_request q"
    and "sock_inv (tt_socket ts)" "tx (tt_socket ts) = []"
    and "sock_avail (tt_socket ts) = assembleMBAPFrame (tt_lastTxnId tt + 1) (encode_request (mc_unitId mc) q)"
    and "handleTransport (tcpTransportOps sockLink) H ca cr ts h = Some (ts', h')"
    and "ask H ca cr (mc_unitId mc) q h = ((vals, err), h1)" "err \<noteq> Some ErrProtocolError"
    and "\<forall>f \<in> set strays. stray (tt_lastTxnId tt + 1) f"
    and "sock_avail (tt_socket tt) = concat (map mbap_wire strays) @ tx (tt_socket ts') @ rest"
  shows "h' = h1 \<and> (\<exists>tt'. client_call (tcpTransportOps sockLink) q mc = Some (seen q vals err, mc\<lparr>mc_transport := Some tt'\<rparr>)
    \<and> sock_inv (tt_socket tt') \<and> sock_avail (tt_socket tt') = rest
    \<and> tt_lastTxnId tt' = tt_lastTxnId tt + 1
    \<and> tx (tt_socket tt') = tx (tt_socket tt) @ sock_avail (tt_socket ts))"
proof -
  let ?f = "assembleMBAPFrame (tt_lastTxnId tt + 1) (encode_request (mc_unitId mc) q)"
  have s: "tx (tt_socket ts') = fst (serve_stream H ca cr ?f h)" "h' = snd (serve_stream H ca cr ?f h)"
    using handleTransport_refines [OF assms(5), of H ca cr h] assms(6,7,8) by auto
  obtain res where "serve_stream H ca cr ?f h = (assembleMBAPFrame (tt_lastTxnId tt + 1) res, h1)"
    by (rule serve_one [OF assms(4,9,10)])
  with s(2) have "h' = h1" by simp
  with exchange [OF assms(1,2,4,9,10,11), of rest] assms(12) show ?thesis
    by (simp only: s(1) client_call_asks [OF assms(4,3)] assms(7) simp_thms)
qed

theorem tcp_client_server_exchange_witness:
  "\<exists>ts' mc'. handleTransport (tcpTransportOps sockLink) demo_handler ''peer'' ''''
      (demo_tcp [assembleMBAPFrame 1 (encode_request 1 (ReadRegs False 16 2))]) [0x1234, 0x5678]
      = Some (ts', [0x1234, 0x5678])
    \<and> client_call (tcpTransportOps sockLink) (ReadRegs False 16 2) (demo_tcp_client [tx (tt_socket ts')])
      = Some (Ok (Regs [0x1234, 0x5678]), mc')"
proof -
  let ?q = "ReadRegs False 16 2"
  let ?ts = "demo_tcp [assembleMBAPFrame 1 (encode_request 1 ?q)]"
  let ?h = "[0x1234, 0x5678] :: uint16 list"
  obtain ts' h' where run: "handleTransport (tcpTransportOps sockLink) demo_handler ''peer'' '''' ?ts ?h = Some (ts', h')"
    using handleTransport_refines [OF demo_tcp_simps(1) [of "[assembleMBAPFrame 1 (encode_request 1 ?q)]"],
        of demo_handler "''peer''" "''''" ?h] that by fast
  let ?mc = "demo_tcp_client [tx (tt_socket ts')]"
  have a: "ask demo_handler ''peer'' '''' 1 ?q ?h = ((Regs ?h, None), ?h)"
    by (simp add: demo_handler_def)
  have mc: "mc_transport ?mc = Some (demo_tcp [tx (tt_socket ts')])" "mc_endianness ?mc = BIG_ENDIAN" "mc_unitId ?mc = 1"
    by (simp_all add: demo_tcp_client_def)
  have q: "valid_request ?q" and srv: "sock_inv (tt_socket ?ts)" "tx (tt_socket ?ts) = []"
    by simp_all
  have sent: "sock_avail (tt_socket ?ts) =
      assembleMBAPFrame (tt_lastTxnId (demo_tcp [tx (tt_socket ts')]) + 1) (encode_request (mc_unitId ?mc) ?q)"
    by (simp add: mc)
  have strays: "\<forall>f \<in> set []. stray (tt_lastTxnId (demo_tcp [tx (tt_socket ts')]) + 1) f"
    and arrives: "sock_avail (tt_socket (demo_tcp [tx (tt_socket ts')])) =
      concat (map mbap_wire []) @ tx (tt_socket ts') @ []"
    by simp_all
  have "h' = ?h \<and> (\<exists>tt'. client_call (tcpTransportOps sockLink) ?q ?mc = Some (seen ?q (Regs ?h) None, ?mc\<lparr>mc_transport := Some tt'\<rparr>)
      \<and> sock_inv (tt_socket tt') \<and> sock_avail (tt_socket tt') = []
      \<and> tt_lastTxnId tt' = tt_lastTxnId (demo_tcp [tx (tt_socket ts')]) + 1
      \<and> tx (tt_socket tt') = tx (tt_socket (demo_tcp [tx (tt_socket ts')])) @ sock_avail (tt_socket ?ts))"
    by (rule tcp_client_server_exchange [OF demo_tcp_simps(1) mc(1,2) q srv sent run _ _ strays arrives])
      (simp_all only: mc a option.distinct(1) not_False_eq_True)
  moreover have "seen ?q (Regs ?h) None = Ok (Regs ?h)"
    by (simp add: seen_def)
  ultimately show ?thesis
    using run by auto
qed

end
