(* ===== verification/Serial_Wrapper.thy ===== *)
theory Serial_Wrapper
  imports Rtu_Transport
begin

text \<open>
  internal/serial/serial.go, the interface of a serial port, and internal/modbus/serial.go, the
  wrapper that makes it an \<open>rtuLink\<close>: deadlines on top of the short timeout of the port.  The
  contract of a port is enough for the RTU transport over it to come back from every request.
\<close>

section \<open>internal/serial/serial.go\<close>

record RS485Config =
  rs_Enabled :: bool
  rs_DelayRtsBeforeSend :: int
  rs_DelayRtsAfterSend :: int
  rs_RtsHighDuringSend :: bool
  rs_RtsHighAfterSend :: bool
  rs_RxDuringTx :: bool

record serial_Config =
  sc_Address :: string
  sc_BaudRate :: int
  sc_DataBits :: int
  sc_StopBits :: int
  sc_Parity :: string
  sc_Timeout :: int
  sc_RS485 :: RS485Config

definition noRS485 :: RS485Config where
  "noRS485 = \<lparr>rs_Enabled = False, rs_DelayRtsBeforeSend = 0, rs_DelayRtsAfterSend = 0,
     rs_RtsHighDuringSend = False, rs_RtsHighAfterSend = False, rs_RxDuringTx = False\<rparr>"

text \<open>
  The interface \<open>Port\<close> over the state \<open>'p\<close> of an implementation and of the system under it;
  \<open>port_New\<close> is \<open>New\<close>.  The clock and \<open>time.Sleep\<close> are those of the environment.
\<close>

record 'p Port =
  port_New :: "'p \<Rightarrow> 'p"
  port_Open :: "serial_Config \<Rightarrow> 'p \<Rightarrow> unit result \<times> 'p"
  port_Close :: "'p \<Rightarrow> unit result \<times> 'p"
  port_Read :: "nat \<Rightarrow> 'p \<Rightarrow> (byte list \<times> go_error option) \<times> 'p"
  port_Write :: "byte list \<Rightarrow> 'p \<Rightarrow> (nat \<times> go_error option) \<times> 'p"
  port_Now :: "'p \<Rightarrow> int"
  port_Sleep :: "int \<Rightarrow> 'p \<Rightarrow> 'p"

definition serial_Open :: "'p Port \<Rightarrow> serial_Config \<Rightarrow> 'p \<Rightarrow> unit result \<times> 'p" where
  "serial_Open P c p = port_Open P c (port_New P p)"

section \<open>The wrapper\<close>

record serialPortConfig =
  spc_Device :: string
  spc_Speed :: uint
  spc_DataBits :: uint
  spc_Parity :: uint
  spc_StopBits :: uint

text \<open>
  The port is \<open>nil\<close> until \<open>Open\<close> has been called; here it is the system the port will be
  allocated in, and nothing uses it before.
\<close>

record 'p serialPortWrapper =
  spw_conf :: serialPortConfig
  spw_port :: 'p
  spw_deadline :: int

definition newSerialPortWrapper :: "serialPortConfig \<Rightarrow> 'p \<Rightarrow> 'p serialPortWrapper" where
  "newSerialPortWrapper conf p = \<lparr>spw_conf = conf, spw_port = p, spw_deadline = zeroTime\<rparr>"

abbreviation PARITY_NONE :: uint where "PARITY_NONE \<equiv> 0"
abbreviation PARITY_EVEN :: uint where "PARITY_EVEN \<equiv> 1"
abbreviation PARITY_ODD :: uint where "PARITY_ODD \<equiv> 2"

text \<open>\<open>int(u)\<close> of a \<open>uint\<close> reads the same 64 bits as a signed number.\<close>

definition spw_Open :: "'p Port \<Rightarrow> 'p serialPortWrapper \<Rightarrow> unit result \<times> 'p serialPortWrapper" where
  "spw_Open P spw =
     (let conf = spw_conf spw;
          parity = (if spc_Parity conf = PARITY_NONE then ''N''
                    else if spc_Parity conf = PARITY_EVEN then ''E''
                    else if spc_Parity conf = PARITY_ODD then ''O''
                    else '''')
      in apsnd (\<lambda>p. spw\<lparr>spw_port := p\<rparr>)
           (serial_Open P \<lparr>sc_Address = spc_Device conf, sc_BaudRate = sint (spc_Speed conf),
              sc_DataBits = sint (spc_DataBits conf), sc_StopBits = sint (spc_StopBits conf),
              sc_Parity = parity, sc_Timeout = 10000000, sc_RS485 = noRS485\<rparr> (spw_port spw)))"

definition spw_Close :: "'p Port \<Rightarrow> 'p serialPortWrapper \<Rightarrow> unit result \<times> 'p serialPortWrapper" where
  "spw_Close P spw = apsnd (\<lambda>p. spw\<lparr>spw_port := p\<rparr>) (port_Close P (spw_port spw))"

definition spw_Read ::
  "'p Port \<Rightarrow> nat \<Rightarrow> 'p serialPortWrapper \<Rightarrow> (byte list \<times> go_error option) \<times> 'p serialPortWrapper" where
  "spw_Read P n spw =
     (if spw_deadline spw < port_Now P (spw_port spw) then (([], Some ErrRequestTimedOut), spw)
      else
        let ((bs, err), p) = port_Read P n (spw_port spw)
        in ((bs, if err = Some SerialErrTimeout then None else err), spw\<lparr>spw_port := p\<rparr>))"

definition spw_Write ::
  "'p Port \<Rightarrow> byte list \<Rightarrow> 'p serialPortWrapper \<Rightarrow> (nat \<times> go_error option) \<times> 'p serialPortWrapper" where
  "spw_Write P bs spw = apsnd (\<lambda>p. spw\<lparr>spw_port := p\<rparr>) (port_Write P bs (spw_port spw))"

definition spw_SetDeadline :: "int \<Rightarrow> 'p serialPortWrapper \<Rightarrow> unit result \<times> 'p serialPortWrapper" where
  "spw_SetDeadline deadline spw = (Ok (), spw\<lparr>spw_deadline := deadline\<rparr>)"

definition spwLink :: "'p Port \<Rightarrow> 'p serialPortWrapper rtuLink" where
  "spwLink P = \<lparr>link_Close = spw_Close P, link_Read = spw_Read P, link_Write = spw_Write P,
     link_SetDeadline = spw_SetDeadline, time_Now = (\<lambda>spw. port_Now P (spw_port spw)),
     time_Sleep = (\<lambda>d spw. spw\<lparr>spw_port := port_Sleep P d (spw_port spw)\<rparr>)\<rparr>"

section \<open>Reads end at the deadline\<close>

text \<open>
  What the wrapper relies on: a read takes no more than the buffer holds, the clock does not run
  backwards, and a read that brings neither bytes nor an error lets time pass.
\<close>

locale serial_port =
  fixes P :: "'p Port"
    and pinv :: "'p \<Rightarrow> bool"
  assumes pread: "pinv p \<Longrightarrow> 0 < n \<Longrightarrow> port_Read P n p = ((bs, err), p') \<Longrightarrow>
      pinv p' \<and> length bs \<le> n \<and> err \<noteq> Some ErrRequestTimedOut \<and> port_Now P p \<le> port_Now P p'
      \<and> (bs = [] \<and> (err = None \<or> err = Some SerialErrTimeout) \<longrightarrow> port_Now P p < port_Now P p')"
    and pwrite: "pinv p \<Longrightarrow> port_Write P ws p = (w, p') \<Longrightarrow> pinv p'"
    and psleep: "pinv p \<Longrightarrow> pinv (port_Sleep P d p)"
begin

lemma spw_Read_cases:
  assumes "pinv (spw_port spw)" "0 < n"
  obtains (late) "spw_Read P n spw = (([], Some ErrRequestTimedOut), spw)" "spw_deadline spw < port_Now P (spw_port spw)"
  | (early) bs err p where "spw_Read P n spw = ((bs, err), spw\<lparr>spw_port := p\<rparr>)" "pinv p" "length bs \<le> n"
    "err \<noteq> Some SerialErrTimeout" "err \<noteq> Some ErrRequestTimedOut" "port_Now P (spw_port spw) \<le> spw_deadline spw"
    "port_Now P (spw_port spw) \<le> port_Now P p" "bs = [] \<and> err = None \<longrightarrow> port_Now P (spw_port spw) < port_Now P p"
proof (cases "spw_deadline spw < port_Now P (spw_port spw)")
  case True
  then show ?thesis
    by (intro that(1)) (simp_all add: spw_Read_def)
next
  case False
  obtain bs err p where r: "port_Read P n (spw_port spw) = ((bs, err), p)"
    by (metis surj_pair)
  with False have "spw_Read P n spw = ((bs, if err = Some SerialErrTimeout then None else err), spw\<lparr>spw_port := p\<rparr>)"
    by (simp add: spw_Read_def)
  with False pread [OF assms r] show ?thesis
    by (intro that(2) [of bs "if err = Some SerialErrTimeout then None else err" p]) simp_all
qed

text \<open>The loop of \<open>io.ReadFull\<close> over the wrapper, by the bytes missing and the time left.\<close>

lemma readLoop_ends:
  "pinv (spw_port spw) \<Longrightarrow>
   \<exists>bs err p. readLoop (spwLink P) n acc spw = Some ((bs, err), spw\<lparr>spw_port := p\<rparr>) \<and> pinv p
    \<and> (err = None \<longrightarrow> n \<le> length bs) \<and> length bs \<le> max n (length acc) \<and> err \<noteq> Some SerialErrTimeout
    \<and> (err = Some ErrRequestTimedOut \<longrightarrow> spw_deadline spw < port_Now P p)"
proof (induction "(n - length acc) + nat (spw_deadline spw + 1 - port_Now P (spw_port spw))"
    arbitrary: acc spw rule: less_induct)
  case less
  have link: "link_Read (spwLink P) = spw_Read P"
    by (simp add: spwLink_def)
  show ?case
  proof (cases "length acc < n")
    case False
    then show ?thesis
      using less.prems by (intro exI [of _ acc] exI [of _ None] exI [of _ "spw_port spw"])
        (simp add: readLoop.simps [of "spwLink P" n acc])
  next
    case True
    then have n: "0 < n - length acc" by simp
    from less.prems n show ?thesis
    proof (cases rule: spw_Read_cases)
      case late
      then show ?thesis
        using True less.prems by (intro exI [of _ acc] exI [of _ "Some ErrRequestTimedOut"] exI [of _ "spw_port spw"])
          (simp add: readLoop.simps [of "spwLink P" n acc] link)
    next
      case (early bs err p)
      show ?thesis
      proof (cases err)
        case (Some e)
        with early True show ?thesis
          by (intro exI [of _ "acc @ bs"] exI [of _ err] exI [of _ p])
            (simp add: readLoop.simps [of "spwLink P" n acc] link)
      next
        case None
        let ?spw = "spw\<lparr>spw_port := p\<rparr>"
        have "(n - length (acc @ bs)) + nat (spw_deadline ?spw + 1 - port_Now P (spw_port ?spw))
            < (n - length acc) + nat (spw_deadline spw + 1 - port_Now P (spw_port spw))"
        proof (cases "bs = []")
          case True
          with early None show ?thesis by simp
        next
          case False
          then have "0 < length bs" by simp
          with early(3) n have "n - length (acc @ bs) < n - length acc"
            unfolding length_append by linarith
          moreover have "nat (spw_deadline ?spw + 1 - port_Now P (spw_port ?spw)) \<le> nat (spw_deadline spw + 1 - port_Now P (spw_port spw))"
            using early(7) by simp
          ultimately show ?thesis by (rule add_less_le_mono)
        qed
        from less.hyps [OF this] early None True show ?thesis
          by (simp add: readLoop.simps [of "spwLink P" n acc] link)
      qed
    qed
  qed
qed

lemma ReadFull_ends:
  assumes "pinv (spw_port spw)"
  shows "\<exists>bs err p. io_ReadFull (spwLink P) n spw = Some ((bs, err), spw\<lparr>spw_port := p\<rparr>) \<and> pinv p
    \<and> (err = None \<longleftrightarrow> length bs = n) \<and> length bs \<le> n
    \<and> (err = Some ErrRequestTimedOut \<longrightarrow> spw_deadline spw < port_Now P p)"
proof -
  obtain bs err p where "readLoop (spwLink P) n [] spw = Some ((bs, err), spw\<lparr>spw_port := p\<rparr>)" "pinv p"
    "err = None \<longrightarrow> n \<le> length bs" "length bs \<le> n" "err = Some ErrRequestTimedOut \<longrightarrow> spw_deadline spw < port_Now P p"
    using readLoop_ends [OF assms, of n "[]"] by auto
  then show ?thesis
    by (auto simp: io_ReadFull_def)
qed

text \<open>\<open>discard\<close>, which reads until its short deadline has passed.\<close>

lemma discard_ends:
  assumes "pinv (spw_port spw)"
  shows "\<exists>spw'. discard (spwLink P) spw = Some spw' \<and> pinv (spw_port spw')"
proof -
  let ?spw = "spw\<lparr>spw_deadline := port_Now P (spw_port spw) + 500 * 1000\<rparr>"
  have "pinv (spw_port ?spw)"
    using assms by simp
  from ReadFull_ends [OF this, of 1024] show ?thesis
    by (auto simp: discard_def Let_def spwLink_def spw_SetDeadline_def)
qed

text \<open>The RTU transport over the wrapper: a request always comes back.\<close>

lemma readRTUFrame_ends:
  assumes "pinv (spw_port (rt_link rt))"
  shows "\<exists>r s. readRTUFrame (spwLink P) rt = Some (r, rt\<lparr>rt_link := s\<rparr>) \<and> pinv (spw_port s)"
proof -
  obtain got err p where r: "io_ReadFull (spwLink P) 3 (rt_link rt) = Some ((got, err), (rt_link rt)\<lparr>spw_port := p\<rparr>)"
    "pinv p" "err = None \<longleftrightarrow> length got = 3" "length got \<le> 3"
    using ReadFull_ends [OF assms, of 3] by blast
  let ?s = "(rt_link rt)\<lparr>spw_port := p\<rparr>"
  show ?thesis
  proof (cases err)
    case (Some e)
    have zeros: "go_copy (replicate maxRTUFrameLength 0) [] = replicate maxRTUFrameLength 0"
      "go_index (replicate maxRTUFrameLength 0) 1 = Some (0 :: byte)"
      "go_index (replicate maxRTUFrameLength 0) 2 = Some (0 :: byte)"
      by (simp_all only: go_copy_def maxRTUFrameLength_def) (simp_all add: go_index_def)
    have "\<exists>e'. readRTUFrame (spwLink P) rt = Some (Err e', rt\<lparr>rt_link := ?s\<rparr>)"
    proof (cases "got = []")
      case True
      with r(1) Some show ?thesis
        by (auto simp: readRTUFrame_def Let_def zeros expectedResponseLenth_def simp del: One_nat_def)
    next
      case False
      with r Some show ?thesis
        by (simp add: readRTUFrame_def Let_def)
    qed
    with r(2) show ?thesis by fastforce
  next
    case None
    then have got: "length got = 3" using r(3) by simp
    note head = readRTUFrame_header [OF r(1) [unfolded None] got]
    show ?thesis
    proof (cases "\<exists>n. expectedResponseLenth (got ! 1) (got ! 2) = Ok n \<and> n \<le> 251")
      case True
      then obtain n where n: "expectedResponseLenth (got ! 1) (got ! 2) = Ok n" "n \<le> 251" by blast
      obtain body e p2 where b: "io_ReadFull (spwLink P) (n + 2) ?s = Some ((body, e), ?s\<lparr>spw_port := p2\<rparr>)" "pinv p2"
        using ReadFull_ends [of ?s "n + 2"] r(2) by auto
      with n show ?thesis
        unfolding head by (auto simp: intro!: exI [of _ "?s\<lparr>spw_port := p2\<rparr>"])
    next
      case False
      with r(2) show ?thesis
        unfolding head by (cases "expectedResponseLenth (got ! 1) (got ! 2)") (auto intro!: exI [of _ ?s])
    qed
  qed
qed

lemma rtu_Sleep_port: "pinv (spw_port (rt_link rt)) \<Longrightarrow> pinv (spw_port (rt_link (rtu_Sleep (spwLink P) d rt)))"
  by (simp add: rtu_Sleep_def spwLink_def psleep)

lemma rtu_finish_ends:
  assumes "pinv (spw_port (rt_link rt))"
  shows "\<exists>rt'. rtu_finish (spwLink P) r rt = Some (r, rt') \<and> pinv (spw_port (rt_link rt'))"
proof -
  obtain s where "discard (spwLink P) (rt_link (rtu_Sleep (spwLink P) (int maxRTUFrameLength * rt_t1 rt) rt)) = Some s"
    "pinv (spw_port s)"
    using discard_ends [OF rtu_Sleep_port [OF assms]] by blast
  with assms show ?thesis
    by (auto simp: rtu_finish_def Let_def)
qed

lemma rtu_ExecuteRequest_ends:
  assumes "pinv (spw_port (rt_link rt))"
  shows "\<exists>r rt'. rtu_ExecuteRequest (spwLink P) req rt = Some (r, rt') \<and> pinv (spw_port (rt_link rt'))"
proof -
  let ?L = "spwLink P"
  obtain rt1 where d: "rtu_SetDeadline ?L rt = (Ok (), rt1)" "pinv (spw_port (rt_link rt1))"
    using assms by (simp add: rtu_SetDeadline_def spwLink_def spw_SetDeadline_def)
  let ?rt2 = "rtu_wait ?L rt1"
  have w: "pinv (spw_port (rt_link ?rt2))"
    using d(2) by (simp add: rtu_wait_def Let_def rtu_Sleep_port)
  obtain n err p where pw: "port_Write P (assembleRTUFrame req) (spw_port (rt_link ?rt2)) = ((n, err), p)"
    by (metis surj_pair)
  then have wr: "link_Write ?L (assembleRTUFrame req) (rt_link ?rt2) = ((n, err), (rt_link ?rt2)\<lparr>spw_port := p\<rparr>)"
    by (simp add: spwLink_def spw_Write_def)
  note pinv_p = pwrite [OF w pw]
  show ?thesis
  proof (cases err)
    case (Some e)
    with d(1) wr pinv_p show ?thesis
      by (simp add: rtu_ExecuteRequest_def Let_def)
  next
    case None
    define rt3 where "rt3 = ?rt2\<lparr>rt_link := (rt_link ?rt2)\<lparr>spw_port := p\<rparr>,
      rt_lastActivity := time_Now ?L (rt_link ?rt2) + int n * rt_t1 ?rt2\<rparr>"
    define rt4 where "rt4 = rtu_Sleep ?L (rt_lastActivity rt3 + rt_t35 rt3 - time_Now ?L (rt_link rt3)) rt3"
    have "pinv (spw_port (rt_link rt3))"
      using pinv_p by (simp add: rt3_def)
    then have "pinv (spw_port (rt_link rt4))"
      unfolding rt4_def by (rule rtu_Sleep_port)
    then obtain r s where f: "readRTUFrame ?L rt4 = Some (r, rt4\<lparr>rt_link := s\<rparr>)" "pinv (spw_port s)"
      using readRTUFrame_ends by blast
    then obtain rt' where "rtu_finish ?L r (rt4\<lparr>rt_link := s\<rparr>) = Some (r, rt')" "pinv (spw_port (rt_link rt'))"
      using rtu_finish_ends [of "rt4\<lparr>rt_link := s\<rparr>" r] by auto
    moreover have "rtu_ExecuteRequest ?L req rt = do { (r, rt5) \<leftarrow> readRTUFrame ?L rt4; rtu_finish ?L r rt5 }"
      using None d(1) wr by (simp only: rtu_ExecuteRequest_def Let_def prod.case sum.case option.case rt3_def rt4_def)
    ultimately show ?thesis
      using f by simp
  qed
qed

end

end
