(* ===== verification/Serial_Posix.thy ===== *)
theory Serial_Posix
  imports Serial_Wrapper Tcp_Transport
begin

text \<open>
  internal/serial/serial_posix.go and serial_linux.go (linux/amd64): the port over the system
  calls of a kernel, which are parameters.  The contract of the kernel gives the contract of the
  port; a small kernel meets it.
\<close>

section \<open>Terminal settings\<close>

text \<open>Constants of package syscall on linux/amd64.\<close>

definition baudRates :: "int \<Rightarrow> uint32 option" where
  "baudRates = map_of [
     (50, 0x1), (75, 0x2), (110, 0x3), (134, 0x4), (150, 0x5), (200, 0x6), (300, 0x7), (600, 0x8),
     (1200, 0x9), (1800, 0xa), (2400, 0xb), (4800, 0xc), (9600, 0xd), (19200, 0xe), (38400, 0xf),
     (57600, 0x1001), (115200, 0x1002), (230400, 0x1003), (460800, 0x1004), (500000, 0x1005),
     (576000, 0x1006), (921600, 0x1007), (1000000, 0x1008), (1152000, 0x1009), (1500000, 0x100a),
     (2000000, 0x100b), (2500000, 0x100c), (3000000, 0x100d), (3500000, 0x100e), (4000000, 0x100f)]"

definition charSizes :: "int \<Rightarrow> uint32 option" where
  "charSizes = map_of [(5, 0x0), (6, 0x10), (7, 0x20), (8, 0x30)]"

abbreviation (input) B19200 :: uint32 where "B19200 \<equiv> 0xe"
abbreviation (input) CS8 :: uint32 where "CS8 \<equiv> 0x30"
abbreviation (input) CSTOPB :: uint32 where "CSTOPB \<equiv> 0x40"
abbreviation (input) CREAD :: uint32 where "CREAD \<equiv> 0x80"
abbreviation (input) PARENB :: uint32 where "PARENB \<equiv> 0x100"
abbreviation (input) PARODD :: uint32 where "PARODD \<equiv> 0x200"
abbreviation (input) CLOCAL :: uint32 where "CLOCAL \<equiv> 0x800"
abbreviation (input) INPCK :: uint32 where "INPCK \<equiv> 0x10"

text \<open>The fields of \<open>syscall.Termios\<close> the code writes; the others stay zero.\<close>

record Termios =
  Iflag :: uint32
  Cflag :: uint32
  Ispeed :: uint32
  Ospeed :: uint32

definition cfSetIspeed :: "uint32 \<Rightarrow> Termios \<Rightarrow> Termios" where
  "cfSetIspeed speed t = t\<lparr>Ispeed := speed\<rparr>"

definition cfSetOspeed :: "uint32 \<Rightarrow> Termios \<Rightarrow> Termios" where
  "cfSetOspeed speed t = t\<lparr>Ospeed := speed\<rparr>"

definition addCflag :: "uint32 \<Rightarrow> Termios \<Rightarrow> Termios" where
  "addCflag f t = t\<lparr>Cflag := or (Cflag t) f\<rparr>"

definition newTermios :: "serial_Config \<Rightarrow> Termios result" where
  "newTermios c =
     (let t0 = \<lparr>Iflag = 0, Cflag = 0, Ispeed = 0, Ospeed = 0\<rparr> in
      case (if sc_BaudRate c = 0 then Some B19200 else baudRates (sc_BaudRate c)) of
        None \<Rightarrow> Err (OtherError ''serial: unsupported baud rate'')
      | Some speed \<Rightarrow>
          let t1 = cfSetOspeed speed (cfSetIspeed speed (addCflag speed t0)) in
          case (if sc_DataBits c = 0 then Some CS8 else charSizes (sc_DataBits c)) of
            None \<Rightarrow> Err (OtherError ''serial: unsupported character size'')
          | Some size' \<Rightarrow>
              let t2 = addCflag size' t1 in
              if sc_StopBits c \<notin> {0, 1, 2} then Err (OtherError ''serial: unsupported stop bits'')
              else
                let t3 = (if sc_StopBits c = 2 then addCflag CSTOPB t2 else t2) in
                if sc_Parity c \<notin> {''N'', ''O'', '''', ''E''} then Err (OtherError ''serial: unsupported parity'')
                else
                  let t4 = (if sc_Parity c = ''O'' then addCflag PARODD t3 else t3);
                      t5 = (if sc_Parity c = ''N'' then t4
                            else (addCflag PARENB t4)\<lparr>Iflag := or (Iflag t4) INPCK\<rparr>)
                  in Ok (addCflag (or CREAD CLOCAL) t5))"

section \<open>Sets of file descriptors\<close>

text \<open>
  \<open>syscall.FdSet\<close> is an array of 16 words of 64 bits.  Go's division truncates, and a shift by a
  negative \<open>int\<close> turned into a \<open>uint\<close> is a shift by 64 or more: 0.
\<close>

type_synonym FdSet = "64 word list"

definition fdget :: "int \<Rightarrow> FdSet \<Rightarrow> int \<times> int" where
  "fdget fd fds =
     (let width = 1024 sdiv int (length fds) in (fd sdiv width smod int (length fds), fd smod width))"

definition bit_at :: "int \<Rightarrow> 64 word" where
  "bit_at pos = (if 0 \<le> pos then push_bit (nat pos) 1 else 0)"

definition fdset :: "int \<Rightarrow> FdSet \<Rightarrow> FdSet" where
  "fdset fd fds = (case fdget fd fds of (idx, pos) \<Rightarrow> fds[nat idx := bit_at pos])"

definition fdisset :: "int \<Rightarrow> FdSet \<Rightarrow> bool" where
  "fdisset fd fds = (case fdget fd fds of (idx, pos) \<Rightarrow> and (fds ! nat idx) (bit_at pos) \<noteq> 0)"

definition noFds :: FdSet where
  "noFds = replicate 16 0"

section \<open>The port\<close>

text \<open>\<open>rs485_ioctl_opts\<close>, without its padding.\<close>

record rs485_ioctl_opts =
  rs_flags :: uint32
  rs_delay_rts_before_send :: uint32
  rs_delay_rts_after_send :: uint32

abbreviation (input) EINTR :: go_error where "EINTR \<equiv> OtherError ''interrupted system call''"

text \<open>
  The system calls, over the state \<open>'o\<close> of the kernel, with the clock.  The calls of
  \<open>syscall.Syscall\<close> return a number and the error of a non-zero \<open>errno\<close>.  \<open>sys_Select\<close> returns the
  set and the time left (microseconds) as it leaves them.  \<open>sys_signals\<close> bounds how often a call can still be
  interrupted.
\<close>

record 'o os =
  sys_Open :: "string \<Rightarrow> 'o \<Rightarrow> int result \<times> 'o"
  sys_Close :: "int \<Rightarrow> 'o \<Rightarrow> unit result \<times> 'o"
  sys_Read :: "int \<Rightarrow> nat \<Rightarrow> 'o \<Rightarrow> (byte list \<times> go_error option) \<times> 'o"
  sys_Write :: "int \<Rightarrow> byte list \<Rightarrow> 'o \<Rightarrow> (nat \<times> go_error option) \<times> 'o"
  sys_Select :: "int \<Rightarrow> FdSet \<Rightarrow> int option \<Rightarrow> 'o \<Rightarrow> (FdSet \<times> int option \<times> go_error option) \<times> 'o"
  sys_TCSETS :: "int \<Rightarrow> Termios \<Rightarrow> 'o \<Rightarrow> (int \<times> go_error option) \<times> 'o"
  sys_TCGETS :: "int \<Rightarrow> 'o \<Rightarrow> (int \<times> go_error option) \<times> Termios"
  sys_RS485 :: "int \<Rightarrow> rs485_ioctl_opts \<Rightarrow> 'o \<Rightarrow> (int \<times> go_error option) \<times> 'o"
  sys_Now :: "'o \<Rightarrow> int"
  sys_Sleep :: "int \<Rightarrow> 'o \<Rightarrow> 'o"
  sys_signals :: "'o \<Rightarrow> nat"

record 'o posix_port =
  pp_fd :: int
  pp_oldTermios :: "Termios option"
  pp_timeout :: int
  pp_sys :: 'o

definition posix_New :: "'o posix_port \<Rightarrow> 'o posix_port" where
  "posix_New p = \<lparr>pp_fd = -1, pp_oldTermios = None, pp_timeout = 0, pp_sys = pp_sys p\<rparr>"

definition tcsetattr :: "'o os \<Rightarrow> int \<Rightarrow> Termios \<Rightarrow> 'o \<Rightarrow> go_error option \<times> 'o" where
  "tcsetattr K fd t s =
     (case sys_TCSETS K fd t s of
        ((r, Some errno), s') \<Rightarrow> (Some errno, s')
      | ((r, None), s') \<Rightarrow> (if r \<noteq> 0 then Some (OtherError ''tcsetattr failed'') else None, s'))"

definition tcgetattr :: "'o os \<Rightarrow> int \<Rightarrow> 'o \<Rightarrow> Termios result" where
  "tcgetattr K fd s =
     (case sys_TCGETS K fd s of
        ((r, Some errno), t) \<Rightarrow> Err errno
      | ((r, None), t) \<Rightarrow> (if r \<noteq> 0 then Err (OtherError ''tcgetattr failed'') else Ok t))"

definition backupTermios :: "'o os \<Rightarrow> 'o posix_port \<Rightarrow> 'o posix_port" where
  "backupTermios K p =
     (case tcgetattr K (pp_fd p) (pp_sys p) of
        Inl _ \<Rightarrow> p
      | Inr t \<Rightarrow> p\<lparr>pp_oldTermios := Some t\<rparr>)"

definition setTermios :: "'o os \<Rightarrow> Termios \<Rightarrow> 'o posix_port \<Rightarrow> go_error option \<times> 'o posix_port" where
  "setTermios K t p =
     (case tcsetattr K (pp_fd p) t (pp_sys p) of
        (Some _, s) \<Rightarrow> (Some (OtherError ''serial: could not set setting''), p\<lparr>pp_sys := s\<rparr>)
      | (None, s) \<Rightarrow> (None, p\<lparr>pp_sys := s\<rparr>))"

definition restoreTermios :: "'o os \<Rightarrow> 'o posix_port \<Rightarrow> 'o posix_port" where
  "restoreTermios K p =
     (case pp_oldTermios p of
        None \<Rightarrow> p
      | Some t \<Rightarrow>
          (case tcsetattr K (pp_fd p) t (pp_sys p) of
             (Some _, s) \<Rightarrow> p\<lparr>pp_sys := s\<rparr>
           | (None, s) \<Rightarrow> p\<lparr>pp_oldTermios := None, pp_sys := s\<rparr>))"

definition enableRS485 :: "'o os \<Rightarrow> int \<Rightarrow> RS485Config \<Rightarrow> 'o \<Rightarrow> go_error option \<times> 'o" where
  "enableRS485 K fd config s =
     (if \<not> rs_Enabled config then (None, s)
      else
        let flags0 = 1;
            flags1 = (if rs_RtsHighDuringSend config then or flags0 (push_bit 1 1) else flags0);
            flags2 = (if rs_RtsHighAfterSend config then or flags1 (push_bit 2 1) else flags1);
            flags3 = (if rs_RxDuringTx config then or flags2 (push_bit 4 1) else flags2)
        in (case sys_RS485 K fd \<lparr>rs_flags = flags3,
                rs_delay_rts_before_send = word_of_int (rs_DelayRtsBeforeSend config sdiv 1000000),
                rs_delay_rts_after_send = word_of_int (rs_DelayRtsAfterSend config sdiv 1000000)\<rparr> s of
              ((r, Some _), s') \<Rightarrow> (Some (OtherError ''SYS_IOCTL (RS485)''), s')
            | ((r, None), s') \<Rightarrow>
                (if r \<noteq> 0 then Some (OtherError ''serial: unknown error from SYS_IOCTL (RS485)'') else None, s')))"

definition posix_Close :: "'o os \<Rightarrow> 'o posix_port \<Rightarrow> unit result \<times> 'o posix_port" where
  "posix_Close K p =
     (if pp_fd p = -1 then (Ok (), p)
      else
        let p1 = restoreTermios K p;
            (r, s) = sys_Close K (pp_fd p1) (pp_sys p1)
        in (r, p1\<lparr>pp_fd := -1, pp_oldTermios := None, pp_sys := s\<rparr>))"

text \<open>\<open>syscall.Open\<close> returns the descriptor -1 with its error.\<close>

definition posix_Open :: "'o os \<Rightarrow> serial_Config \<Rightarrow> 'o posix_port \<Rightarrow> unit result \<times> 'o posix_port" where
  "posix_Open K c p =
     (case newTermios c of
        Inl e \<Rightarrow> (Err e, p)
      | Inr t \<Rightarrow>
          (case sys_Open K (sc_Address c) (pp_sys p) of
             (Inl e, s) \<Rightarrow> (Err e, p\<lparr>pp_fd := -1, pp_sys := s\<rparr>)
           | (Inr fd, s) \<Rightarrow>
               (case setTermios K t (backupTermios K (p\<lparr>pp_fd := fd, pp_sys := s\<rparr>)) of
                  (Some e, p1) \<Rightarrow>
                    (Err e, p1\<lparr>pp_fd := -1, pp_oldTermios := None,
                       pp_sys := snd (sys_Close K (pp_fd p1) (pp_sys p1))\<rparr>)
                | (None, p1) \<Rightarrow>
                    (case enableRS485 K (pp_fd p1) (sc_RS485 c) (pp_sys p1) of
                       (Some e, s2) \<Rightarrow> (Err e, snd (posix_Close K (p1\<lparr>pp_sys := s2\<rparr>)))
                     | (None, s2) \<Rightarrow> (Ok (), p1\<lparr>pp_sys := s2, pp_timeout := sc_Timeout c\<rparr>)))))"

text \<open>
  The retry loop around \<open>select\<close>, on fuel that outlasts the signals that can still interrupt it.
\<close>

fun selectLoop ::
  "'o os \<Rightarrow> int \<Rightarrow> nat \<Rightarrow> FdSet \<Rightarrow> int option \<Rightarrow> 'o \<Rightarrow> (FdSet \<times> go_error option) \<times> 'o" where
  "selectLoop K fd 0 rfds tv s = ((rfds, Some EINTR), s)"
| "selectLoop K fd (Suc fuel) rfds tv s =
     (case sys_Select K (fd + 1) rfds tv s of
        ((rfds', tv', None), s') \<Rightarrow> ((rfds', None), s')
      | ((rfds', tv', Some e), s') \<Rightarrow>
          if e \<noteq> EINTR then ((rfds', Some (OtherError ''serial: could not select'')), s')
          else selectLoop K fd fuel rfds' tv' s')"

text \<open>
  A failing read is one of no bytes.  \<open>syscall.Read\<close> returns the number -1 with an error, which the code passes on to
  \<open>io.ReadFull\<close>; there it makes the count of the bytes read before the error one less than it is, so that a
  frame whose read fails after its first byte ends with the error of the read and not, as here, with \<open>ErrShortFrame\<close>.
\<close>

definition posix_Read ::
  "'o os \<Rightarrow> nat \<Rightarrow> 'o posix_port \<Rightarrow> (byte list \<times> go_error option) \<times> 'o posix_port" where
  "posix_Read K n p =
     (let fd = pp_fd p;
          tv = (if 0 < pp_timeout p then Some (pp_timeout p div 1000) else None);
          ((rfds, err), s) = selectLoop K fd (Suc (sys_signals K (pp_sys p))) (fdset fd noFds) tv (pp_sys p)
      in case err of
           Some e \<Rightarrow> (([], Some e), p\<lparr>pp_sys := s\<rparr>)
         | None \<Rightarrow>
             if \<not> fdisset fd rfds then (([], Some SerialErrTimeout), p\<lparr>pp_sys := s\<rparr>)
             else apsnd (\<lambda>s'. p\<lparr>pp_sys := s'\<rparr>) (sys_Read K fd n s))"

definition posix_Write ::
  "'o os \<Rightarrow> byte list \<Rightarrow> 'o posix_port \<Rightarrow> (nat \<times> go_error option) \<times> 'o posix_port" where
  "posix_Write K bs p = apsnd (\<lambda>s. p\<lparr>pp_sys := s\<rparr>) (sys_Write K (pp_fd p) bs (pp_sys p))"

definition posixPort :: "'o os \<Rightarrow> 'o posix_port Port" where
  "posixPort K = \<lparr>port_New = posix_New, port_Open = posix_Open K, port_Close = posix_Close K,
     port_Read = posix_Read K, port_Write = posix_Write K, port_Now = (\<lambda>p. sys_Now K (pp_sys p)),
     port_Sleep = (\<lambda>d p. p\<lparr>pp_sys := sys_Sleep K d (pp_sys p)\<rparr>)\<rparr>"

section \<open>Reading\<close>

text \<open>
  What the port relies on: descriptors are not negative, opening takes a free one and closing
  gives it back, the other calls leave the table alone; a call takes time; an interrupted call
  uses up a signal; a read stores at most what was asked for.  The kernel's errors are its own.
\<close>

locale posix_kernel =
  fixes K :: "'o os"
    and fds :: "'o \<Rightarrow> int set"
  assumes open_ok: "sys_Open K name s = (Ok fd, s') \<Longrightarrow> 0 \<le> fd \<and> fd \<notin> fds s \<and> fds s' = insert fd (fds s)"
    and open_err: "sys_Open K name s = (Err e, s') \<Longrightarrow> fds s' = fds s"
    and close_fds: "sys_Close K fd s = (r, s') \<Longrightarrow> fds s' = fds s - {fd}"
    and tcsets_fds: "sys_TCSETS K fd t s = (rt, s') \<Longrightarrow> fds s' = fds s"
    and rs485_fds: "sys_RS485 K fd opts s = (rr, s') \<Longrightarrow> fds s' = fds s"
    and select_time: "sys_Select K nfds rfds tv s = (rs, s') \<Longrightarrow> sys_Now K s < sys_Now K s'"
    and select_signal: "sys_Select K nfds rfds tv s = ((rfds', tv', Some EINTR), s') \<Longrightarrow> sys_signals K s' < sys_signals K s"
    and read_time: "sys_Read K fd n s = ((bs, rerr), s') \<Longrightarrow> sys_Now K s \<le> sys_Now K s' \<and> length bs \<le> n
      \<and> rerr \<noteq> Some ErrRequestTimedOut"
begin

text \<open>The fuel is enough: the loop does not end on an interruption.\<close>

lemma selectLoop_ends:
  "sys_signals K s < fuel \<Longrightarrow> selectLoop K fd fuel rfds tv s = ((rfds', err), s') \<Longrightarrow>
   sys_Now K s < sys_Now K s' \<and> (err = None \<or> err = Some (OtherError ''serial: could not select''))"
proof (induction fuel arbitrary: rfds tv s)
  case (Suc fuel)
  obtain f tv' e s1 where sel: "sys_Select K (fd + 1) rfds tv s = ((f, tv', e), s1)"
    by (metis surj_pair)
  note time = select_time [OF sel]
  show ?case
  proof (cases "e = Some EINTR")
    case True
    then have "sys_signals K s1 < fuel"
      using Suc.prems(1) select_signal [of "fd + 1" rfds tv s f tv' s1] sel by simp
    moreover have "selectLoop K fd fuel f tv' s1 = ((rfds', err), s')"
      using Suc.prems(2) sel True by simp
    ultimately show ?thesis
      using Suc.IH time by (meson order_less_trans)
  next
    case False
    with Suc.prems(2) sel time show ?thesis
      by (auto split: option.splits if_splits)
  qed
qed simp

lemma posix_Read_time:
  assumes "posix_Read K n p = ((bs, err), p')"
  shows "length bs \<le> n \<and> err \<noteq> Some ErrRequestTimedOut \<and> sys_Now K (pp_sys p) < sys_Now K (pp_sys p')"
proof -
  let ?fd = "pp_fd p"
  let ?tv = "if 0 < pp_timeout p then Some (pp_timeout p div 1000) else None"
  obtain f e s where sel: "selectLoop K ?fd (Suc (sys_signals K (pp_sys p))) (fdset ?fd noFds) ?tv (pp_sys p) = ((f, e), s)"
    by (metis surj_pair)
  then have S: "sys_Now K (pp_sys p) < sys_Now K s" "e = None \<or> e = Some (OtherError ''serial: could not select'')"
    using selectLoop_ends [OF _ sel] by auto
  obtain bs1 e1 s1 where rd: "sys_Read K ?fd n s = ((bs1, e1), s1)"
    by (metis surj_pair)
  show ?thesis
  proof (cases "e = None \<and> fdisset ?fd f")
    case True
    then have "((bs, err), p') = ((bs1, e1), p\<lparr>pp_sys := s1\<rparr>)"
      using assms sel rd by (simp add: posix_Read_def Let_def del: selectLoop.simps)
    with read_time [OF rd] S(1) show ?thesis by auto
  next
    case False
    then have "bs = [] \<and> p' = p\<lparr>pp_sys := s\<rparr> \<and> (err = Some SerialErrTimeout \<or> err = e \<and> e \<noteq> None)"
      using assms sel by (auto simp: posix_Read_def Let_def simp del: selectLoop.simps split: option.splits if_splits)
    with S show ?thesis by auto
  qed
qed

end

sublocale posix_kernel \<subseteq> serial_port "posixPort K" "\<lambda>_. True"
  by unfold_locales (auto simp: posixPort_def dest!: posix_Read_time)

context posix_kernel begin

lemma is_serial_port: "serial_port (posixPort K) (\<lambda>_. True)"
  by (rule serial_port_axioms)

end

section \<open>Opening and closing\<close>

context posix_kernel begin

lemma tcsetattr_fds: "tcsetattr K fd t s = (e, s') \<Longrightarrow> fds s' = fds s"
  by (auto simp: tcsetattr_def split: prod.splits option.splits dest!: tcsets_fds)

lemma enableRS485_fds: "enableRS485 K fd config s = (e, s') \<Longrightarrow> fds s' = fds s"
  by (auto simp: enableRS485_def Let_def split: prod.splits option.splits if_splits dest!: rs485_fds)

lemma restoreTermios_fds: "fds (pp_sys (restoreTermios K p)) = fds (pp_sys p) \<and> pp_fd (restoreTermios K p) = pp_fd p"
proof (cases "pp_oldTermios p")
  case (Some t)
  obtain e s where "tcsetattr K (pp_fd p) t (pp_sys p) = (e, s)"
    by (metis surj_pair)
  with Some tcsetattr_fds [OF this] show ?thesis
    by (cases e) (simp_all add: restoreTermios_def)
qed (simp add: restoreTermios_def)

lemma setTermios_fds:
  "fds (pp_sys (snd (setTermios K t p))) = fds (pp_sys p) \<and> pp_fd (snd (setTermios K t p)) = pp_fd p"
proof -
  obtain e s where "tcsetattr K (pp_fd p) t (pp_sys p) = (e, s)"
    by (metis surj_pair)
  with tcsetattr_fds [OF this] show ?thesis
    by (cases e) (simp_all add: setTermios_def)
qed

lemma backupTermios_fds: "pp_sys (backupTermios K p) = pp_sys p \<and> pp_fd (backupTermios K p) = pp_fd p"
  by (simp add: backupTermios_def split: sum.split)

lemma posix_Close_fds:
  "pp_fd (snd (posix_Close K p)) = -1
   \<and> fds (pp_sys (snd (posix_Close K p))) = fds (pp_sys p) - (if pp_fd p = -1 then {} else {pp_fd p})"
proof -
  obtain r s where "sys_Close K (pp_fd (restoreTermios K p)) (pp_sys (restoreTermios K p)) = (r, s)"
    by (metis surj_pair)
  with restoreTermios_fds [of p] close_fds [OF this] show ?thesis
    by (simp add: posix_Close_def)
qed

lemma posix_Open_fds:
  assumes "posix_Open K c p = (r, p')" "pp_fd p = -1"
  shows "case r of
      Inl _ \<Rightarrow> fds (pp_sys p') = fds (pp_sys p) \<and> pp_fd p' = -1
    | Inr _ \<Rightarrow> 0 \<le> pp_fd p' \<and> pp_fd p' \<notin> fds (pp_sys p) \<and> fds (pp_sys p') = insert (pp_fd p') (fds (pp_sys p))
        \<and> pp_timeout p' = sc_Timeout c"
proof (cases "newTermios c")
  case (Inl e)
  with assms show ?thesis by (auto simp: posix_Open_def)
next
  case (Inr t)
  obtain o1 s1 where op: "sys_Open K (sc_Address c) (pp_sys p) = (o1, s1)"
    by (metis surj_pair)
  show ?thesis
  proof (cases o1)
    case (Inl e)
    with assms Inr op show ?thesis
      by (auto simp: posix_Open_def dest!: open_err)
  next
    case fd: (Inr fd)
    note new = open_ok [OF op [unfolded fd]]
    let ?p0 = "backupTermios K (p\<lparr>pp_fd := fd, pp_sys := s1\<rparr>)"
    obtain e1 p1 where set: "setTermios K t ?p0 = (e1, p1)"
      by (metis surj_pair)
    have p1: "fds (pp_sys p1) = fds s1" "pp_fd p1 = fd"
      using setTermios_fds [of t ?p0] set backupTermios_fds [of "p\<lparr>pp_fd := fd, pp_sys := s1\<rparr>"] by simp_all
    obtain e2 s2 where rs: "enableRS485 K (pp_fd p1) (sc_RS485 c) (pp_sys p1) = (e2, s2)"
      by (metis surj_pair)
    note s2 = enableRS485_fds [OF rs]
    obtain c1 s3 where cl: "sys_Close K (pp_fd p1) (pp_sys p1) = (c1, s3)"
      by (metis surj_pair)
    have pc: "pp_fd (snd (posix_Close K (p1\<lparr>pp_sys := s2\<rparr>))) = -1"
      "fds (pp_sys (snd (posix_Close K (p1\<lparr>pp_sys := s2\<rparr>)))) = fds s1 - {fd}"
      using posix_Close_fds [of "p1\<lparr>pp_sys := s2\<rparr>"] p1 s2 new by simp_all
    have fresh: "fds s1 - {fd} = fds (pp_sys p)"
      using new by auto
    have open_def: "(r, p') = (case e1 of
        Some e \<Rightarrow> (Err e, p1\<lparr>pp_fd := -1, pp_oldTermios := None, pp_sys := s3\<rparr>)
      | None \<Rightarrow> (case e2 of
          Some e \<Rightarrow> (Err e, snd (posix_Close K (p1\<lparr>pp_sys := s2\<rparr>)))
        | None \<Rightarrow> (Ok (), p1\<lparr>pp_sys := s2, pp_timeout := sc_Timeout c\<rparr>)))"
      using assms(1) Inr op fd set rs cl by (simp add: posix_Open_def split: option.splits)
    consider e where "e1 = Some e" | e where "e1 = None" "e2 = Some e" | "e1 = None" "e2 = None"
      by (cases e1; cases e2) auto
    then show ?thesis
    proof cases
      case 1
      with open_def have "r = Err e" "p' = p1\<lparr>pp_fd := -1, pp_oldTermios := None, pp_sys := s3\<rparr>"
        by simp_all
      then show ?thesis
        using close_fds [OF cl] p1 fresh by simp
    next
      case 2
      with open_def have "r = Err e" "p' = snd (posix_Close K (p1\<lparr>pp_sys := s2\<rparr>))"
        by simp_all
      then show ?thesis
        using pc fresh by simp
    next
      case 3
      with open_def have "r = Ok ()" "p' = p1\<lparr>pp_sys := s2, pp_timeout := sc_Timeout c\<rparr>"
        by simp_all
      then show ?thesis
        using p1 s2 new by simp
    qed
  qed
qed

end

section \<open>A kernel\<close>

text \<open>
  A kernel with one line: the bytes waiting on it, the open descriptors, the signals to come and a
  clock that every call moves on by a microsecond, and a \<open>select\<close> that finds nothing by its timeout.
\<close>

record kernel =
  k_line :: "byte list"
  k_sent :: "byte list"
  k_fds :: "int list"
  k_signals :: nat
  k_clock :: int

definition k_Select :: "int \<Rightarrow> FdSet \<Rightarrow> int option \<Rightarrow> kernel \<Rightarrow> (FdSet \<times> int option \<times> go_error option) \<times> kernel" where
  "k_Select nfds rfds tv s =
     (if 0 < k_signals s then
        ((rfds, tv, Some EINTR), s\<lparr>k_signals := k_signals s - 1, k_clock := k_clock s + 1000\<rparr>)
      else if k_line s \<noteq> [] then ((rfds, tv, None), s\<lparr>k_clock := k_clock s + 1000\<rparr>)
      else ((noFds, Some 0, None),
        s\<lparr>k_clock := k_clock s + 1000 * max 1 (case tv of Some t \<Rightarrow> t | None \<Rightarrow> 1)\<rparr>))"

definition kernelOs :: "kernel os" where
  "kernelOs = \<lparr>sys_Open = (\<lambda>name s. let fd = Max (insert 2 (set (k_fds s))) + 1 in (Ok fd, s\<lparr>k_fds := fd # k_fds s\<rparr>)),
     sys_Close = (\<lambda>fd s. (Ok (), s\<lparr>k_fds := removeAll fd (k_fds s)\<rparr>)),
     sys_Read = (\<lambda>fd n s. ((take n (k_line s), None), s\<lparr>k_line := drop n (k_line s), k_clock := k_clock s + 1000\<rparr>)),
     sys_Write = (\<lambda>fd bs s. ((length bs, None), s\<lparr>k_sent := k_sent s @ bs, k_clock := k_clock s + 1000\<rparr>)),
     sys_Select = k_Select,
     sys_TCSETS = (\<lambda>fd t s. ((0, None), s)),
     sys_TCGETS = (\<lambda>fd s. ((0, None), \<lparr>Iflag = 0, Cflag = 0xbd, Ispeed = 0xd, Ospeed = 0xd\<rparr>)),
     sys_RS485 = (\<lambda>fd opts s. ((0, None), s)),
     sys_Now = k_clock,
     sys_Sleep = (\<lambda>d s. s\<lparr>k_clock := k_clock s + max 0 d\<rparr>),
     sys_signals = k_signals\<rparr>"

interpretation kern: posix_kernel kernelOs "\<lambda>s. set (k_fds s)"
proof unfold_locales
  fix name s fd s'
  assume "sys_Open kernelOs name s = (Ok fd, s')"
  then have fd: "fd = Max (insert 2 (set (k_fds s))) + 1" "s' = s\<lparr>k_fds := fd # k_fds s\<rparr>"
    by (auto simp: kernelOs_def Let_def)
  have "x < fd" if "x \<in> insert 2 (set (k_fds s))" for x
    unfolding fd(1) using Max_ge [OF _ that] by simp
  then have "2 < fd" "fd \<notin> set (k_fds s)"
    by blast+
  with fd(2) show "0 \<le> fd \<and> fd \<notin> set (k_fds s) \<and> set (k_fds s') = insert fd (set (k_fds s))"
    by simp
qed (auto simp: kernelOs_def k_Select_def Let_def split: if_splits)
section \<open>Properties\<close>

text \<open>
  C30: a request over a serial line always comes back.  On any kernel whose calls take time and
  interrupt a \<open>select\<close> only finitely often, the RTU transport over the serial wrapper over the
  POSIX port returns from \<open>ExecuteRequest\<close> with a response or an error: the reads that time out every
  10 ms and are masked by the wrapper end at the deadline, and so does the flush after a bad frame.
\<close>

theorem serial_exchange_ends:
  assumes "posix_kernel K fds"
  shows "\<exists>r rt'. rtu_ExecuteRequest (spwLink (posixPort K)) req rt = Some (r, rt')"
  using serial_port.rtu_ExecuteRequest_ends [OF posix_kernel.is_serial_port [OF assms] TrueI] by blast

definition demo_kernel :: "byte list \<Rightarrow> kernel" where
  "demo_kernel line = \<lparr>k_line = line, k_sent = [], k_fds = [0, 1, 2, 3], k_signals = 2, k_clock = 0\<rparr>"

definition demo_port :: "byte list \<Rightarrow> kernel posix_port" where
  "demo_port line = \<lparr>pp_fd = 3, pp_oldTermios = None, pp_timeout = 10000000, pp_sys = demo_kernel line\<rparr>"

definition demo_wrapper :: "byte list \<Rightarrow> int \<Rightarrow> kernel posix_port serialPortWrapper" where
  "demo_wrapper line deadline =
     \<lparr>spw_conf = \<lparr>spc_Device = ''/dev/ttyUSB0'', spc_Speed = 9600, spc_DataBits = 8, spc_Parity = 0, spc_StopBits = 2\<rparr>,
      spw_port = demo_port line, spw_deadline = deadline\<rparr>"

theorem serial_exchange_ends_witness:
  "\<exists>r rt'. rtu_ExecuteRequest (spwLink (posixPort kernelOs)) demo_pdu
     \<lparr>rt_link = demo_wrapper [1, 2, 3] 0, rt_timeout = 300000000, rt_lastActivity = 0, rt_t35 = 1750000, rt_t1 = 572916\<rparr>
     = Some (r, rt')"
  by (rule serial_exchange_ends [OF kern.posix_kernel_axioms])

text \<open>
  Reads over a serial line fill the buffer or end at the deadline.  \<open>io.ReadFull\<close> over the
  wrapper returns with no error exactly when the buffer is full, never stores more than fits, and
  reports a time-out of the request only once the deadline has passed.
\<close>

lemma serial_read_deadline:
  assumes "posix_kernel K fds"
  shows "\<exists>bs err p. io_ReadFull (spwLink (posixPort K)) n spw = Some ((bs, err), spw\<lparr>spw_port := p\<rparr>)
    \<and> (err = None \<longleftrightarrow> length bs = n) \<and> length bs \<le> n
    \<and> (err = Some ErrRequestTimedOut \<longrightarrow> spw_deadline spw < sys_Now K (pp_sys p))"
  using serial_port.ReadFull_ends [OF posix_kernel.is_serial_port [OF assms] TrueI, of n spw] by (auto simp: posixPort_def)

lemma serial_read_deadline_witness:
  "\<exists>bs err p. io_ReadFull (spwLink (posixPort kernelOs)) 4 (demo_wrapper [1, 2, 3] 50000000)
      = Some ((bs, err), (demo_wrapper [1, 2, 3] 50000000)\<lparr>spw_port := p\<rparr>) \<and> length bs \<le> 4"
  using serial_read_deadline [OF kern.posix_kernel_axioms, of 4 "demo_wrapper [1, 2, 3] 50000000"] by blast

text \<open>
  C31: no descriptor is lost.  Opening a closed port either succeeds and holds exactly one new
  descriptor of the process, or fails and leaves the port closed and the descriptors as they were,
  whichever step failed; closing gives the descriptor back and can be repeated.
\<close>

theorem posix_port_descriptors:
  assumes "posix_kernel K fds" "pp_fd p = -1" "posix_Open K c p = (r, p1)" "posix_Close K p1 = (r2, p2)"
  shows "(case r of
        Inl e \<Rightarrow> pp_fd p1 = -1 \<and> fds (pp_sys p1) = fds (pp_sys p)
      | Inr _ \<Rightarrow> pp_fd p1 \<notin> fds (pp_sys p) \<and> fds (pp_sys p1) = insert (pp_fd p1) (fds (pp_sys p))
          \<and> pp_timeout p1 = sc_Timeout c)
    \<and> fds (pp_sys p2) = fds (pp_sys p) \<and> posix_Close K p2 = (Ok (), p2)"
proof -
  have open_fds: "case r of
      Inl _ \<Rightarrow> fds (pp_sys p1) = fds (pp_sys p) \<and> pp_fd p1 = -1
    | Inr _ \<Rightarrow> 0 \<le> pp_fd p1 \<and> pp_fd p1 \<notin> fds (pp_sys p) \<and> fds (pp_sys p1) = insert (pp_fd p1) (fds (pp_sys p))
        \<and> pp_timeout p1 = sc_Timeout c"
    by (rule posix_kernel.posix_Open_fds [OF assms(1,3,2)])
  have "pp_fd p2 = -1 \<and> fds (pp_sys p2) = fds (pp_sys p1) - (if pp_fd p1 = -1 then {} else {pp_fd p1})"
    using posix_kernel.posix_Close_fds [OF assms(1), of p1] assms(4) by simp
  with open_fds show ?thesis
    by (auto simp: posix_Close_def split: sum.splits)
qed

definition demo_config :: serial_Config where
  "demo_config = \<lparr>sc_Address = ''/dev/ttyUSB0'', sc_BaudRate = 9600, sc_DataBits = 8, sc_StopBits = 2,
     sc_Parity = ''N'', sc_Timeout = 10000000, sc_RS485 = noRS485\<rparr>"

theorem posix_port_descriptors_witness:
  "\<exists>r p1 r2 p2. posix_Open kernelOs demo_config (posix_New (demo_port [])) = (r, p1)
     \<and> posix_Close kernelOs p1 = (r2, p2) \<and> set (k_fds (pp_sys p2)) = {0, 1, 2, 3}"
proof -
  let ?p = "posix_New (demo_port [])"
  obtain r p1 r2 p2 where c: "posix_Open kernelOs demo_config ?p = (r, p1)" "posix_Close kernelOs p1 = (r2, p2)"
    by (metis surj_pair)
  have "pp_fd ?p = -1"
    by (simp add: posix_New_def)
  from posix_port_descriptors [OF kern.posix_kernel_axioms this c]
  have "set (k_fds (pp_sys p2)) = set (k_fds (pp_sys ?p))" by blast
  also have "\<dots> = {0, 1, 2, 3}"
    by (simp add: posix_New_def demo_port_def demo_kernel_def)
  finally show ?thesis
    using c by blast
qed

lemma baudRates_bits: "baudRates b = Some s \<Longrightarrow> n \<in> {4, 5, 6, 7, 8, 9, 11} \<Longrightarrow> \<not> bit s n"
  by (auto simp: baudRates_def bit_numeral_rec split: if_splits)

lemma charSizes_cases: "charSizes d = Some s \<Longrightarrow> (d, s) \<in> {(5, 0), (6, 0x10), (7, 0x20), (8, 0x30)}"
  by (auto simp: charSizes_def split: if_splits)


lemma baudRates_mask: "baudRates b = Some s \<Longrightarrow> and s 0x30 = 0 \<and> and s 0x100f = s"
  by (auto simp: baudRates_def split: if_splits)

lemma charSizes_None: "charSizes d = None \<longleftrightarrow> \<not> (5 \<le> d \<and> d \<le> 8)"
  by (auto simp: charSizes_def)

lemma addCflag_simps [simp]:
  "Cflag (addCflag f t) = or (Cflag t) f" "Iflag (addCflag f t) = Iflag t"
  "Ispeed (addCflag f t) = Ispeed t" "Ospeed (addCflag f t) = Ospeed t"
  by (simp_all add: addCflag_def)

definition config_ok :: "serial_Config \<Rightarrow> bool" where
  "config_ok c \<longleftrightarrow> (sc_BaudRate c = 0 \<or> baudRates (sc_BaudRate c) \<noteq> None)
     \<and> (sc_DataBits c = 0 \<or> 5 \<le> sc_DataBits c \<and> sc_DataBits c \<le> 8)
     \<and> sc_StopBits c \<in> {0, 1, 2} \<and> sc_Parity c \<in> {''N'', ''O'', '''', ''E''}"

lemma newTermios_Ok:
  assumes "newTermios c = Ok t"
  obtains speed size' where "(if sc_BaudRate c = 0 then Some B19200 else baudRates (sc_BaudRate c)) = Some speed"
    and "(if sc_DataBits c = 0 then Some CS8 else charSizes (sc_DataBits c)) = Some size'"
    and "sc_StopBits c \<in> {0, 1, 2}" "sc_Parity c \<in> {''N'', ''O'', '''', ''E''}"
    and "Ispeed t = speed" "Ospeed t = speed"
    and "Cflag t = or (or (or (or (or speed size')
        (if sc_StopBits c = 2 then CSTOPB else 0)) (if sc_Parity c = ''O'' then PARODD else 0))
        (if sc_Parity c = ''N'' then 0 else PARENB)) (or CREAD CLOCAL)"
    and "Iflag t = (if sc_Parity c = ''N'' then 0 else INPCK)"
  using assms that
  by (auto simp: newTermios_def Let_def cfSetIspeed_def cfSetOspeed_def split: option.splits if_splits)

text \<open>
  The terminal settings say what the configuration says.  \<open>newTermios\<close> accepts exactly the
  configurations with a known baud rate, 5 to 8 data bits, 1 or 2 stop bits and a known parity (0
  and the empty string stand for the defaults), and the flags it sets encode them: two stop bits,
  parity, odd parity and the character size each in their own bits, receiver on.
\<close>

lemma newTermios_encodes_config:
  "(case newTermios c of
      Inl _ \<Rightarrow> \<not> config_ok c
    | Inr t \<Rightarrow> config_ok c
        \<and> (let speed = the (if sc_BaudRate c = 0 then baudRates 19200 else baudRates (sc_BaudRate c))
           in Ispeed t = speed \<and> Ospeed t = speed \<and> and (Cflag t) 0x100f = speed)
        \<and> and (Cflag t) 0x30 = word_of_int (16 * ((if sc_DataBits c = 0 then 8 else sc_DataBits c) - 5))
        \<and> (bit (Cflag t) 6 \<longleftrightarrow> sc_StopBits c = 2) \<and> (bit (Cflag t) 8 \<longleftrightarrow> sc_Parity c \<noteq> ''N'')
        \<and> (bit (Cflag t) 9 \<longleftrightarrow> sc_Parity c = ''O'') \<and> bit (Cflag t) 7 \<and> bit (Cflag t) 11
        \<and> (bit (Iflag t) 4 \<longleftrightarrow> sc_Parity c \<noteq> ''N''))"
proof (cases "newTermios c")
  case (Inl e)
  then show ?thesis
    by (auto simp: newTermios_def config_ok_def charSizes_None Let_def split: option.splits if_splits)
next
  case (Inr t)
  obtain speed sz where T: "(if sc_BaudRate c = 0 then Some B19200 else baudRates (sc_BaudRate c)) = Some speed"
    "(if sc_DataBits c = 0 then Some CS8 else charSizes (sc_DataBits c)) = Some sz"
    "sc_StopBits c \<in> {0, 1, 2}" "sc_Parity c \<in> {''N'', ''O'', '''', ''E''}"
    "Ispeed t = speed" "Ospeed t = speed"
    "Cflag t = or (or (or (or (or speed sz)
        (if sc_StopBits c = 2 then CSTOPB else 0)) (if sc_Parity c = ''O'' then PARODD else 0))
        (if sc_Parity c = ''N'' then 0 else PARENB)) (or CREAD CLOCAL)"
    "Iflag t = (if sc_Parity c = ''N'' then 0 else INPCK)"
    by (rule newTermios_Ok [OF Inr])
  have "\<exists>b. baudRates b = Some speed"
  proof (cases "sc_BaudRate c = 0")
    case True
    then have "baudRates 19200 = Some speed"
      using T(1) by (simp add: baudRates_def)
    then show ?thesis ..
  next
    case False
    with T(1) show ?thesis by auto
  qed
  then have sp: "\<not> bit speed 6" "\<not> bit speed 7" "\<not> bit speed 8" "\<not> bit speed 9" "\<not> bit speed 11"
    "and speed 0x30 = 0" "and speed 0x100f = speed"
    using baudRates_bits baudRates_mask by blast+
  have sz: "sz = word_of_int (16 * ((if sc_DataBits c = 0 then 8 else sc_DataBits c) - 5))"
    "sz \<in> {0, 0x10, 0x20, 0x30}"
    using T(2) by (auto split: if_splits dest!: charSizes_cases)
  have speed: "the (if sc_BaudRate c = 0 then baudRates 19200 else baudRates (sc_BaudRate c)) = speed"
    using T(1) by (auto simp: baudRates_def split: if_splits)
  have ok: "config_ok c"
    using T(1-4) charSizes_None [of "sc_DataBits c"] by (auto simp: config_ok_def split: if_splits)
  have masks: "and (Cflag t) 0x100f = speed" "and (Cflag t) 0x30 = sz"
    unfolding T(7) using sz(2) by (auto simp: bit.conj_disj_distrib2 sp)
  have bits: "bit (Cflag t) 6 = (sc_StopBits c = 2)" "bit (Cflag t) 8 = (sc_Parity c \<noteq> ''N'')"
    "bit (Cflag t) 9 = (sc_Parity c = ''O'')" "bit (Cflag t) 7" "bit (Cflag t) 11"
    "bit (Iflag t) 4 = (sc_Parity c \<noteq> ''N'')"
    unfolding T(7,8) using sz(2) by (auto simp: bit_or_iff sp bit_numeral_rec)
  from Inr ok T(5,6) masks bits sz(1) speed show ?thesis
    by simp
qed

lemma smod_nonneg: "0 \<le> a \<Longrightarrow> 0 < b \<Longrightarrow> a smod b = (a mod b :: int)"
  by (cases "a = 0") (simp_all add: signed_modulo_int_def)

lemma fdget_16: "length fds = 16 \<Longrightarrow> 0 \<le> fd \<Longrightarrow> fd < 1024 \<Longrightarrow> fdget fd fds = (fd div 64, fd mod 64)"
  using sdiv_nonneg [of fd 64] smod_nonneg [of "fd div 64" 16] smod_nonneg [of fd 64]
  by (simp add: fdget_def Let_def sdiv_nonneg)

lemma bit_at_and: "0 \<le> i \<Longrightarrow> i < 64 \<Longrightarrow> 0 \<le> j \<Longrightarrow> j < 64 \<Longrightarrow> and (bit_at i) (bit_at j) \<noteq> 0 \<longleftrightarrow> i = j"
proof -
  assume ij: "0 \<le> i" "i < 64" "0 \<le> j" "j < 64"
  have "bit (and (bit_at i) (bit_at j)) n \<longleftrightarrow> n = nat i \<and> n = nat j" for n
    using ij by (auto simp: bit_at_def bit_simps)
  then have "(\<exists>n. bit (and (bit_at i) (bit_at j)) n) \<longleftrightarrow> nat i = nat j"
    by auto
  moreover have "x \<noteq> 0 \<longleftrightarrow> (\<exists>n. bit x n)" for x :: "64 word"
    using bit_eq_iff [of x 0] by (auto dest: bit_imp_le_length)
  ultimately have "and (bit_at i) (bit_at j) \<noteq> 0 \<longleftrightarrow> nat i = nat j"
    by simp
  with ij show ?thesis by (simp add: eq_nat_nat_iff)
qed

text \<open>
  Descriptor sets.  In a set made by \<open>fdset\<close> from the empty one, \<open>fdisset\<close> finds a descriptor
  exactly when it is the one put in (below 1024, the size of a set); but, unlike the macro it
  says it implements, \<open>fdset\<close> throws out the descriptors that share a word with the new one.
\<close>

lemma fd_sets:
  assumes "0 \<le> fd" "fd < 1024" "0 \<le> fd'" "fd' < 1024"
  shows "(fdisset fd' (fdset fd noFds) \<longleftrightarrow> fd' = fd)
    \<and> (fdisset fd' (fdset fd (fdset fd' noFds)) \<longleftrightarrow> fd' = fd \<or> fd' div 64 \<noteq> fd div 64)"
proof -
  let ?i = "nat (fd div 64)" and ?i' = "nat (fd' div 64)"
  have len: "length noFds = 16" "length (fdset f noFds) = 16" "length (fdset f (fdset g noFds)) = 16" for f g
    by (simp_all add: noFds_def fdset_def split: prod.split)
  have i: "?i < 16" "?i' < 16"
    using assms by auto
  have pos: "0 \<le> fd mod 64" "fd mod 64 < 64" "0 \<le> fd' mod 64" "fd' mod 64 < 64"
    by simp_all
  have eq: "fd' = fd \<longleftrightarrow> ?i' = ?i \<and> fd' mod 64 = fd mod 64"
    using assms by (metis div_mult_mod_eq eq_nat_nat_iff pos_imp_zdiv_nonneg_iff zero_less_numeral)
  have sets: "fdset fd fds = fds[?i := bit_at (fd mod 64)]" "fdisset fd' fds \<longleftrightarrow> and (fds ! ?i') (bit_at (fd' mod 64)) \<noteq> 0"
    "fdset fd' fds = fds[?i' := bit_at (fd' mod 64)]"
    if "length fds = 16" for fds
    using that assms fdget_16 [of fds] by (simp_all add: fdset_def fdisset_def)
  have one: "fdset fd noFds = noFds[?i := bit_at (fd mod 64)]" "fdset fd' noFds = noFds[?i' := bit_at (fd' mod 64)]"
    and two: "fdset fd (fdset fd' noFds) = noFds[?i' := bit_at (fd' mod 64), ?i := bit_at (fd mod 64)]"
    using sets(1) [OF len(1)] sets(3) [OF len(1)] sets(1) [OF len(2), of fd'] by simp_all
  let ?b = "bit_at (fd mod 64)" and ?b' = "bit_at (fd' mod 64)"
  have nth: "noFds[?i := ?b] ! ?i' = (if ?i' = ?i then ?b else 0)"
    "noFds[?i' := ?b', ?i := ?b] ! ?i' = (if ?i' = ?i then ?b else ?b')"
    using i by (simp_all add: noFds_def nth_list_update)
  have ands: "and ?b ?b' \<noteq> 0 \<longleftrightarrow> fd mod 64 = fd' mod 64" "and ?b' ?b' \<noteq> 0"
    using bit_at_and [OF pos] bit_at_and [OF pos(3,4,3,4)] by simp_all
  have div: "fd' div 64 = fd div 64 \<longleftrightarrow> ?i' = ?i"
    using assms by (simp add: eq_nat_nat_iff)
  have "fdisset fd' (fdset fd noFds) \<longleftrightarrow> and (if ?i' = ?i then ?b else 0) ?b' \<noteq> 0"
    using sets(2) [OF len(2), of fd] by (simp only: one nth)
  also have "\<dots> \<longleftrightarrow> fd' = fd"
    using ands(1) eq by (cases "?i' = ?i") auto
  finally have first: "fdisset fd' (fdset fd noFds) \<longleftrightarrow> fd' = fd" .
  have "fdisset fd' (fdset fd (fdset fd' noFds)) \<longleftrightarrow> and (if ?i' = ?i then ?b else ?b') ?b' \<noteq> 0"
    using sets(2) [OF len(3), of fd fd'] by (simp only: two nth)
  also have "\<dots> \<longleftrightarrow> fd' = fd \<or> fd' div 64 \<noteq> fd div 64"
    using ands eq div by (cases "?i' = ?i") auto
  finally show ?thesis
    using first by blast
qed

lemma fd_sets_witness:
  "fdisset 5 (fdset 5 noFds) \<and> \<not> fdisset 5 (fdset 6 (fdset 5 noFds))"
  using fd_sets [of 5 5] fd_sets [of 6 5] by simp
end
