(* ===== verification/Client_Config.thy ===== *)
theory Client_Config
  imports Client_Server Serial_Posix
begin

text \<open>
  internal/modbus/client.go: \<open>NewClient\<close>, which turns a URL into a kind of client and fills in the
  defaults, and \<open>Open\<close>, which makes the link and the transport of that kind.  The links and the
  transports of all kinds are gathered in sum types, the values of the interfaces \<open>rtuLink\<close> and
  \<open>transport\<close>.
\<close>

section \<open>strings.SplitN\<close>

text \<open>\<open>strings.SplitN(s, "://", 2)\<close>: one string, or what stands before and after the first separator.\<close>

fun splitURL :: "string \<Rightarrow> string list" where
  "splitURL [] = [[]]"
| "splitURL (c # cs) =
     (if take 3 (c # cs) = ''://'' then [[], drop 3 (c # cs)]
      else case splitURL cs of
        [a, b] \<Rightarrow> [c # a, b]
      | _ \<Rightarrow> [c # cs])"

lemma splitURL_two:
  "splitURL s = [a, b] \<Longrightarrow> s = a @ ''://'' @ b"
proof (induction s arbitrary: a)
  case (Cons c cs)
  show ?case
  proof (cases "take 3 (c # cs) = ''://''")
    case True
    then have "c # cs = ''://'' @ drop 3 (c # cs)"
      by (metis append_take_drop_id)
    with True Cons.prems show ?thesis by simp
  next
    case False
    with Cons show ?thesis
      by (auto split: list.splits if_splits)
  qed
qed simp

text \<open>A scheme without a colon is what is cut off.\<close>

lemma splitURL_scheme: "CHR '':'' \<notin> set a \<Longrightarrow> splitURL (a @ ''://'' @ b) = [a, b]"
  by (induction a) (auto simp: take_Cons')

section \<open>NewClient\<close>

text \<open>The errors and the client, which is returned with either.\<close>

definition newTimeout :: "int \<Rightarrow> ('c, 'p) ClientConfiguration \<Rightarrow> ('c, 'p) ClientConfiguration" where
  "newTimeout d conf = (if cc_Timeout conf = 0 then conf\<lparr>cc_Timeout := d\<rparr> else conf)"

definition newSpeed :: "('c, 'p) ClientConfiguration \<Rightarrow> ('c, 'p) ClientConfiguration" where
  "newSpeed conf = (if cc_Speed conf = 0 then conf\<lparr>cc_Speed := 19200\<rparr> else conf)"

definition newSerialFormat :: "('c, 'p) ClientConfiguration \<Rightarrow> ('c, 'p) ClientConfiguration" where
  "newSerialFormat conf =
     (let conf1 = (if cc_DataBits conf = 0 then conf\<lparr>cc_DataBits := 8\<rparr> else conf)
      in if cc_StopBits conf1 = 0
         then conf1\<lparr>cc_StopBits := (if cc_Parity conf1 = PARITY_NONE then 2 else 1)\<rparr>
         else conf1)"

definition NewClient ::
  "('c, 'p) ClientConfiguration \<Rightarrow> unit result \<times> ('c, 'p, 't) ModbusClient" where
  "NewClient conf =
     (let split = splitURL (cc_URL conf);
          (clientType, conf0) = (case split of [a, b] \<Rightarrow> (a, conf\<lparr>cc_URL := b\<rparr>) | _ \<Rightarrow> ('''', conf));
          mk = (\<lambda>c ty. \<lparr>mc_conf = c, mc_endianness = 0, mc_wordOrder = 0, mc_transport = None,
                  mc_unitId = 0, mc_transportType = ty\<rparr>);
          ready = (\<lambda>c ty. (Ok (), \<lparr>mc_conf = c, mc_endianness = BIG_ENDIAN, mc_wordOrder = HIGH_WORD_FIRST,
                  mc_transport = None, mc_unitId = 1, mc_transportType = ty\<rparr>))
      in if clientType = ''rtu'' then
           ready (newTimeout (300 * 1000000) (newSerialFormat (newSpeed conf0))) modbusRTU
         else if clientType = ''rtuovertcp'' then
           ready (newTimeout 1000000000 (newSpeed conf0)) modbusRTUOverTCP
         else if clientType = ''rtuoverudp'' then
           ready (newTimeout 1000000000 (newSpeed conf0)) modbusRTUOverUDP
         else if clientType = ''tcp'' then
           ready (newTimeout 1000000000 conf0) modbusTCP
         else if clientType = ''tcp+tls'' then
           let c = newTimeout 1000000000 conf0 in
           if cc_TLSClientCert c = None then (Err ErrConfigurationError, mk c noTransport)
           else if cc_TLSRootCAs c = None then (Err ErrConfigurationError, mk c noTransport)
           else ready c modbusTCPOverTLS
         else if clientType = ''udp'' then
           ready (newTimeout 1000000000 conf0) modbusTCPOverUDP
         else (Err ErrConfigurationError, mk conf0 noTransport))"

section \<open>Links and transports of every kind\<close>

text \<open>
  The values behind the interfaces \<open>rtuLink\<close> and \<open>transport\<close> in the client, with the dynamic
  dispatch of their methods.  \<open>S\<close> are the operations of a \<open>net.Conn\<close>.
\<close>

datatype ('q, 's) anyLink =
    SerialLink "'q serialPortWrapper"
  | SockLink 's
  | UdpLink "'s udpSockWrapper"

definition anyLinkOps :: "'q Port \<Rightarrow> 's rtuLink \<Rightarrow> ('q, 's) anyLink rtuLink" where
  "anyLinkOps P S =
     \<lparr>link_Close = (\<lambda>l. case l of
              SerialLink x \<Rightarrow> apsnd SerialLink (link_Close (spwLink P) x)
            | SockLink x \<Rightarrow> apsnd SockLink (link_Close S x)
            | UdpLink x \<Rightarrow> apsnd UdpLink (link_Close (uswLink S) x)),
          link_Read = (\<lambda>n l. case l of
              SerialLink x \<Rightarrow> apsnd SerialLink (link_Read (spwLink P) n x)
            | SockLink x \<Rightarrow> apsnd SockLink (link_Read S n x)
            | UdpLink x \<Rightarrow> apsnd UdpLink (link_Read (uswLink S) n x)),
          link_Write = (\<lambda>bs l. case l of
              SerialLink x \<Rightarrow> apsnd SerialLink (link_Write (spwLink P) bs x)
            | SockLink x \<Rightarrow> apsnd SockLink (link_Write S bs x)
            | UdpLink x \<Rightarrow> apsnd UdpLink (link_Write (uswLink S) bs x)),
          link_SetDeadline = (\<lambda>d l. case l of
              SerialLink x \<Rightarrow> apsnd SerialLink (link_SetDeadline (spwLink P) d x)
            | SockLink x \<Rightarrow> apsnd SockLink (link_SetDeadline S d x)
            | UdpLink x \<Rightarrow> apsnd UdpLink (link_SetDeadline (uswLink S) d x)),
          time_Now = (\<lambda>l. case l of
              SerialLink x \<Rightarrow> time_Now (spwLink P) x
            | SockLink x \<Rightarrow> time_Now S x
            | UdpLink x \<Rightarrow> time_Now (uswLink S) x),
          time_Sleep = (\<lambda>d l. case l of
              SerialLink x \<Rightarrow> SerialLink (time_Sleep (spwLink P) d x)
            | SockLink x \<Rightarrow> SockLink (time_Sleep S d x)
            | UdpLink x \<Rightarrow> UdpLink (time_Sleep (uswLink S) d x))\<rparr>"

datatype ('q, 's) anyTransport =
    RtuT "('q, 's) anyLink rtuTransport"
  | TcpT "('q, 's) anyLink tcpTransport"

definition anyTransportOps :: "'q Port \<Rightarrow> 's rtuLink \<Rightarrow> ('q, 's) anyTransport transport" where
  "anyTransportOps P S =
     (let L = anyLinkOps P S in
      \<lparr>t_Close = (\<lambda>t. case t of
            RtuT x \<Rightarrow> apsnd RtuT (rtu_Close L x)
          | TcpT x \<Rightarrow> apsnd TcpT (tcp_Close L x)),
       t_ExecuteRequest = (\<lambda>req t. case t of
            RtuT x \<Rightarrow> map_option (apsnd RtuT) (rtu_ExecuteRequest L req x)
          | TcpT x \<Rightarrow> map_option (apsnd TcpT) (tcp_ExecuteRequest L req x)),
       t_ReadRequest = (\<lambda>t. case t of
            RtuT x \<Rightarrow> map_option (apsnd RtuT) (rtu_ReadRequest x)
          | TcpT x \<Rightarrow> map_option (apsnd TcpT) (tcp_ReadRequest L x)),
       t_WriteResponse = (\<lambda>res t. case t of
            RtuT x \<Rightarrow> apsnd RtuT (rtu_WriteResponse L res x)
          | TcpT x \<Rightarrow> apsnd TcpT (tcp_WriteResponse L res x))\<rparr>)"

section \<open>Open\<close>

text \<open>
  What the environment offers: \<open>net.DialTimeout\<close> (the timeout of 5 s is fixed), the TLS dialer
  with a client certificate and a pool (15 s, TLS 1.2 or later), \<open>Handshake\<close> and \<open>Close\<close> of a
  connection, and the system in which a serial port is opened.
\<close>

record ('c, 'p, 'q, 's) dialer =
  dial_net :: "string \<Rightarrow> string \<Rightarrow> 's result"
  dial_tls :: "string \<Rightarrow> 'c \<Rightarrow> 'p option \<Rightarrow> 's result"
  dial_handshake :: "'s \<Rightarrow> unit result \<times> 's"
  dial_system :: 'q

text \<open>
  A case of \<open>Open\<close> that dials: an error is returned, a connection becomes the transport that \<open>k\<close>
  builds of it.  \<open>None\<close> is a panic or a \<open>discard\<close> that does not end.
\<close>

definition opened ::
  "'s result \<Rightarrow> ('s \<Rightarrow> 't option) \<Rightarrow> ('c, 'p, 't) ModbusClient
    \<Rightarrow> (unit result \<times> ('c, 'p, 't) ModbusClient) option" where
  "opened r k mc =
     (case r of
        Inl e \<Rightarrow> Some (Err e, mc)
      | Inr s \<Rightarrow> do { t \<leftarrow> k s; Some (Ok (), mc\<lparr>mc_transport := Some t\<rparr>) })"

text \<open>
  The TLS case dials and forces the handshake.  A connection whose handshake fails is closed and left behind:
  it is the second component.
\<close>

definition dialTLS ::
  "'s rtuLink \<Rightarrow> ('c, 'p, 'q, 's) dialer \<Rightarrow> string \<Rightarrow> 'c \<Rightarrow> 'p option \<Rightarrow> 's result \<times> 's option" where
  "dialTLS S D url cert pool =
     (case dial_tls D url cert pool of
        Inl e \<Rightarrow> (Err e, None)
      | Inr sock \<Rightarrow>
          (case dial_handshake D sock of
             (Inl e, sock') \<Rightarrow> (Err e, Some (snd (link_Close S sock')))
           | (Inr _, sock') \<Rightarrow> (Ok sock', None)))"

definition client_Open ::
  "'q Port \<Rightarrow> 's rtuLink \<Rightarrow> ('c, 'p, 'q, 's) dialer \<Rightarrow> ('c, 'p, ('q, 's) anyTransport) ModbusClient
    \<Rightarrow> (unit result \<times> ('c, 'p, ('q, 's) anyTransport) ModbusClient) option" where
  "client_Open P S D mc =
     (let conf = mc_conf mc in
      case mc_transportType mc of
        modbusRTU \<Rightarrow>
          let (r, spw) = spw_Open P (newSerialPortWrapper \<lparr>spc_Device = cc_URL conf, spc_Speed = cc_Speed conf,
                spc_DataBits = cc_DataBits conf, spc_Parity = cc_Parity conf, spc_StopBits = cc_StopBits conf\<rparr>
                (dial_system D))
          in opened (map_sum (\<lambda>e. e) (\<lambda>_. spw) r) (\<lambda>spw. do {
               spw' \<leftarrow> discard (spwLink P) spw;
               rt \<leftarrow> newRTUTransport (SerialLink spw') (cc_Speed conf) (cc_Timeout conf);
               Some (RtuT rt) }) mc
      | modbusRTUOverTCP \<Rightarrow>
          opened (dial_net D ''tcp'' (cc_URL conf)) (\<lambda>sock. do {
            sock' \<leftarrow> discard S sock;
            rt \<leftarrow> newRTUTransport (SockLink sock') (cc_Speed conf) (cc_Timeout conf);
            Some (RtuT rt) }) mc
      | modbusRTUOverUDP \<Rightarrow>
          opened (dial_net D ''udp'' (cc_URL conf)) (\<lambda>sock. do {
            rt \<leftarrow> newRTUTransport (UdpLink (newUDPSockWrapper sock)) (cc_Speed conf) (cc_Timeout conf);
            Some (RtuT rt) }) mc
      | modbusTCP \<Rightarrow>
          opened (dial_net D ''tcp'' (cc_URL conf)) (\<lambda>sock.
            Some (TcpT (newTCPTransport (SockLink sock) (cc_Timeout conf)))) mc
      | modbusTCPOverTLS \<Rightarrow> do {
          cert \<leftarrow> cc_TLSClientCert conf;
          opened (fst (dialTLS S D (cc_URL conf) cert (cc_TLSRootCAs conf))) (\<lambda>sock.
            Some (TcpT (newTCPTransport (SockLink sock) (cc_Timeout conf)))) mc }
      | modbusTCPOverUDP \<Rightarrow>
          opened (dial_net D ''udp'' (cc_URL conf)) (\<lambda>sock.
            Some (TcpT (newTCPTransport (UdpLink (newUDPSockWrapper sock)) (cc_Timeout conf)))) mc
      | noTransport \<Rightarrow> Some (Err ErrConfigurationError, mc))"

section \<open>Which URLs make a client\<close>

fun scheme_type :: "string \<Rightarrow> transportType option" where
  "scheme_type s = map_of [(''rtu'', modbusRTU), (''rtuovertcp'', modbusRTUOverTCP),
     (''rtuoverudp'', modbusRTUOverUDP), (''tcp'', modbusTCP), (''tcp+tls'', modbusTCPOverTLS),
     (''udp'', modbusTCPOverUDP)] s"

definition is_rtu :: "transportType \<Rightarrow> bool" where
  "is_rtu ty \<longleftrightarrow> ty \<in> {modbusRTU, modbusRTUOverTCP, modbusRTUOverUDP}"

lemma newTimeout_simps [simp]:
  "cc_URL (newTimeout d c) = cc_URL c" "cc_Speed (newTimeout d c) = cc_Speed c"
  "cc_TLSClientCert (newTimeout d c) = cc_TLSClientCert c" "cc_TLSRootCAs (newTimeout d c) = cc_TLSRootCAs c"
  "cc_Timeout (newTimeout d c) = (if cc_Timeout c = 0 then d else cc_Timeout c)"
  by (simp_all add: newTimeout_def)

lemma newSpeed_simps [simp]:
  "cc_URL (newSpeed c) = cc_URL c" "cc_Timeout (newSpeed c) = cc_Timeout c"
  "cc_Speed (newSpeed c) = (if cc_Speed c = 0 then 19200 else cc_Speed c)"
  by (simp_all add: newSpeed_def)

lemma newSerialFormat_simps [simp]:
  "cc_URL (newSerialFormat c) = cc_URL c" "cc_Timeout (newSerialFormat c) = cc_Timeout c"
  "cc_Speed (newSerialFormat c) = cc_Speed c"
  by (simp_all add: newSerialFormat_def Let_def)

lemma scheme_no_colon: "scheme_type s = Some ty \<Longrightarrow> CHR '':'' \<notin> set s"
  by (auto split: if_splits)

lemma NewClient_Ok:
  assumes "NewClient conf = (Ok (), mc)"
  obtains a b ty where "splitURL (cc_URL conf) = [a, b]" "scheme_type a = Some ty"
    "mc_transportType mc = ty" "cc_URL (mc_conf mc) = b"
    "mc_endianness mc = BIG_ENDIAN" "mc_wordOrder mc = HIGH_WORD_FIRST" "mc_unitId mc = 1" "mc_transport mc = None"
    "ty = modbusTCPOverTLS \<longrightarrow> cc_TLSClientCert (mc_conf mc) \<noteq> None \<and> cc_TLSRootCAs (mc_conf mc) \<noteq> None"
    "is_rtu ty \<longrightarrow> cc_Speed (mc_conf mc) \<noteq> 0" "cc_Timeout (mc_conf mc) \<noteq> 0"
proof -
  consider a b where "splitURL (cc_URL conf) = [a, b]" | "\<nexists>a b. splitURL (cc_URL conf) = [a, b]"
    by blast
  then show ?thesis
  proof cases
    case 1
    with assms show ?thesis
      by (intro that [of a b "mc_transportType mc"])
        (auto simp: NewClient_def Let_def is_rtu_def split: if_splits)
  next
    case 2
    then have "NewClient conf = (Err ErrConfigurationError, snd (NewClient conf :: unit result \<times> ('a, 'b, 'c) ModbusClient))"
      by (auto simp: NewClient_def Let_def split: list.splits)
    with assms show ?thesis by simp
  qed
qed

section \<open>Properties\<close>

text \<open>The scheme and the host of a URL that names a kind of client, and the defaults of that kind.\<close>

definition client_url :: "string \<Rightarrow> transportType \<Rightarrow> string \<Rightarrow> bool" where
  "client_url url ty host \<longleftrightarrow> (\<exists>s. scheme_type s = Some ty \<and> url = s @ ''://'' @ host)"

definition has_certificates :: "('c, 'p) ClientConfiguration \<Rightarrow> bool" where
  "has_certificates conf \<longleftrightarrow> cc_TLSClientCert conf \<noteq> None \<and> cc_TLSRootCAs conf \<noteq> None"

definition with_defaults :: "transportType \<Rightarrow> ('c, 'p) ClientConfiguration \<Rightarrow> ('c, 'p) ClientConfiguration" where
  "with_defaults ty conf =
     (let or_default = (\<lambda>d x. if x = 0 then d else x) in
      conf\<lparr>cc_Timeout := (if cc_Timeout conf = 0 then if ty = modbusRTU then 300000000 else 1000000000 else cc_Timeout conf),
        cc_Speed := (if is_rtu ty then or_default 19200 (cc_Speed conf) else cc_Speed conf),
        cc_DataBits := (if ty = modbusRTU then or_default 8 (cc_DataBits conf) else cc_DataBits conf),
        cc_StopBits := (if ty = modbusRTU then or_default (if cc_Parity conf = PARITY_NONE then 2 else 1) (cc_StopBits conf)
          else cc_StopBits conf)\<rparr>)"

lemma client_url_split:
  "client_url url ty host \<longleftrightarrow> (\<exists>s. splitURL url = [s, host] \<and> scheme_type s = Some ty)"
proof
  assume "client_url url ty host"
  then obtain s where "scheme_type s = Some ty" "url = s @ ''://'' @ host"
    unfolding client_url_def by blast
  with splitURL_scheme [OF scheme_no_colon, of s ty host] show "\<exists>s. splitURL url = [s, host] \<and> scheme_type s = Some ty"
    by blast
next
  assume "\<exists>s. splitURL url = [s, host] \<and> scheme_type s = Some ty"
  then show "client_url url ty host"
    unfolding client_url_def using splitURL_two by blast
qed

lemma client_url_unique: "client_url url ty host \<Longrightarrow> client_url url ty' host' \<Longrightarrow> ty' = ty \<and> host' = host"
  unfolding client_url_split by (elim exE conjE) (simp del: scheme_type.simps)

lemma NewClient_scheme:
  assumes "splitURL (cc_URL conf) = [s, host]" "scheme_type s = Some ty" "ty = modbusTCPOverTLS \<longrightarrow> has_certificates conf"
  shows "NewClient conf = (Ok (), \<lparr>mc_conf = with_defaults ty (conf\<lparr>cc_URL := host\<rparr>), mc_endianness = BIG_ENDIAN,
      mc_wordOrder = HIGH_WORD_FIRST, mc_transport = None, mc_unitId = 1, mc_transportType = ty\<rparr>)"
proof -
  from assms(2) have "(s, ty) \<in> set [(''rtu'', modbusRTU), (''rtuovertcp'', modbusRTUOverTCP),
     (''rtuoverudp'', modbusRTUOverUDP), (''tcp'', modbusTCP), (''tcp+tls'', modbusTCPOverTLS),
     (''udp'', modbusTCPOverUDP)]"
    unfolding scheme_type.simps by (rule map_of_SomeD)
  with assms(1,3) show ?thesis
    by (simp only: set_simps insert_iff empty_iff prod.inject)
      (elim disjE conjE FalseE; hypsubst; simp add: NewClient_def with_defaults_def newTimeout_def newSpeed_def
        newSerialFormat_def is_rtu_def has_certificates_def Let_def del: not_None_eq)
qed

lemma NewClient_refused:
  assumes "\<nexists>ty host. client_url (cc_URL conf) ty host \<and> (ty = modbusTCPOverTLS \<longrightarrow> has_certificates conf)"
  shows "fst (NewClient conf) = Err ErrConfigurationError"
proof (cases "\<exists>s host. splitURL (cc_URL conf) = [s, host]")
  case True
  then obtain s host where u: "splitURL (cc_URL conf) = [s, host]" by blast
  have c: "scheme_type s = Some ty \<Longrightarrow> ty = modbusTCPOverTLS \<and> \<not> has_certificates conf" for ty
    using assms u unfolding client_url_split by (blast intro: exI [of _ s])
  have s: "s \<noteq> ''rtu''" "s \<noteq> ''rtuovertcp''" "s \<noteq> ''rtuoverudp''" "s \<noteq> ''tcp''" "s \<noteq> ''udp''"
    "s = ''tcp+tls'' \<Longrightarrow> \<not> has_certificates conf"
    using c by fastforce+
  show ?thesis
  proof (cases "s = ''tcp+tls''")
    case True
    with u s(6) show ?thesis
      by (auto simp: NewClient_def has_certificates_def Let_def newTimeout_def)
  next
    case False
    with u s(1-5) show ?thesis
      by (simp add: NewClient_def Let_def)
  qed
next
  case False
  then show ?thesis
    by (simp add: NewClient_def Let_def split: list.splits)
qed
text \<open>
  C35: which configurations make a client.  \<open>NewClient\<close> succeeds exactly for a URL of one of the six
  schemes, and for TLS only with a certificate and a pool of CAs; every other configuration is
  refused with a configuration error.  The client is not connected, speaks to unit 1, big endian
  with the high word first, and its unset parameters have the defaults of its kind of transport.
\<close>

theorem NewClient_schemes:
  assumes "NewClient conf = (r, mc)"
  shows "(if \<exists>ty host. client_url (cc_URL conf) ty host \<and> (ty = modbusTCPOverTLS \<longrightarrow> has_certificates conf)
      then r = Ok () else r = Err ErrConfigurationError)
    \<and> (client_url (cc_URL conf) ty host \<and> (ty = modbusTCPOverTLS \<longrightarrow> has_certificates conf) \<longrightarrow>
        mc = \<lparr>mc_conf = with_defaults ty (conf\<lparr>cc_URL := host\<rparr>), mc_endianness = BIG_ENDIAN,
          mc_wordOrder = HIGH_WORD_FIRST, mc_transport = None, mc_unitId = 1, mc_transportType = ty\<rparr>)"
proof (cases "\<exists>ty host. client_url (cc_URL conf) ty host \<and> (ty = modbusTCPOverTLS \<longrightarrow> has_certificates conf)")
  case True
  then obtain ty' host' where u: "client_url (cc_URL conf) ty' host'" "ty' = modbusTCPOverTLS \<longrightarrow> has_certificates conf"
    by blast
  then have "(r, mc) = (Ok (), \<lparr>mc_conf = with_defaults ty' (conf\<lparr>cc_URL := host'\<rparr>), mc_endianness = BIG_ENDIAN,
      mc_wordOrder = HIGH_WORD_FIRST, mc_transport = None, mc_unitId = 1, mc_transportType = ty'\<rparr>)"
    using NewClient_scheme [of conf _ host' ty'] unfolding client_url_split assms [symmetric] by blast
  with True client_url_unique [OF u(1), of ty host] show ?thesis
    by (simp only: prod.inject if_True simp_thms) blast
next
  case False
  with NewClient_refused [OF False] assms show ?thesis
    by (metis fst_conv)
qed

definition demo_conf :: "string \<Rightarrow> (unit, unit) ClientConfiguration" where
  "demo_conf url = \<lparr>cc_URL = url, cc_Speed = 0, cc_DataBits = 0, cc_Parity = 0, cc_StopBits = 0, cc_Timeout = 0,
     cc_TLSClientCert = None, cc_TLSRootCAs = None\<rparr>"

theorem NewClient_schemes_witness:
  "NewClient (demo_conf ''rtu:///dev/ttyUSB0'') =
     (Ok (), \<lparr>mc_conf = (demo_conf ''/dev/ttyUSB0'')\<lparr>cc_Speed := 19200, cc_DataBits := 8, cc_StopBits := 2, cc_Timeout := 300000000\<rparr>,
      mc_endianness = BIG_ENDIAN, mc_wordOrder = HIGH_WORD_FIRST, mc_transport = None, mc_unitId = 1,
      mc_transportType = modbusRTU\<rparr>)"
  (is "?n = (Ok (), ?mc)")
proof -
  have u: "client_url (cc_URL (demo_conf ''rtu:///dev/ttyUSB0'')) modbusRTU ''/dev/ttyUSB0''"
    unfolding client_url_split by (simp add: demo_conf_def)
  obtain r mc where n: "?n = (r, mc)" by (rule prod.exhaust)
  note p = NewClient_schemes [OF n, of modbusRTU "''/dev/ttyUSB0''"]
  have "r = Ok ()"
    using p u by (metis transportType.distinct)
  moreover have "mc = ?mc"
    using conjunct2 [OF p] u by (simp add: demo_conf_def with_defaults_def is_rtu_def)
  ultimately show ?thesis
    using n by simp
qed

text \<open>No connection is left open behind a handshake that failed.\<close>

lemma abandoned_closed: "snd (dialTLS sockLink D url cert pool) = Some s \<Longrightarrow> \<not> is_open s"
  by (auto simp: dialTLS_def sock_defs split: sum.splits prod.splits if_splits)

lemma newRTUTransport_Some: "speed \<noteq> 0 \<Longrightarrow> \<exists>rt. newRTUTransport link speed timeout = Some rt \<and> rt_timeout rt = timeout"
  by (auto simp: newRTUTransport_def serialCharTime_def)

lemma opened_cases:
  assumes "\<And>s. r = Ok s \<Longrightarrow> \<exists>t. k s = Some t \<and> good t"
  shows "\<exists>r' mc'. opened r k mc = Some (r', mc') \<and>
    (case r' of Inl _ \<Rightarrow> mc' = mc | Inr _ \<Rightarrow> \<exists>t. mc' = mc\<lparr>mc_transport := Some t\<rparr> \<and> good t)"
  using assms by (cases r) (fastforce simp: opened_def)+

text \<open>The transport that a kind of client opens, with the configured timeout.\<close>

definition right_transport :: "('c, 'p, ('q, 's) anyTransport) ModbusClient \<Rightarrow> ('q, 's) anyTransport \<Rightarrow> bool" where
  "right_transport mc t \<longleftrightarrow>
     (case t of
        RtuT rt \<Rightarrow> rt_timeout rt = cc_Timeout (mc_conf mc)
          \<and> (case rt_link rt of
               SerialLink _ \<Rightarrow> mc_transportType mc = modbusRTU
             | SockLink _ \<Rightarrow> mc_transportType mc = modbusRTUOverTCP
             | UdpLink _ \<Rightarrow> mc_transportType mc = modbusRTUOverUDP)
      | TcpT tt \<Rightarrow> tt_timeout tt = cc_Timeout (mc_conf mc)
          \<and> (case tt_socket tt of
               SerialLink _ \<Rightarrow> False
             | SockLink _ \<Rightarrow> mc_transportType mc \<in> {modbusTCP, modbusTCPOverTLS}
             | UdpLink _ \<Rightarrow> mc_transportType mc = modbusTCPOverUDP))"

text \<open>
  C36: \<open>Open\<close> after a successful \<open>NewClient\<close>.  Given a serial port and sockets that keep their
  contracts, it neither panics (on the character time or the certificate) nor hangs in \<open>discard\<close>:
  it fails and leaves the client as it was, or it gives the client the transport of its scheme over
  the link of its scheme, with the configured timeout.  The case marked as unreachable in the code
  is not reached.
\<close>

theorem client_Open_transport:
  fixes P :: "'q Port" and S :: "'s rtuLink"
  assumes "serial_port P pinv" "byte_link S linv avail sent effort"
    and dialed: "\<And>url s. dial_net D ''tcp'' url = Ok s \<Longrightarrow> linv s"
    and opens: "\<And>c. pinv (snd (serial_Open P c (dial_system D)))"
    and new: "NewClient conf = (Ok (), mc)"
  shows "\<exists>r mc'. client_Open P S D mc = Some (r, mc') \<and>
    (case r of Inl _ \<Rightarrow> mc' = mc | Inr _ \<Rightarrow> mc' = mc\<lparr>mc_transport := mc_transport mc'\<rparr>
      \<and> (\<exists>t. mc_transport mc' = Some t \<and> right_transport mc t))"
proof -
  have rtu: "\<exists>rt. newRTUTransport l (cc_Speed (mc_conf mc)) (cc_Timeout (mc_conf mc)) = Some rt
      \<and> rt_link rt = l \<and> rt_timeout rt = cc_Timeout (mc_conf mc)"
    if "is_rtu (mc_transportType mc)" for l :: "('q, 's) anyLink"
  proof -
    from new have "cc_Speed (mc_conf mc) \<noteq> 0"
      by (rule NewClient_Ok) (use that in simp)
    then show ?thesis
      by (auto simp: newRTUTransport_def serialCharTime_def)
  qed
  note client_Open_def [simp] right_transport_def [simp] is_rtu_def [simp]
  show ?thesis
  proof (cases "mc_transportType mc")
    case modbusRTU
    obtain r spw where o: "spw_Open P (newSerialPortWrapper \<lparr>spc_Device = cc_URL (mc_conf mc),
        spc_Speed = cc_Speed (mc_conf mc), spc_DataBits = cc_DataBits (mc_conf mc), spc_Parity = cc_Parity (mc_conf mc),
        spc_StopBits = cc_StopBits (mc_conf mc)\<rparr> (dial_system D)) = (r, spw)" (is "spw_Open P ?w = _")
      by (rule prod.exhaust)
    have "pinv (spw_port (snd (spw_Open P ?w)))"
      using opens by (simp add: spw_Open_def Let_def newSerialPortWrapper_def apsnd_def map_prod_def split_beta)
    then obtain spw' where d: "discard (spwLink P) spw = Some spw'"
      using serial_port.discard_ends [OF assms(1), of spw] o by auto
    from modbusRTU obtain rt where "newRTUTransport (SerialLink spw' :: ('q, 's) anyLink) (cc_Speed (mc_conf mc)) (cc_Timeout (mc_conf mc)) = Some rt"
      "rt_link rt = SerialLink spw'" "rt_timeout rt = cc_Timeout (mc_conf mc)"
      using rtu [of "SerialLink spw'"] by auto
    with modbusRTU o d show ?thesis
      by (cases r) (simp_all add: opened_def)
  next
    case modbusRTUOverTCP
    show ?thesis
    proof (cases "dial_net D ''tcp'' (cc_URL (mc_conf mc))")
      case (Inr s)
      then obtain s' where d: "discard S s = Some s'"
        using byte_link.discard_ok [OF assms(2) dialed] by blast
      from modbusRTUOverTCP obtain rt where "newRTUTransport (SockLink s' :: ('q, 's) anyLink) (cc_Speed (mc_conf mc)) (cc_Timeout (mc_conf mc)) = Some rt"
        "rt_link rt = SockLink s'" "rt_timeout rt = cc_Timeout (mc_conf mc)"
        using rtu [of "SockLink s'"] by auto
      with Inr modbusRTUOverTCP d show ?thesis by (simp add: opened_def)
    qed (use modbusRTUOverTCP in \<open>simp add: opened_def\<close>)
  next
    case modbusRTUOverUDP
    show ?thesis
    proof (cases "dial_net D ''udp'' (cc_URL (mc_conf mc))")
      case (Inr s)
      from modbusRTUOverUDP obtain rt where
        "newRTUTransport (UdpLink (newUDPSockWrapper s) :: ('q, 's) anyLink) (cc_Speed (mc_conf mc)) (cc_Timeout (mc_conf mc)) = Some rt"
        "rt_link rt = UdpLink (newUDPSockWrapper s)" "rt_timeout rt = cc_Timeout (mc_conf mc)"
        using rtu [of "UdpLink (newUDPSockWrapper s)"] by auto
      with Inr modbusRTUOverUDP show ?thesis by (simp add: opened_def)
    qed (use modbusRTUOverUDP in \<open>simp add: opened_def\<close>)
  next
    case modbusTCP
    then show ?thesis
      by (cases "dial_net D ''tcp'' (cc_URL (mc_conf mc))") (simp_all add: opened_def newTCPTransport_def)
  next
    case modbusTCPOverTLS
    obtain cert where "cc_TLSClientCert (mc_conf mc) = Some cert"
      using new by (rule NewClient_Ok) (use modbusTCPOverTLS that in blast)
    with modbusTCPOverTLS show ?thesis
      by (cases "fst (dialTLS S D (cc_URL (mc_conf mc)) cert (cc_TLSRootCAs (mc_conf mc)))")
        (simp_all add: opened_def newTCPTransport_def)
  next
    case modbusTCPOverUDP
    then show ?thesis
      by (cases "dial_net D ''udp'' (cc_URL (mc_conf mc))") (simp_all add: opened_def newTCPTransport_def)
  next
    case noTransport
    from new show ?thesis
      by (rule NewClient_Ok) (use noTransport in \<open>auto split: if_splits\<close>)
  qed
qed

definition demo_dialer :: "(unit, unit, kernel posix_port, sock) dialer" where
  "demo_dialer = \<lparr>dial_net = (\<lambda>_ _. Ok \<lparr>rx = [[1, 2, 3]], rx_end = EOF, tx = [], is_open = True, sock_deadline = 0, clock = 0\<rparr>),
     dial_tls = (\<lambda>_ _ _. Err EOF), dial_handshake = (\<lambda>s. (Ok (), s)), dial_system = demo_port [1, 2, 3]\<rparr>"

theorem client_Open_transport_witness:
  "\<exists>r mc mc'. NewClient (demo_conf ''rtu:///dev/ttyUSB0'') = (Ok (), mc)
     \<and> client_Open (posixPort kernelOs) sockLink demo_dialer mc = Some (r, mc')"
proof -
  obtain r mc where n: "NewClient (demo_conf ''rtu:///dev/ttyUSB0'') =
      (r :: unit result, mc :: (unit, unit, (kernel posix_port, sock) anyTransport) ModbusClient)"
    by (rule prod.exhaust)
  moreover have "fst (NewClient (demo_conf ''rtu:///dev/ttyUSB0'')
      :: unit result \<times> (unit, unit, (kernel posix_port, sock) anyTransport) ModbusClient) = Ok ()"
    by (simp add: NewClient_def demo_conf_def)
  ultimately have n: "NewClient (demo_conf ''rtu:///dev/ttyUSB0'') = (Ok (), mc)"
    by simp
  have dialed: "sock_inv s" if "dial_net demo_dialer ''tcp'' url = Ok s" for url s
    using that by (auto simp: demo_dialer_def sock_inv_def framing_error_def)
  have "\<exists>r mc'. client_Open (posixPort kernelOs) sockLink demo_dialer mc = Some (r, mc') \<and>
    (case r of Inl _ \<Rightarrow> mc' = mc | Inr _ \<Rightarrow> mc' = mc\<lparr>mc_transport := mc_transport mc'\<rparr>
      \<and> (\<exists>t. mc_transport mc' = Some t \<and> right_transport mc t))"
    by (rule client_Open_transport [OF kern.is_serial_port tcp_sock.byte_link_axioms _ TrueI n]) (rule dialed)
  then show ?thesis using n by blast
qed

end
