(* ===== verification/Server_Config.thy ===== *)
theory Server_Config
  imports Client_Config
begin

text \<open>
  internal/modbus/server.go: the configuration of a server, \<open>NewServer\<close>, and what the goroutine of
  one connection does with it: the TLS handshake, the role in the client's certificate and the
  session.  \<open>crypto/tls\<close> and \<open>asn1.Unmarshal\<close> are parameters.
\<close>

section \<open>NewServer\<close>

record ('c, 'p) ServerConfiguration =
  svc_URL :: string
  svc_Timeout :: int
  svc_MaxClients :: uint
  svc_TLSServerCert :: "'c option"
  svc_TLSClientCAs :: "'p option"

text \<open>The listener is \<open>nil\<close> until \<open>Start\<close> has been called; \<open>'l\<close> are listeners, \<open>'k\<close> connections.\<close>

record ('c, 'p, 'h, 'l, 'k) ModbusServer =
  ms_conf :: "('c, 'p) ServerConfiguration"
  ms_started :: bool
  ms_handler :: "'h RequestHandler"
  ms_tcpListener :: "'l option"
  ms_tcpClients :: "'k list"
  ms_transportType :: transportType

definition serverDefaults :: "('c, 'p) ServerConfiguration \<Rightarrow> ('c, 'p) ServerConfiguration" where
  "serverDefaults conf =
     (let conf1 = (if svc_Timeout conf = 0 then conf\<lparr>svc_Timeout := 120 * 1000000000\<rparr> else conf)
      in if svc_MaxClients conf1 = 0 then conf1\<lparr>svc_MaxClients := 10\<rparr> else conf1)"

definition NewServer ::
  "('c, 'p) ServerConfiguration \<Rightarrow> 'h RequestHandler \<Rightarrow> unit result \<times> ('c, 'p, 'h, 'l, 'k) ModbusServer" where
  "NewServer conf reqHandler =
     (let split = splitURL (svc_URL conf);
          (serverType, conf0) = (case split of [a, b] \<Rightarrow> (a, conf\<lparr>svc_URL := b\<rparr>) | _ \<Rightarrow> ('''', conf));
          mk = (\<lambda>c ty. \<lparr>ms_conf = c, ms_started = False, ms_handler = reqHandler, ms_tcpListener = None,
                  ms_tcpClients = [], ms_transportType = ty\<rparr>)
      in if svc_URL conf0 = '''' then (Err ErrConfigurationError, mk conf0 noTransport)
         else if serverType = ''tcp'' then (Ok (), mk (serverDefaults conf0) modbusTCP)
         else if serverType = ''tcp+tls'' then
           let c = serverDefaults conf0 in
           if svc_TLSServerCert c = None then (Err ErrConfigurationError, mk c noTransport)
           else if svc_TLSClientCAs c = None then (Err ErrConfigurationError, mk c noTransport)
           else (Ok (), mk c modbusTCPOverTLS)
         else (Err ErrConfigurationError, mk conf0 noTransport))"

section \<open>The role of a TLS client\<close>

text \<open>
  An extension of a certificate.  \<open>asn1.Unmarshal\<close> of a value into a string is a parameter: the
  string or an error.
\<close>

record certExtension =
  ext_Id :: "nat list"
  ext_Value :: "byte list"

type_synonym certificate = "certExtension list"

definition modbusRoleOID :: "nat list" where
  "modbusRoleOID = [1, 3, 6, 1, 4, 1, 50316, 802, 1]"

text \<open>The loop over the extensions, with \<open>found\<close> and \<open>role\<close>; it returns \<open>role\<close> and \<open>badCert\<close>.\<close>

fun roleLoop ::
  "(byte list \<Rightarrow> string result) \<Rightarrow> bool \<Rightarrow> string \<Rightarrow> certExtension list \<Rightarrow> string \<times> bool" where
  "roleLoop unmarshal found role [] = (role, False)"
| "roleLoop unmarshal found role (ext # exts) =
     (if ext_Id ext = modbusRoleOID then
        if found then (role, True)
        else if length (ext_Value ext) < 2 \<or> ext_Value ext ! 0 \<noteq> 0x0c then (role, True)
        else (case unmarshal (ext_Value ext) of
            Inl e \<Rightarrow> (role, True)
          | Inr r \<Rightarrow> roleLoop unmarshal True r exts)
      else roleLoop unmarshal found role exts)"

definition extractRole :: "(byte list \<Rightarrow> string result) \<Rightarrow> certificate \<Rightarrow> string" where
  "extractRole unmarshal cert =
     (let (role, badCert) = roleLoop unmarshal False '''' cert in if badCert then '''' else role)"

text \<open>
  What \<open>crypto/tls\<close> does on a connection: the handshake as a server with a certificate and a
  pool for the clients, the certificates of the verified peer, and the clear-text connection,
  whose state stands in the same connection.
\<close>

record ('c, 'p, 's) tlsServer =
  tls_Handshake :: "'c \<Rightarrow> 'p option \<Rightarrow> 's \<Rightarrow> unit result \<times> 's"
  tls_PeerCertificates :: "'s \<Rightarrow> certificate list"
  tls_Conn :: "'s rtuLink"
  asn1_Unmarshal :: "byte list \<Rightarrow> string result"

text \<open>The role or the error, and the connection; \<open>None\<close> is the panic on a missing certificate.\<close>

definition startTLS ::
  "'s rtuLink \<Rightarrow> ('c, 'p, 's) tlsServer \<Rightarrow> ('c, 'p) ServerConfiguration \<Rightarrow> 's \<Rightarrow> (string result \<times> 's) option" where
  "startTLS S T conf sock =
     (case link_SetDeadline S (time_Now S sock + 30 * 1000000000) sock of
        (Inl e, s1) \<Rightarrow> Some (Err e, s1)
      | (Inr _, s1) \<Rightarrow> do {
          cert \<leftarrow> svc_TLSServerCert conf;
          (case tls_Handshake T cert (svc_TLSClientCAs conf) s1 of
             (Inl e, s2) \<Rightarrow> Some (Err e, s2)
           | (Inr _, s2) \<Rightarrow>
               (case tls_PeerCertificates T s2 of
                  [] \<Rightarrow> Some (Err (OtherError ''no client certificate received''), s2)
                | leaf # _ \<Rightarrow> Some (Ok (extractRole (asn1_Unmarshal T) leaf), s2))) })"

text \<open>
  What the goroutine of a connection does before it leaves the pool: the transport over the raw
  connection or the tunnel, served until \<open>handleTransport\<close> returns.
\<close>

definition serveTCPClient ::
  "'s rtuLink \<Rightarrow> ('c, 'p, 's) tlsServer \<Rightarrow> ('c, 'p, 'h, 'l, 'k) ModbusServer \<Rightarrow> string \<Rightarrow> 's \<Rightarrow> 'h
    \<Rightarrow> ('s \<times> 'h) option" where
  "serveTCPClient S T ms remoteAddr sock h =
     (case ms_transportType ms of
        modbusTCP \<Rightarrow>
          map_option (apfst tt_socket) (handleTransport (tcpTransportOps S) (ms_handler ms) remoteAddr ''''
            (newTCPTransport sock (svc_Timeout (ms_conf ms))) h)
      | modbusTCPOverTLS \<Rightarrow> do {
          (r, sock') \<leftarrow> startTLS S T (ms_conf ms) sock;
          (case r of
             Inl e \<Rightarrow> Some (sock', h)
           | Inr clientRole \<Rightarrow>
               map_option (apfst tt_socket) (handleTransport (tcpTransportOps (tls_Conn T)) (ms_handler ms) remoteAddr
                 clientRole (newTCPTransport sock' (svc_Timeout (ms_conf ms))) h)) }
      | _ \<Rightarrow> Some (sock, h))"

section \<open>Specifications\<close>

definition server_url :: "string \<Rightarrow> transportType \<Rightarrow> string \<Rightarrow> bool" where
  "server_url url ty host \<longleftrightarrow> host \<noteq> [] \<and>
     (url = ''tcp://'' @ host \<and> ty = modbusTCP \<or> url = ''tcp+tls://'' @ host \<and> ty = modbusTCPOverTLS)"

definition server_certificates :: "('c, 'p) ServerConfiguration \<Rightarrow> bool" where
  "server_certificates conf \<longleftrightarrow> svc_TLSServerCert conf \<noteq> None \<and> svc_TLSClientCAs conf \<noteq> None"

text \<open>The role of a certificate: the value of its only role extension, if that is a UTF8String.\<close>

definition cert_role :: "(byte list \<Rightarrow> string result) \<Rightarrow> certificate \<Rightarrow> string" where
  "cert_role unmarshal cert =
     (case filter (\<lambda>x. ext_Id x = modbusRoleOID) cert of
        [x] \<Rightarrow>
          (case ext_Value x of
             tag # _ # _ \<Rightarrow> if tag = 0x0c then (case unmarshal (ext_Value x) of Inr r \<Rightarrow> r | Inl _ \<Rightarrow> '''') else ''''
           | _ \<Rightarrow> '''')
      | _ \<Rightarrow> '''')"

lemma roleLoop_found:
  "roleLoop um True role exts = (role, filter (\<lambda>x. ext_Id x = modbusRoleOID) exts \<noteq> [])"
  by (induction exts) auto

lemma roleLoop_first:
  "(let (role, bad) = roleLoop um False '''' exts in if bad then '''' else role) = cert_role um exts"
proof (induction exts)
  case (Cons x exts)
  show ?case
  proof (cases "ext_Id x = modbusRoleOID")
    case True
    then show ?thesis
      by (auto simp: cert_role_def roleLoop_found Let_def split: list.splits sum.splits)
  next
    case False
    with Cons.IH show ?thesis
      by (simp add: cert_role_def)
  qed
qed (simp add: cert_role_def)

lemma extractRole_cert_role: "extractRole um cert = cert_role um cert"
  unfolding extractRole_def by (rule roleLoop_first)

lemma splitURL_server:
  "splitURL (''tcp://'' @ host) = [''tcp'', host]" "splitURL (''tcp+tls://'' @ host) = [''tcp+tls'', host]"
  using splitURL_scheme [of "''tcp''" host] splitURL_scheme [of "''tcp+tls''" host] by simp_all

lemma server_url_split:
  "server_url url ty host \<longleftrightarrow> host \<noteq> [] \<and>
     (splitURL url = [''tcp'', host] \<and> ty = modbusTCP \<or> splitURL url = [''tcp+tls'', host] \<and> ty = modbusTCPOverTLS)"
  unfolding server_url_def using splitURL_server splitURL_two [of url "''tcp''" host] splitURL_two [of url "''tcp+tls''" host]
  by auto

definition server_defaults :: "('c, 'p) ServerConfiguration \<Rightarrow> string \<Rightarrow> ('c, 'p) ServerConfiguration" where
  "server_defaults conf host =
     \<lparr>svc_URL = host, svc_Timeout = (if svc_Timeout conf = 0 then 120000000000 else svc_Timeout conf),
      svc_MaxClients = (if svc_MaxClients conf = 0 then 10 else svc_MaxClients conf),
      svc_TLSServerCert = svc_TLSServerCert conf, svc_TLSClientCAs = svc_TLSClientCAs conf\<rparr>"

lemma serverDefaults_eq: "serverDefaults (conf\<lparr>svc_URL := host\<rparr>) = server_defaults conf host"
  by (simp add: serverDefaults_def server_defaults_def Let_def)

lemma NewServer_scheme:
  assumes "server_url (svc_URL conf) ty host" "ty = modbusTCPOverTLS \<longrightarrow> server_certificates conf"
  shows "NewServer conf H = (Ok (), \<lparr>ms_conf = server_defaults conf host, ms_started = False, ms_handler = H,
    ms_tcpListener = None, ms_tcpClients = [], ms_transportType = ty\<rparr>)"
proof -
  have "svc_TLSServerCert (server_defaults conf host) = svc_TLSServerCert conf"
    "svc_TLSClientCAs (server_defaults conf host) = svc_TLSClientCAs conf"
    by (simp_all add: server_defaults_def)
  with assms show ?thesis
    unfolding server_url_split server_certificates_def
    by (elim conjE disjE) (simp_all add: NewServer_def serverDefaults_eq Let_def)
qed

lemma NewServer_refused:
  assumes "\<nexists>ty host. server_url (svc_URL conf) ty host \<and> (ty = modbusTCPOverTLS \<longrightarrow> server_certificates conf)"
  shows "fst (NewServer conf H) = Err ErrConfigurationError"
proof (cases "\<exists>s host. splitURL (svc_URL conf) = [s, host]")
  case True
  then obtain s host where u: "splitURL (svc_URL conf) = [s, host]" by blast
  have "host \<noteq> [] \<Longrightarrow> s \<noteq> ''tcp''" "host \<noteq> [] \<Longrightarrow> s = ''tcp+tls'' \<Longrightarrow> \<not> server_certificates conf"
    using assms u unfolding server_url_split by fastforce+
  moreover have "svc_TLSServerCert (server_defaults conf host) = svc_TLSServerCert conf"
    "svc_TLSClientCAs (server_defaults conf host) = svc_TLSClientCAs conf"
    by (simp_all add: server_defaults_def)
  ultimately show ?thesis
    using u by (cases "host = []"; cases "s = ''tcp+tls''") (auto simp: NewServer_def serverDefaults_eq server_certificates_def Let_def)
next
  case False
  then show ?thesis
    by (simp add: NewServer_def Let_def split: list.splits)
qed

lemma server_url_unique: "server_url url ty host \<Longrightarrow> server_url url ty' host' \<Longrightarrow> ty' = ty \<and> host' = host"
  unfolding server_url_split by auto

section \<open>Properties\<close>

text \<open>
  C34: which configurations make a server.  \<open>NewServer\<close> succeeds exactly for \<open>tcp://\<close> and
  \<open>tcp+tls://\<close> with a host, the latter only with a certificate and a pool of client CAs, and
  answers every other configuration with a configuration error.  The server is stopped, its pool
  is empty, and the idle time and the limit of connections are never zero.
\<close>

theorem NewServer_schemes:
  assumes "NewServer conf H = (r, ms)"
  shows "(if \<exists>ty host. server_url (svc_URL conf) ty host \<and> (ty = modbusTCPOverTLS \<longrightarrow> server_certificates conf)
      then r = Ok () else r = Err ErrConfigurationError)
    \<and> (server_url (svc_URL conf) ty host \<and> (ty = modbusTCPOverTLS \<longrightarrow> server_certificates conf) \<longrightarrow>
        ms = \<lparr>ms_conf = server_defaults conf host, ms_started = False, ms_handler = H, ms_tcpListener = None,
          ms_tcpClients = [], ms_transportType = ty\<rparr>
        \<and> svc_Timeout (ms_conf ms) \<noteq> 0 \<and> 0 < svc_MaxClients (ms_conf ms))"
proof (cases "\<exists>ty host. server_url (svc_URL conf) ty host \<and> (ty = modbusTCPOverTLS \<longrightarrow> server_certificates conf)")
  case True
  then obtain ty' host' where u: "server_url (svc_URL conf) ty' host'" "ty' = modbusTCPOverTLS \<longrightarrow> server_certificates conf"
    by blast
  then have "(r, ms) = (Ok (), \<lparr>ms_conf = server_defaults conf host', ms_started = False, ms_handler = H,
      ms_tcpListener = None, ms_tcpClients = [], ms_transportType = ty'\<rparr>)"
    using NewServer_scheme [of conf ty' host' H] unfolding assms [symmetric] by blast
  moreover have "svc_Timeout (server_defaults conf host') \<noteq> 0" "0 < svc_MaxClients (server_defaults conf host')"
    by (simp_all add: server_defaults_def word_neq_0_conv)
  ultimately show ?thesis
    using True server_url_unique [OF u(1), of ty host] by auto
next
  case False
  with NewServer_refused [OF False, of H] assms show ?thesis
    by (metis fst_conv)
qed

definition demo_server_conf :: "(unit, unit) ServerConfiguration" where
  "demo_server_conf = \<lparr>svc_URL = ''tcp://[::]:502'', svc_Timeout = 0, svc_MaxClients = 2,
     svc_TLSServerCert = None, svc_TLSClientCAs = None\<rparr>"

theorem NewServer_schemes_witness:
  "NewServer demo_server_conf demo_handler =
     (Ok (), \<lparr>ms_conf = \<lparr>svc_URL = ''[::]:502'', svc_Timeout = 120000000000, svc_MaxClients = 2,
        svc_TLSServerCert = None, svc_TLSClientCAs = None\<rparr>, ms_started = False, ms_handler = demo_handler,
      ms_tcpListener = None, ms_tcpClients = [], ms_transportType = modbusTCP\<rparr>)"
  (is "?n = (Ok (), ?ms)")
proof -
  have u: "server_url (svc_URL demo_server_conf) modbusTCP ''[::]:502''"
    by (simp add: server_url_def demo_server_conf_def)
  obtain r ms where n: "?n = (r, ms)" by (rule prod.exhaust)
  note p = NewServer_schemes [OF n, of modbusTCP "''[::]:502''"]
  have "r = Ok ()"
    using p u by (metis transportType.distinct)
  moreover have "ms = ?ms"
    using conjunct2 [OF p] u by (simp add: demo_server_conf_def server_defaults_def)
  ultimately show ?thesis
    using n by simp
qed

text \<open>
  The role of a TLS client is that of its certificate.  \<open>extractRole\<close> returns the value of the
  role extension exactly when the certificate has one such extension and no more, tagged as a
  UTF8String and decoded without an error; in all other cases the role is empty.
\<close>

lemma extractRole_is_cert_role:
  "extractRole unmarshal cert = cert_role unmarshal cert
   \<and> (extractRole unmarshal cert \<noteq> '''' \<longrightarrow>
       (\<exists>!k. k < length cert \<and> ext_Id (cert ! k) = modbusRoleOID)
       \<and> (\<exists>x\<in>set cert. ext_Id x = modbusRoleOID \<and> ext_Value x ! 0 = 0x0c
            \<and> unmarshal (ext_Value x) = Ok (extractRole unmarshal cert)))"
proof (intro conjI impI)
  show "extractRole unmarshal cert = cert_role unmarshal cert"
    by (rule extractRole_cert_role)
  assume "extractRole unmarshal cert \<noteq> ''''"
  then have ne: "cert_role unmarshal cert \<noteq> ''''"
    by (simp add: extractRole_cert_role)
  then obtain x where x: "filter (\<lambda>x. ext_Id x = modbusRoleOID) cert = [x]"
    by (cases "filter (\<lambda>x. ext_Id x = modbusRoleOID) cert" rule: remdups_adj.cases) (simp_all add: cert_role_def)
  have "length (filter (\<lambda>x. ext_Id x = modbusRoleOID) cert) = card {k. k < length cert \<and> ext_Id (cert ! k) = modbusRoleOID}"
    by (rule length_filter_conv_card)
  with x have "card {k. k < length cert \<and> ext_Id (cert ! k) = modbusRoleOID} = 1"
    by simp
  then obtain k where "{k. k < length cert \<and> ext_Id (cert ! k) = modbusRoleOID} = {k}"
    by (metis card_1_singletonE)
  then have "k' < length cert \<and> ext_Id (cert ! k') = modbusRoleOID \<longleftrightarrow> k' = k" for k'
    by (simp add: set_eq_iff)
  then show "\<exists>!k. k < length cert \<and> ext_Id (cert ! k) = modbusRoleOID"
    by simp
  have mem: "x \<in> set (filter (\<lambda>x. ext_Id x = modbusRoleOID) cert)"
    unfolding x by simp
  have "cert_role unmarshal cert = (case ext_Value x of
      tag # _ # _ \<Rightarrow> if tag = 0x0c then (case unmarshal (ext_Value x) of Inr r \<Rightarrow> r | Inl _ \<Rightarrow> '''') else ''''
    | _ \<Rightarrow> '''')"
    by (simp add: cert_role_def x)
  with ne have "ext_Value x ! 0 = 0x0c \<and> unmarshal (ext_Value x) = Ok (cert_role unmarshal cert)"
    by (cases "unmarshal (ext_Value x)") (simp_all split: list.splits if_splits)
  with mem show "\<exists>x\<in>set cert. ext_Id x = modbusRoleOID \<and> ext_Value x ! 0 = 0x0c
      \<and> unmarshal (ext_Value x) = Ok (extractRole unmarshal cert)"
    unfolding extractRole_cert_role by auto
qed

definition demo_cert :: certificate where
  "demo_cert = [\<lparr>ext_Id = [2, 5, 29, 15], ext_Value = [3, 2, 5]\<rparr>, \<lparr>ext_Id = modbusRoleOID, ext_Value = [0x0c, 2, 0x4f, 0x50]\<rparr>]"

definition demo_unmarshal :: "byte list \<Rightarrow> string result" where
  "demo_unmarshal bs = (if int (length bs) = 2 + uint (bs ! 1) then Ok (map (char_of \<circ> unat) (drop 2 bs)) else Err (OtherError ''asn1''))"

lemma extractRole_is_cert_role_witness:
  "extractRole demo_unmarshal demo_cert = ''OP'' \<and> (\<exists>!k. k < length demo_cert \<and> ext_Id (demo_cert ! k) = modbusRoleOID)"
proof -
  have "cert_role demo_unmarshal demo_cert = ''OP''"
    by (simp add: cert_role_def demo_cert_def demo_unmarshal_def modbusRoleOID_def char_of_def bit_0)
  with extractRole_is_cert_role [of demo_unmarshal demo_cert] show ?thesis
    by simp
qed

text \<open>
  C9: what the goroutine of a connection does.  A plain connection is the session of the
  specification with an empty role.  Over TLS nothing reaches the handler unless the handshake
  succeeds on the server's certificate and the peer has a certificate; then it is the session of
  the specification over the clear text, with the role of the leaf certificate.  It always returns.
\<close>

theorem tcp_client_sessions:
  assumes "sock_inv sock" "tls_Conn T = sockLink"
    and shakes: "\<And>c p s. sock_inv s \<Longrightarrow> sock_inv (snd (tls_Handshake T c p s))"
    and "ms_transportType ms = modbusTCPOverTLS \<longrightarrow> svc_TLSServerCert (ms_conf ms) \<noteq> None"
  shows "\<exists>sock' h'. serveTCPClient sockLink T ms remoteAddr sock h = Some (sock', h') \<and>
    (let timed = sock\<lparr>sock_deadline := clock sock + 30000000000\<rparr>;
         (r, tunnel) = tls_Handshake T (the (svc_TLSServerCert (ms_conf ms))) (svc_TLSClientCAs (ms_conf ms)) timed
     in if ms_transportType ms = modbusTCP then
          h' = snd (serve_stream (ms_handler ms) remoteAddr '''' (sock_avail sock) h)
          \<and> tx sock' = tx sock @ fst (serve_stream (ms_handler ms) remoteAddr '''' (sock_avail sock) h)
        else if ms_transportType ms = modbusTCPOverTLS \<and> r = Ok () \<and> tls_PeerCertificates T tunnel \<noteq> [] then
          (let role = cert_role (asn1_Unmarshal T) (hd (tls_PeerCertificates T tunnel));
               (reply, h1) = serve_stream (ms_handler ms) remoteAddr role (sock_avail tunnel) h
           in h' = h1 \<and> tx sock' = tx tunnel @ reply)
        else h' = h \<and> (ms_transportType ms = modbusTCPOverTLS \<longrightarrow> sock' = tunnel))"
proof -
  have session: "\<exists>tt'. handleTransport (tcpTransportOps sockLink) (ms_handler ms) remoteAddr role (newTCPTransport s t) h
      = Some (tt', snd (serve_stream (ms_handler ms) remoteAddr role (sock_avail s) h))
    \<and> tx (tt_socket tt') = tx s @ fst (serve_stream (ms_handler ms) remoteAddr role (sock_avail s) h)"
    if "sock_inv s" for s role t
    using handleTransport_refines [of "newTCPTransport s t" "ms_handler ms" remoteAddr role h] that
    by (simp add: newTCPTransport_def)
  let ?timed = "sock\<lparr>sock_deadline := clock sock + 30000000000\<rparr>"
  have timed: "link_SetDeadline sockLink (time_Now sockLink sock + 30 * 1000000000) sock = (Ok (), ?timed)" "sock_inv ?timed"
    using assms(1) by (simp_all add: sock_defs)
  show ?thesis
  proof (cases "ms_transportType ms")
    case modbusTCP
    with session [OF assms(1), of "''''" "svc_Timeout (ms_conf ms)"] show ?thesis
      by (auto simp: serveTCPClient_def split_beta)
  next
    case modbusTCPOverTLS
    with assms(4) obtain cert where cert: "svc_TLSServerCert (ms_conf ms) = Some cert" by auto
    obtain r tunnel where hs: "tls_Handshake T cert (svc_TLSClientCAs (ms_conf ms)) ?timed = (r, tunnel)"
      by (rule prod.exhaust)
    have inv: "sock_inv tunnel"
      using shakes [OF timed(2), of cert "svc_TLSClientCAs (ms_conf ms)"] hs by simp
    show ?thesis
    proof (cases "r = Ok () \<and> tls_PeerCertificates T tunnel \<noteq> []")
      case True
      then obtain leaf certs where "tls_PeerCertificates T tunnel = leaf # certs"
        by (meson neq_Nil_conv)
      with True modbusTCPOverTLS cert hs timed(1) session [OF inv, of "cert_role (asn1_Unmarshal T) leaf" "svc_Timeout (ms_conf ms)"]
      show ?thesis
        by (auto simp: serveTCPClient_def startTLS_def assms(2) extractRole_cert_role split_beta)
    next
      case False
      with modbusTCPOverTLS cert hs timed(1) show ?thesis
        by (auto simp: serveTCPClient_def startTLS_def split: sum.split list.split)
    qed
  qed (auto simp: serveTCPClient_def split_beta)
qed

definition demo_tls :: "(unit, unit, sock) tlsServer" where
  "demo_tls = \<lparr>tls_Handshake = (\<lambda>_ _ s. (Ok (), s)), tls_PeerCertificates = (\<lambda>_. [demo_cert]), tls_Conn = sockLink,
     asn1_Unmarshal = demo_unmarshal\<rparr>"

definition demo_tls_server :: "(unit, unit, uint16 list, nat, nat) ModbusServer" where
  "demo_tls_server = \<lparr>ms_conf = demo_server_conf\<lparr>svc_TLSServerCert := Some (), svc_TLSClientCAs := Some ()\<rparr>,
     ms_started = True, ms_handler = demo_handler, ms_tcpListener = Some 0, ms_tcpClients = [0],
     ms_transportType = modbusTCPOverTLS\<rparr>"

text \<open>A register written over TLS by a client whose certificate says \<open>OP\<close>.\<close>

theorem tcp_client_sessions_witness:
  "\<exists>sock'. serveTCPClient sockLink demo_tls demo_tls_server ''peer''
      (tt_socket (demo_tcp [assembleMBAPFrame 8 (encode_request 1 (SetReg 0 0xabcd))])) [0x1234]
    = Some (sock', snd (serve_stream demo_handler ''peer'' ''OP'' (assembleMBAPFrame 8 (encode_request 1 (SetReg 0 0xabcd))) [0x1234]))"
proof -
  let ?sock = "tt_socket (demo_tcp [assembleMBAPFrame 8 (encode_request 1 (SetReg 0 0xabcd))])"
  have role: "cert_role demo_unmarshal demo_cert = ''OP''"
    by (simp add: cert_role_def demo_cert_def demo_unmarshal_def modbusRoleOID_def char_of_def bit_0)
  have "sock_inv ?sock" by simp
  from tcp_client_sessions [OF this, of demo_tls demo_tls_server "''peer''" "[0x1234]"] role
  show ?thesis
    by (auto simp: demo_tls_def demo_tls_server_def sock_avail_def demo_tcp_def newTCPTransport_def Let_def split_beta)
qed

end
