(* ===== verification/Server_Pool.thy ===== *)
theory Server_Pool
  imports Server_Config "HOL-Library.Multiset"
begin

text \<open>
  internal/modbus/server.go: the life of a server.  \<open>Start\<close>, \<open>Stop\<close>, the decision about a new
  connection and the removal of a finished one are functions, each atomic under the lock of the
  server; the goroutines \<open>acceptTCPClients\<close> and \<open>handleTCPClient\<close> are a labelled step relation in which
  they interleave freely.  What a connection is served with is in \<open>Server_Config\<close>.
\<close>

section \<open>The operations under the lock\<close>

text \<open>\<open>Start\<close>, given what \<open>net.Listen\<close> returns; a failed call of it leaves \<open>nil\<close> in the listener.\<close>

definition Start ::
  "'l result \<Rightarrow> ('c, 'p, 'h, 'l, 'k) ModbusServer \<Rightarrow> unit result \<times> ('c, 'p, 'h, 'l, 'k) ModbusServer" where
  "Start listen ms =
     (if ms_started ms then (Ok (), ms)
      else if ms_transportType ms = modbusTCP \<or> ms_transportType ms = modbusTCPOverTLS then
        (case listen of
           Inl e \<Rightarrow> (Err e, ms\<lparr>ms_tcpListener := None\<rparr>)
         | Inr l \<Rightarrow> (Ok (), ms\<lparr>ms_tcpListener := Some l, ms_started := True\<rparr>))
      else (Err ErrConfigurationError, ms))"

text \<open>
  \<open>Stop\<close>, given what \<open>Close\<close> of a listener returns: the result, the listener and the connections it
  closes in this order, and the server.  \<open>None\<close> is the panic on a listener that is \<open>nil\<close>.
\<close>

definition Stop ::
  "('l \<Rightarrow> unit result) \<Rightarrow> ('c, 'p, 'h, 'l, 'k) ModbusServer
    \<Rightarrow> (unit result \<times> 'l option \<times> 'k list \<times> ('c, 'p, 'h, 'l, 'k) ModbusServer) option" where
  "Stop close ms =
     (if \<not> ms_started ms then Some (Ok (), None, [], ms)
      else
        let ms' = ms\<lparr>ms_started := False\<rparr> in
        if ms_transportType ms = modbusTCP \<or> ms_transportType ms = modbusTCPOverTLS then do {
          l \<leftarrow> ms_tcpListener ms;
          Some (close l, Some l, ms_tcpClients ms, ms') }
        else Some (Ok (), None, [], ms'))"

text \<open>The decision about a new connection, and the slice after a connection has been removed.\<close>

definition admit :: "'k \<Rightarrow> ('c, 'p, 'h, 'l, 'k) ModbusServer \<Rightarrow> bool \<times> ('c, 'p, 'h, 'l, 'k) ModbusServer" where
  "admit sock ms =
     (if ms_started ms \<and> (of_nat (length (ms_tcpClients ms)) :: uint) < svc_MaxClients (ms_conf ms)
      then (True, ms\<lparr>ms_tcpClients := ms_tcpClients ms @ [sock]\<rparr>)
      else (False, ms))"

fun clientIndex :: "'k \<Rightarrow> 'k list \<Rightarrow> nat option" where
  "clientIndex sock [] = None"
| "clientIndex sock (x # xs) = (if x = sock then Some 0 else map_option Suc (clientIndex sock xs))"

definition removeClient :: "'k \<Rightarrow> 'k list \<Rightarrow> 'k list" where
  "removeClient sock clients =
     (case clientIndex sock clients of
        None \<Rightarrow> clients
      | Some i \<Rightarrow> take (length clients - 1) (clients[i := clients ! (length clients - 1)]))"

section \<open>The goroutines\<close>

text \<open>
  Where an accepting goroutine stands: before it reads the field of the listener, in \<open>Accept\<close> of a
  listener, and with a connection before the decision, before it starts the goroutine that serves
  it, and before it closes a refused one.  A serving goroutine is in \<open>handleTransport\<close> or the
  handshake, before it takes the lock, or before it closes its connection.
\<close>

datatype acceptor = AtLoop | Accepting nat | Accepted nat | Spawning nat | Rejecting nat

datatype servant = Serving | Leaving | Closing

text \<open>
  The process: the server, the goroutines, the listeners that were ever bound and those that
  are open, the connections that were ever accepted and those that are closed, and whether a goroutine
  has panicked, which ends all of them.
\<close>

record ('c, 'p, 'h) world =
  srv :: "('c, 'p, 'h, nat, nat) ModbusServer"
  acceptors :: "nat \<Rightarrow> acceptor option"
  servants :: "nat \<Rightarrow> servant option"
  bound :: "nat set"
  listening :: "nat set"
  seen_conns :: "nat set"
  closed_conns :: "nat set"
  panicked :: bool

datatype event =
    StartEv "nat result" nat
  | StopEv
  | LoadEv nat | AcceptEv nat nat | AcceptErrorEv nat | ReturnEv nat | DecideEv nat | SpawnEv nat | RejectEv nat
  | LeaveEv nat | RemoveEv nat | CloseEv nat

definition panic :: "('c, 'p, 'h) world \<Rightarrow> ('c, 'p, 'h) world" where
  "panic w = w\<lparr>panicked := True\<rparr>"

text \<open>One step of the user, of an accepting goroutine \<open>g\<close> or of the goroutine that serves \<open>c\<close>.\<close>

inductive server_step :: "('c, 'p, 'h) world \<Rightarrow> event \<Rightarrow> ('c, 'p, 'h) world \<Rightarrow> bool" where
  start_err: "server_step w (StartEv (Inl e) g) (w\<lparr>srv := snd (Start (Inl e) (srv w))\<rparr>)"
    if "\<not> panicked w"
| start: "server_step w (StartEv (Inr l) g)
      (if ms_started ms' \<and> \<not> ms_started (srv w)
       then w\<lparr>srv := ms', acceptors := (acceptors w)(g \<mapsto> AtLoop), bound := insert l (bound w),
              listening := insert l (listening w)\<rparr>
       else w\<lparr>srv := ms'\<rparr>)"
    if "\<not> panicked w" "l \<notin> bound w" "acceptors w g = None" "snd (Start (Inr l) (srv w)) = ms'"
| stop: "server_step w StopEv (w\<lparr>srv := ms', listening := listening w - set_option l, closed_conns := closed_conns w \<union> set cs\<rparr>)"
    if "\<not> panicked w" "Stop (\<lambda>_. Ok ()) (srv w) = Some (r, l, cs, ms')"
| stop_panic: "server_step w StopEv (panic w)"
    if "\<not> panicked w" "Stop (\<lambda>_. Ok ()) (srv w) = None"
| load: "server_step w (LoadEv g) (w\<lparr>acceptors := (acceptors w)(g \<mapsto> Accepting l)\<rparr>)"
    if "\<not> panicked w" "acceptors w g = Some AtLoop" "ms_tcpListener (srv w) = Some l"
| load_panic: "server_step w (LoadEv g) (panic w)"
    if "\<not> panicked w" "acceptors w g = Some AtLoop" "ms_tcpListener (srv w) = None"
| accept: "server_step w (AcceptEv g c) (w\<lparr>acceptors := (acceptors w)(g \<mapsto> Accepted c), seen_conns := insert c (seen_conns w)\<rparr>)"
    if "\<not> panicked w" "acceptors w g = Some (Accepting l)" "l \<in> listening w" "c \<notin> seen_conns w"
| accept_error: "server_step w (AcceptErrorEv g) (w\<lparr>acceptors := (acceptors w)(g \<mapsto> AtLoop)\<rparr>)"
    if "\<not> panicked w" "acceptors w g = Some (Accepting l)" "l \<in> listening w"
| return: "server_step w (ReturnEv g) (w\<lparr>acceptors := (acceptors w)(g := None)\<rparr>)"
    if "\<not> panicked w" "acceptors w g = Some (Accepting l)" "l \<notin> listening w"
| decide: "server_step w (DecideEv g)
      (w\<lparr>srv := ms', acceptors := (acceptors w)(g \<mapsto> (if accepted then Spawning c else Rejecting c))\<rparr>)"
    if "\<not> panicked w" "acceptors w g = Some (Accepted c)" "admit c (srv w) = (accepted, ms')"
| spawn: "server_step w (SpawnEv g) (w\<lparr>acceptors := (acceptors w)(g \<mapsto> AtLoop), servants := (servants w)(c \<mapsto> Serving)\<rparr>)"
    if "\<not> panicked w" "acceptors w g = Some (Spawning c)"
| reject: "server_step w (RejectEv g) (w\<lparr>acceptors := (acceptors w)(g \<mapsto> AtLoop), closed_conns := insert c (closed_conns w)\<rparr>)"
    if "\<not> panicked w" "acceptors w g = Some (Rejecting c)"
| leave: "server_step w (LeaveEv c) (w\<lparr>servants := (servants w)(c \<mapsto> Leaving)\<rparr>)"
    if "\<not> panicked w" "servants w c = Some Serving"
| remove: "server_step w (RemoveEv c)
      (w\<lparr>srv := (srv w)\<lparr>ms_tcpClients := removeClient c (ms_tcpClients (srv w))\<rparr>,
         servants := (servants w)(c \<mapsto> Closing)\<rparr>)"
    if "\<not> panicked w" "servants w c = Some Leaving"
| close: "server_step w (CloseEv c) (w\<lparr>servants := (servants w)(c := None), closed_conns := insert c (closed_conns w)\<rparr>)"
    if "\<not> panicked w" "servants w c = Some Closing"

text \<open>A process that has just made a server.\<close>

definition fresh_world :: "('c, 'p, 'h, nat, nat) ModbusServer \<Rightarrow> ('c, 'p, 'h) world" where
  "fresh_world ms = \<lparr>srv = ms, acceptors = Map.empty, servants = Map.empty, bound = {}, listening = {},
     seen_conns = {}, closed_conns = {}, panicked = False\<rparr>"

inductive server_run :: "('c, 'p, 'h) world \<Rightarrow> event list \<Rightarrow> ('c, 'p, 'h) world \<Rightarrow> bool" where
  server_run_Nil: "server_run w [] w"
| server_run_Cons: "server_run w (e # es) w2" if "server_step w e w1" "server_run w1 es w2"

inductive_cases server_run_NilE: "server_run w [] w'"
inductive_cases server_run_ConsE: "server_run w (e # es) w'"

section \<open>The pool of connections\<close>

lemma clientIndex_in: "sock \<in> set clients \<Longrightarrow> \<exists>i<length clients. clientIndex sock clients = Some i \<and> clients ! i = sock"
  by (induction clients) auto

lemma clientIndex_out: "sock \<notin> set clients \<Longrightarrow> clientIndex sock clients = None"
  by (induction clients) auto

lemma removeClient_mset: "mset (removeClient sock clients) = mset clients - {#sock#}"
proof (cases "sock \<in> set clients")
  case True
  then obtain i where i: "i < length clients" "clientIndex sock clients = Some i" "clients ! i = sock"
    using clientIndex_in by metis
  obtain front last where f: "clients = front @ [last]"
    using i(1) by (cases clients rule: rev_cases) auto
  have "removeClient sock clients = (if i = length front then front else front[i := last])"
    using i f by (auto simp: removeClient_def nth_append list_update_append)
  moreover have "mset (front[i := last]) = add_mset last (mset front - {#sock#})" "sock \<in># mset front" if "i < length front"
    using that i(3) f by (auto simp: mset_update nth_append dest: nth_mem)
  moreover have "last = sock" if "\<not> i < length front"
    using that i(1,3) f by (simp add: nth_append split: if_splits)
  ultimately show ?thesis
    using i(1) f by (cases "i < length front") auto
qed (simp add: removeClient_def clientIndex_out)

lemma removeClient_distinct:
  assumes "distinct clients"
  shows "distinct (removeClient sock clients)" "set (removeClient sock clients) = set clients - {sock}"
    "length (removeClient sock clients) \<le> length clients"
proof -
  have m: "mset (removeClient sock clients) = mset (remove1 sock clients)"
    by (simp add: removeClient_mset)
  show "distinct (removeClient sock clients)"
    using assms mset_eq_imp_distinct_iff [OF m] by simp
  show "set (removeClient sock clients) = set clients - {sock}"
    using assms mset_eq_setD [OF m] by simp
  show "length (removeClient sock clients) \<le> length clients"
    using mset_eq_length [OF m] by (simp add: length_remove1)
qed

section \<open>The invariant\<close>

text \<open>The connection an accepting goroutine holds.\<close>

fun holds :: "acceptor \<Rightarrow> nat option" where
  "holds (Accepted c) = Some c"
| "holds (Spawning c) = Some c"
| "holds (Rejecting c) = Some c"
| "holds _ = None"

definition holder :: "('c, 'p, 'h) world \<Rightarrow> nat \<Rightarrow> nat option" where
  "holder w g = Option.bind (acceptors w g) holds"

text \<open>The connections of the pool: those that are about to be served or still served.\<close>

definition pooled :: "('c, 'p, 'h) world \<Rightarrow> nat set" where
  "pooled w = {c. servants w c = Some Serving \<or> servants w c = Some Leaving \<or> (\<exists>g. acceptors w g = Some (Spawning c))}"

definition held_once :: "('c, 'p, 'h) world \<Rightarrow> bool" where
  "held_once w \<longleftrightarrow> (\<forall>g g' c. holder w g = Some c \<longrightarrow> holder w g' = Some c \<longrightarrow> g = g')"

definition conns_ok :: "('c, 'p, 'h) world \<Rightarrow> bool" where
  "conns_ok w \<longleftrightarrow>
     (\<forall>g c. holder w g = Some c \<longrightarrow> c \<in> seen_conns w \<and> servants w c = None)
     \<and> (\<forall>c s. servants w c = Some s \<longrightarrow> c \<in> seen_conns w)"

definition none_lost :: "('c, 'p, 'h) world \<Rightarrow> bool" where
  "none_lost w \<longleftrightarrow> (\<forall>c\<in>seen_conns w. (\<exists>g. holder w g = Some c) \<or> servants w c \<noteq> None \<or> c \<in> closed_conns w)"

definition finite_ok :: "('c, 'p, 'h) world \<Rightarrow> bool" where
  "finite_ok w \<longleftrightarrow> finite (dom (acceptors w)) \<and> finite (dom (servants w))"

definition pool_ok :: "('c, 'p, 'h) world \<Rightarrow> bool" where
  "pool_ok w \<longleftrightarrow>
     distinct (ms_tcpClients (srv w)) \<and> set (ms_tcpClients (srv w)) = pooled w
     \<and> length (ms_tcpClients (srv w)) \<le> unat (svc_MaxClients (ms_conf (srv w)))"

definition listener_ok :: "('c, 'p, 'h) world \<Rightarrow> bool" where
  "listener_ok w \<longleftrightarrow>
     (let ms = srv w in
      (if ms_started ms then (\<exists>l. ms_tcpListener ms = Some l \<and> listening w = {l}) else listening w = {})
      \<and> (\<not> ms_started ms \<longrightarrow> set (ms_tcpClients ms) \<subseteq> closed_conns w)
      \<and> listening w \<subseteq> bound w
      \<and> (ms_started ms \<longrightarrow> ms_transportType ms = modbusTCP \<or> ms_transportType ms = modbusTCPOverTLS))"

definition world_ok :: "('c, 'p, 'h) world \<Rightarrow> bool" where
  "world_ok w \<longleftrightarrow> held_once w \<and> conns_ok w \<and> none_lost w \<and> finite_ok w \<and> pool_ok w \<and> listener_ok w"

section \<open>Every step keeps the invariant\<close>

lemma fresh_world_ok:
  assumes "\<not> ms_started ms" "ms_tcpClients ms = []" "ms_tcpListener ms = None"
  shows "world_ok (fresh_world ms)"
  using assms
  by (simp add: world_ok_def held_once_def conns_ok_def none_lost_def finite_ok_def pool_ok_def listener_ok_def
      fresh_world_def holder_def pooled_def Let_def)

lemma admit_cases:
  assumes "admit c ms = (accepted, ms')"
  shows "if accepted then ms_started ms \<and> ms' = ms\<lparr>ms_tcpClients := ms_tcpClients ms @ [c]\<rparr>
      \<and> (of_nat (length (ms_tcpClients ms)) :: uint) < svc_MaxClients (ms_conf ms) else ms' = ms"
  using assms by (auto simp: admit_def split: if_splits)

text \<open>The length of a pool within the limit fits its \<open>uint\<close>, so that the comparison is exact.\<close>

lemma limit_exact:
  assumes "length clients \<le> unat (m :: uint)" "(of_nat (length clients) :: uint) < m"
  shows "length clients < unat m"
proof -
  have "length clients < 2 ^ 64"
    using assms(1) unsigned_less [where 'a = nat, of m] by simp
  then have "unat (of_nat (length clients) :: uint) = length clients"
    by (simp add: unat_of_nat)
  with assms(2) show ?thesis
    by (simp add: word_less_nat_alt)
qed

lemma holder_simps [simp]:
  "holder (w\<lparr>srv := s\<rparr>) = holder w" "holder (w\<lparr>servants := v\<rparr>) = holder w" "holder (w\<lparr>bound := b\<rparr>) = holder w"
  "holder (w\<lparr>listening := l\<rparr>) = holder w" "holder (w\<lparr>seen_conns := n\<rparr>) = holder w"
  "holder (w\<lparr>closed_conns := n\<rparr>) = holder w" "holder (panic w) = holder w"
  by (auto simp: holder_def panic_def)

lemma holder_upd [simp]:
  "holder (w\<lparr>acceptors := f\<rparr>) = (\<lambda>g. Option.bind (f g) holds)" "Option.bind (acceptors w g) holds = holder w g"
  by (auto simp: holder_def)

lemma panic_simps [simp]:
  "srv (panic w) = srv w" "acceptors (panic w) = acceptors w" "servants (panic w) = servants w"
  "seen_conns (panic w) = seen_conns w" "closed_conns (panic w) = closed_conns w" "listening (panic w) = listening w"
  "bound (panic w) = bound w" "panicked (panic w)"
  by (simp_all add: panic_def)

lemma holder_of: "acceptors w g = Some a \<Longrightarrow> holder w g = holds a"
  by (simp add: holder_def)

lemma no_holder: "acceptors w g = None \<Longrightarrow> holder w g = None"
  by (simp add: holder_def)

lemma step_held_once:
  assumes "server_step w e w'" "held_once w" "conns_ok w"
  shows "held_once w'"
  using assms unfolding held_once_def conns_ok_def
  by cases (auto dest!: holder_of no_holder split: if_splits)

lemma step_conns_ok:
  assumes "server_step w e w'" "held_once w" "conns_ok w"
  shows "conns_ok w'"
  using assms unfolding held_once_def conns_ok_def
  by cases (auto dest!: holder_of no_holder split: if_splits)

lemma step_finite_ok:
  assumes "server_step w e w'" "finite_ok w"
  shows "finite_ok w'"
  using assms unfolding finite_ok_def
  by cases (auto split: if_splits)

lemma none_lostE:
  assumes "none_lost w" "c \<in> seen_conns w"
  obtains g where "holder w g = Some c" | s where "servants w c = Some s" | "c \<in> closed_conns w"
  using assms by (auto simp: none_lost_def)

lemma step_none_lost:
  assumes "server_step w e w'" "none_lost w"
  shows "none_lost w'"
  using assms(1) unfolding none_lost_def [of w']
  by cases (auto dest!: holder_of no_holder elim!: none_lostE [OF assms(2)] split: if_splits; force)+

text \<open>\<open>Start\<close> and \<open>Stop\<close> leave the pool alone.\<close>

lemma Start_keeps [simp]:
  "ms_tcpClients (snd (Start r ms)) = ms_tcpClients ms" "ms_conf (snd (Start r ms)) = ms_conf ms"
  "ms_transportType (snd (Start r ms)) = ms_transportType ms"
  by (auto simp: Start_def split: sum.split)

lemma Stop_cases:
  assumes "Stop cl ms = Some (r, l, cs, ms')"
  obtains "\<not> ms_started ms" "l = None" "cs = []" "ms' = ms"
  | "ms_started ms" "ms_transportType ms = modbusTCP \<or> ms_transportType ms = modbusTCPOverTLS"
    "l = ms_tcpListener ms" "cs = ms_tcpClients ms" "ms' = ms\<lparr>ms_started := False\<rparr>"
  | "ms_started ms" "\<not> (ms_transportType ms = modbusTCP \<or> ms_transportType ms = modbusTCPOverTLS)"
    "l = None" "cs = []" "ms' = ms\<lparr>ms_started := False\<rparr>"
  using assms by (auto simp: Stop_def Let_def split: if_splits bind_splits)

lemma held_onceD:
  assumes "held_once w" "acceptors w g = Some a" "acceptors w g' = Some a'" "holds a = Some c" "holds a' = Some c"
  shows "g' = g" "a' = a"
proof -
  have "holder w g = Some c" "holder w g' = Some c"
    using assms(4,5) holder_of [OF assms(2)] holder_of [OF assms(3)] by simp_all
  then show "g' = g"
    using assms(1) unfolding held_once_def by blast
  with assms(2,3) show "a' = a" by simp
qed

definition spawning :: "('c, 'p, 'h) world \<Rightarrow> nat set" where
  "spawning w = {c. \<exists>g. acceptors w g = Some (Spawning c)}"

lemma pooled_spawning: "pooled w = {c. servants w c = Some Serving \<or> servants w c = Some Leaving} \<union> spawning w"
  by (auto simp: pooled_def spawning_def)

lemma spawning_simps [simp]:
  "spawning (w\<lparr>srv := s\<rparr>) = spawning w" "spawning (w\<lparr>servants := v\<rparr>) = spawning w" "spawning (w\<lparr>bound := b\<rparr>) = spawning w"
  "spawning (w\<lparr>listening := l\<rparr>) = spawning w" "spawning (w\<lparr>seen_conns := n\<rparr>) = spawning w"
  "spawning (w\<lparr>closed_conns := n\<rparr>) = spawning w" "spawning (panic w) = spawning w"
  by (auto simp: spawning_def panic_def)

lemma ex_upd: "(\<exists>g'. (f(g := a)) g' = x) \<longleftrightarrow> a = x \<or> (\<exists>g'. g' \<noteq> g \<and> f g' = x)"
  by (metis fun_upd_other fun_upd_same)

lemma spawning_upd:
  assumes "held_once w"
  shows "spawning (w\<lparr>acceptors := (acceptors w)(g := a)\<rparr>) =
    (spawning w - {c. acceptors w g = Some (Spawning c)}) \<union> {c. a = Some (Spawning c)}"
proof (rule set_eqI)
  fix c
  have one: "g' = g" if "acceptors w g = Some (Spawning c)" "acceptors w g' = Some (Spawning c)" for g'
    using held_onceD(1) [OF assms that] by simp
  have "c \<in> spawning (w\<lparr>acceptors := (acceptors w)(g := a)\<rparr>) \<longleftrightarrow>
      a = Some (Spawning c) \<or> (\<exists>g'. g' \<noteq> g \<and> acceptors w g' = Some (Spawning c))"
    by (simp add: spawning_def ex_upd del: fun_upd_apply)
  also have "(\<exists>g'. g' \<noteq> g \<and> acceptors w g' = Some (Spawning c)) \<longleftrightarrow>
      (\<exists>g'. acceptors w g' = Some (Spawning c)) \<and> acceptors w g \<noteq> Some (Spawning c)"
    by (metis one)
  finally show "c \<in> spawning (w\<lparr>acceptors := (acceptors w)(g := a)\<rparr>) \<longleftrightarrow>
      c \<in> (spawning w - {c. acceptors w g = Some (Spawning c)}) \<union> {c. a = Some (Spawning c)}"
    unfolding spawning_def by blast
qed

lemma step_pool_ok:
  assumes "server_step w e w'" "pool_ok w" "held_once w" "conns_ok w"
  shows "pool_ok w'"
proof -
  note upd = spawning_upd [OF assms(3)]
  have acc: "pool_ok (w2\<lparr>acceptors := (acceptors w2)(g := a)\<rparr>)"
    if "pool_ok w2" "held_once w2" "\<And>c. acceptors w2 g \<noteq> Some (Spawning c)" "\<And>c. a \<noteq> Some (Spawning c)"
    for w2 :: "('a, 'b, 'c) world" and g a
    using that by (simp add: pool_ok_def pooled_spawning spawning_upd)
  have other: "pool_ok (w2\<lparr>bound := b\<rparr>) = pool_ok w2" "pool_ok (w2\<lparr>listening := l\<rparr>) = pool_ok w2"
    "pool_ok (w2\<lparr>seen_conns := n\<rparr>) = pool_ok w2" "pool_ok (w2\<lparr>closed_conns := n\<rparr>) = pool_ok w2" "pool_ok (panic w2) = pool_ok w2"
    for w2 :: "('a, 'b, 'c) world" and b l n
    by (simp_all add: pool_ok_def pooled_spawning)
  have srv: "pool_ok (w2\<lparr>srv := ms\<rparr>) = pool_ok w2"
    if "ms_tcpClients ms = ms_tcpClients (srv w2)" "ms_conf ms = ms_conf (srv w2)" for w2 :: "('a, 'b, 'c) world" and ms
    using that by (simp add: pool_ok_def pooled_spawning)
  from assms(1) show ?thesis
  proof cases
    case (start l g ms')
    have ms: "ms_tcpClients ms' = ms_tcpClients (srv w)" "ms_conf ms' = ms_conf (srv w)"
      unfolding start(6) [symmetric] by simp_all
    have "pool_ok (w\<lparr>srv := ms'\<rparr>)"
      using assms(2) srv [OF ms] by simp
    moreover have "held_once (w\<lparr>srv := ms'\<rparr>)"
      using assms(3) by (simp add: held_once_def)
    ultimately have acc': "pool_ok (w\<lparr>srv := ms'\<rparr>)" "pool_ok (w\<lparr>srv := ms', acceptors := (acceptors w)(g := Some AtLoop)\<rparr>)"
      using acc [of "w\<lparr>srv := ms'\<rparr>" g "Some AtLoop"] start(5) by simp_all
    with acc' start(2) show ?thesis
      by (simp add: other)
  next
    case (stop r l cs ms')
    from stop(4) have "ms_tcpClients ms' = ms_tcpClients (srv w)" "ms_conf ms' = ms_conf (srv w)"
      by (cases rule: Stop_cases; simp)+
    with stop(2) assms(2) show ?thesis by (simp add: other srv)
  next
    case (decide g c accepted ms')
    have c: "holder w g = Some c" "servants w c = None"
      using decide(4) assms(4) by (auto dest!: holder_of simp: conns_ok_def)
    have "c \<notin> spawning w"
      using held_onceD(2) [OF assms(3) decide(4), of _ "Spawning c" c] by (auto simp: spawning_def)
    with c have "c \<notin> pooled w" by (simp add: pooled_spawning)
    moreover have "pooled w' = (if accepted then insert c (pooled w) else pooled w)"
    proof -
      have "held_once (w\<lparr>srv := ms'\<rparr>)"
        using assms(3) by (simp add: held_once_def)
      from spawning_upd [OF this, of g] decide(4)
      have "spawning (w\<lparr>srv := ms', acceptors := (acceptors w)(g := a)\<rparr>) = spawning w \<union> {c. a = Some (Spawning c)}" for a
        by simp
      with decide(2) show ?thesis
        by (auto simp: pooled_spawning)
    qed
    ultimately show ?thesis
      using admit_cases [OF decide(5)] decide(2) assms(2)
        limit_exact [of "ms_tcpClients (srv w)" "svc_MaxClients (ms_conf (srv w))"]
      by (auto simp: pool_ok_def split: if_splits)
  next
    case (spawn g c)
    then have "pooled w' = pooled w"
      by (auto simp: pooled_spawning upd) (auto simp: spawning_def)
    with spawn assms(2) show ?thesis by (simp add: pool_ok_def)
  next
    case (remove c)
    have "c \<notin> spawning w"
      using remove(4) assms(4) by (auto simp: spawning_def conns_ok_def dest: holder_of)
    with remove(2) have "pooled w' = pooled w - {c}"
      by (auto simp: pooled_spawning)
    with remove(2) assms(2) removeClient_distinct [of "ms_tcpClients (srv w)" c] show ?thesis
      by (auto simp: pool_ok_def)
  next
    case (leave c)
    then have "pooled w' = pooled w" by (auto simp: pooled_spawning)
    with leave assms(2) show ?thesis by (simp add: pool_ok_def)
  next
    case (close c)
    then have "pooled w' = pooled w" by (auto simp: pooled_spawning)
    with close assms(2) show ?thesis by (simp add: pool_ok_def)
  qed (use assms(2) acc [OF assms(2,3)] in \<open>simp_all add: other srv\<close>)
qed

lemma step_listener_ok:
  assumes "server_step w e w'" "listener_ok w" "pool_ok w"
  shows "listener_ok w'"
  using assms(1)
proof cases
  case (start_err e g)
  with assms(2) show ?thesis
    by (simp add: listener_ok_def Start_def Let_def split: if_splits)
next
  case (start l g ms')
  show ?thesis
  proof (cases "\<not> ms_started (srv w) \<and> (ms_transportType (srv w) = modbusTCP \<or> ms_transportType (srv w) = modbusTCPOverTLS)")
    case True
    then have "ms' = (srv w)\<lparr>ms_tcpListener := Some l, ms_started := True\<rparr>"
      using start(6) by (simp add: Start_def)
    with True start(2) assms(2) show ?thesis
      by (simp add: listener_ok_def Let_def)
  next
    case False
    then have "ms' = srv w"
      using start(6) by (auto simp: Start_def)
    with start(2) assms(2) show ?thesis
      by (simp add: listener_ok_def Let_def)
  qed
next
  case (stop r l cs ms')
  from stop(4) show ?thesis
    by (cases rule: Stop_cases) (use stop(2) assms(2) in \<open>auto simp: listener_ok_def Let_def\<close>)
next
  case (decide g c accepted ms')
  with assms(2) admit_cases [OF decide(5)] show ?thesis
    by (auto simp: listener_ok_def Let_def split: if_splits)
next
  case (remove c)
  with assms(2,3) removeClient_distinct [of "ms_tcpClients (srv w)" c] show ?thesis
    by (auto simp: listener_ok_def pool_ok_def Let_def split: if_splits)
qed (use assms(2) in \<open>auto simp: listener_ok_def Let_def split: if_splits\<close>)

lemma step_world_ok: "server_step w e w' \<Longrightarrow> world_ok w \<Longrightarrow> world_ok w'"
  unfolding world_ok_def
  using step_held_once step_conns_ok step_none_lost step_finite_ok step_pool_ok step_listener_ok by blast

lemma run_world_ok: "server_run w es w' \<Longrightarrow> world_ok w \<Longrightarrow> world_ok w'"
  by (induction rule: server_run.induct) (auto intro: step_world_ok)

section \<open>A stopped server comes to rest\<close>

text \<open>The steps still before a goroutine once the server is stopped and nobody starts it again.\<close>

fun acceptor_work :: "acceptor \<Rightarrow> nat" where
  "acceptor_work (Accepting l) = 1"
| "acceptor_work AtLoop = 2"
| "acceptor_work (Rejecting c) = 3"
| "acceptor_work (Accepted c) = 4"
| "acceptor_work (Spawning c) = 6"

fun servant_work :: "servant \<Rightarrow> nat" where
  "servant_work Closing = 1"
| "servant_work Leaving = 2"
| "servant_work Serving = 3"

definition map_work :: "('a \<Rightarrow> nat) \<Rightarrow> (nat \<Rightarrow> 'a option) \<Rightarrow> nat" where
  "map_work f m = (\<Sum>g\<in>dom m. f (the (m g)))"

definition work :: "('c, 'p, 'h) world \<Rightarrow> nat" where
  "work w = (if panicked w then 0 else 1 + map_work acceptor_work (acceptors w) + map_work servant_work (servants w))"

lemma map_work_Some:
  assumes "finite (dom m)"
  shows "map_work f (m(g \<mapsto> a)) + (case m g of None \<Rightarrow> 0 | Some b \<Rightarrow> f b) = map_work f m + f a"
proof -
  have *: "map_work f m = map_work f (m(g := None)) + (case m g of None \<Rightarrow> 0 | Some b \<Rightarrow> f b)"
    if "finite (dom m)" for m :: "nat \<Rightarrow> 'a option"
  proof (cases "m g")
    case None
    then show ?thesis by (simp add: fun_upd_idem)
  next
    case (Some b)
    then have "g \<in> dom m" by auto
    have "map_work f (m(g := None)) = (\<Sum>x\<in>dom m - {g}. f (the (m x)))"
      unfolding map_work_def by (intro sum.cong) auto
    then show ?thesis
      using Some sum.remove [OF that \<open>g \<in> dom m\<close>, of "\<lambda>x. f (the (m x))"] by (simp add: map_work_def)
  qed
  from * [OF assms] * [of "m(g \<mapsto> a)"] assms show ?thesis by simp
qed

lemma map_work_None:
  assumes "finite (dom m)" "m g = Some b"
  shows "map_work f (m(g := None)) + f b = map_work f m"
  using map_work_Some [of "m(g := None)" f g b] assms by (simp add: fun_upd_idem)

text \<open>Every step but a start takes work away.\<close>

lemma stopped_step_work:
  assumes "server_step w e w'" "world_ok w" "\<not> ms_started (srv w)" "e \<noteq> StopEv" "\<And>r g. e \<noteq> StartEv r g"
  shows "work w' < work w" "\<not> ms_started (srv w')" "set (ms_tcpClients (srv w')) \<subseteq> set (ms_tcpClients (srv w))"
proof -
  have fin: "finite (dom (acceptors w))" "finite (dom (servants w))" and closed: "listening w = {}"
    and distinct: "distinct (ms_tcpClients (srv w))"
    using assms(2,3) by (simp_all add: world_ok_def finite_ok_def listener_ok_def pool_ok_def Let_def)
  note a = map_work_Some [OF fin(1), where f = acceptor_work] map_work_Some [OF fin(2), where f = servant_work]
    map_work_None [OF fin(1), where f = acceptor_work] map_work_None [OF fin(2), where f = servant_work]
  show "work w' < work w"
    using assms(1)
  proof cases
    case (load g l)
    with a(1) [of g "Accepting l"] show ?thesis by (simp add: work_def)
  next
    case (return g l)
    with a(3) [of g "Accepting l"] show ?thesis by (simp add: work_def)
  next
    case (decide g c accepted ms')
    with assms(3) have "\<not> accepted" by (simp add: admit_def split: if_splits)
    with decide a(1) [of g "Rejecting c"] show ?thesis by (simp add: work_def)
  next
    case (spawn g c)
    have "servants w c = None"
      using spawn(4) assms(2) holder_of [of w g "Spawning c"] by (simp add: world_ok_def conns_ok_def)
    with spawn a(1) [of g AtLoop] a(2) [of c Serving] show ?thesis by (simp add: work_def)
  next
    case (reject g c)
    with a(1) [of g AtLoop] show ?thesis by (simp add: work_def)
  next
    case (leave c)
    with a(2) [of c Leaving] show ?thesis by (simp add: work_def)
  next
    case (remove c)
    with a(2) [of c Closing] show ?thesis by (simp add: work_def)
  next
    case (close c)
    with a(4) [of c Closing] show ?thesis by (simp add: work_def)
  qed (use assms(4,5) closed in \<open>simp_all add: work_def\<close>)
  show "\<not> ms_started (srv w')" "set (ms_tcpClients (srv w')) \<subseteq> set (ms_tcpClients (srv w))"
    using assms(1,3-5) removeClient_distinct(2) [OF distinct]
    by (cases; auto simp: admit_def split: if_splits)+
qed

text \<open>When no goroutine can move, the process has come to rest or has panicked.\<close>

lemma rest_or_step:
  assumes "world_ok w" "\<not> ms_started (srv w)" "\<not> panicked w"
  shows "acceptors w = Map.empty \<and> servants w = Map.empty \<or> (\<exists>e w'. server_step w e w' \<and> e \<noteq> StopEv \<and> (\<forall>r g. e \<noteq> StartEv r g))"
proof (cases "acceptors w = Map.empty \<and> servants w = Map.empty")
  case False
  have closed: "listening w = {}"
    using assms(1,2) by (simp add: world_ok_def listener_ok_def Let_def)
  from False consider g a where "acceptors w g = Some a" | c s where "servants w c = Some s"
    by (metis option.exhaust ext)
  then show ?thesis
  proof cases
    case 1
    show ?thesis
    proof (cases a)
      case AtLoop
      with 1 assms(3) show ?thesis
        by (cases "ms_tcpListener (srv w)") (blast intro: server_step.load server_step.load_panic)+
    next
      case (Accepting l)
      with 1 assms(3) closed server_step.return [of w g l] show ?thesis by blast
    next
      case (Accepted c)
      obtain accepted ms' where "admit c (srv w) = (accepted, ms')" by (rule prod.exhaust)
      with 1 Accepted assms(3) server_step.decide [of w g c accepted ms'] show ?thesis by blast
    next
      case (Spawning c)
      with 1 assms(3) server_step.spawn [of w g c] show ?thesis by blast
    next
      case (Rejecting c)
      with 1 assms(3) server_step.reject [of w g c] show ?thesis by blast
    qed
  next
    case 2
    with assms(3) server_step.leave [of w c] server_step.remove [of w c] server_step.close [of w c] show ?thesis
      by (cases s) blast+
  qed
qed simp

section \<open>Properties\<close>

lemma new_world_ok:
  assumes "NewServer conf H = (Ok (), ms)"
  shows "world_ok (fresh_world ms)"
proof (rule fresh_world_ok)
  have "\<exists>ty host. server_url (svc_URL conf) ty host \<and> (ty = modbusTCPOverTLS \<longrightarrow> server_certificates conf)"
  proof (rule ccontr)
    assume no: "\<not> ?thesis"
    have "fst (Ok (), ms) = Err ErrConfigurationError"
      unfolding assms [symmetric] by (rule NewServer_refused [OF no])
    then show False by simp
  qed
  then obtain ty host where "server_url (svc_URL conf) ty host \<and> (ty = modbusTCPOverTLS \<longrightarrow> server_certificates conf)"
    by blast
  then have "(Ok (), ms) = (Ok (), \<lparr>ms_conf = server_defaults conf host, ms_started = False, ms_handler = H,
      ms_tcpListener = None, ms_tcpClients = [], ms_transportType = ty\<rparr>)"
    unfolding assms [symmetric] by (intro NewServer_scheme) auto
  then show "\<not> ms_started ms" "ms_tcpClients ms = []" "ms_tcpListener ms = None"
    by simp_all
qed

text \<open>
  C6: the pool of connections is never over its limit, and no socket leaks.  However the calls
  of \<open>Start\<close> and \<open>Stop\<close>, the accepting goroutines and those that serve connections interleave, the pool
  has no connection twice, at most \<open>MaxClients\<close> of them, and consists of the connections that are
  served or about to be; a connection that was accepted and is not closed is in the hands of
  a goroutine that will close it; and while the server is stopped all connections of the pool are closed.
\<close>

theorem server_pool_invariant:
  assumes "NewServer conf H = (Ok (), ms)" "server_run (fresh_world ms) es w"
  shows "distinct (ms_tcpClients (srv w)) \<and> set (ms_tcpClients (srv w)) = pooled w
    \<and> length (ms_tcpClients (srv w)) \<le> unat (svc_MaxClients (ms_conf (srv w)))
    \<and> (\<forall>c\<in>seen_conns w. c \<in> closed_conns w \<or> servants w c \<noteq> None
         \<or> (\<exists>g a. acceptors w g = Some a \<and> a \<in> {Accepted c, Spawning c, Rejecting c}))
    \<and> (\<not> ms_started (srv w) \<longrightarrow> set (ms_tcpClients (srv w)) \<subseteq> closed_conns w)"
proof -
  have ok: "world_ok w"
    using run_world_ok [OF assms(2) new_world_ok [OF assms(1)]] .
  have "\<exists>g a. acceptors w g = Some a \<and> a \<in> {Accepted c, Spawning c, Rejecting c}" if "holder w g = Some c" for g c
    using that by (auto simp: holder_def bind_eq_Some_conv simp del: holder_upd(2) elim!: holds.elims)
  with ok show ?thesis
    by (auto simp: world_ok_def pool_ok_def none_lost_def listener_ok_def Let_def)
qed

text \<open>
  C7: a stopped server comes to rest.  From any state it can reach while stopped, no run of its
  goroutines is longer than the work they have left, no connection enters the pool, and a run that
  cannot go on has left no goroutine, an empty pool and every connection closed, unless it panicked.
\<close>

theorem stopped_server_rests:
  assumes "NewServer conf H = (Ok (), ms)" "server_run (fresh_world ms) es w" "\<not> ms_started (srv w)"
    and "server_run w es' w'" "\<forall>e\<in>set es'. e \<noteq> StopEv \<and> (\<forall>r g. e \<noteq> StartEv r g)"
  shows "length es' \<le> work w \<and> set (ms_tcpClients (srv w')) \<subseteq> set (ms_tcpClients (srv w))
    \<and> ((\<nexists>e w2. server_step w' e w2 \<and> e \<noteq> StopEv \<and> (\<forall>r g. e \<noteq> StartEv r g)) \<and> \<not> panicked w' \<longrightarrow>
        acceptors w' = Map.empty \<and> servants w' = Map.empty \<and> ms_tcpClients (srv w') = []
        \<and> seen_conns w' \<subseteq> closed_conns w')"
proof -
  have "length es' \<le> work w - work w' \<and> work w' \<le> work w \<and> world_ok w' \<and> \<not> ms_started (srv w')
      \<and> set (ms_tcpClients (srv w')) \<subseteq> set (ms_tcpClients (srv w))"
    if "server_run w es' w'" "world_ok w" "\<not> ms_started (srv w)"
      "\<forall>e\<in>set es'. e \<noteq> StopEv \<and> (\<forall>r g. e \<noteq> StartEv r g)" for w es' and w' :: "('a, 'b, 'c) world"
    using that
  proof (induction rule: server_run.induct)
    case (server_run_Cons w e w1 es w2)
    have e: "e \<noteq> StopEv" "\<And>r g. e \<noteq> StartEv r g"
      using server_run_Cons.prems(3) by auto
    note less = stopped_step_work [OF server_run_Cons.hyps(1) server_run_Cons.prems(1,2) e]
    have "length es \<le> work w1 - work w2 \<and> work w2 \<le> work w1 \<and> world_ok w2 \<and> \<not> ms_started (srv w2)
      \<and> set (ms_tcpClients (srv w2)) \<subseteq> set (ms_tcpClients (srv w1))"
      using server_run_Cons.IH [OF step_world_ok [OF server_run_Cons.hyps(1) server_run_Cons.prems(1)] less(2)]
        server_run_Cons.prems(3) by simp
    with less show ?case by auto
  qed simp
  from this [OF assms(4) run_world_ok [OF assms(2) new_world_ok [OF assms(1)]] assms(3,5)]
  have *: "length es' \<le> work w" "world_ok w'" "\<not> ms_started (srv w')"
    "set (ms_tcpClients (srv w')) \<subseteq> set (ms_tcpClients (srv w))" by auto
  have rest: "set (ms_tcpClients (srv w')) = {} \<and> seen_conns w' \<subseteq> closed_conns w'"
    if "acceptors w' = Map.empty \<and> servants w' = Map.empty"
    using *(2) that no_holder [of w'] by (auto simp: world_ok_def pool_ok_def none_lost_def pooled_def)
  show ?thesis
  proof (intro conjI impI; (elim conjE)?)
    assume "\<nexists>e w2. server_step w' e w2 \<and> e \<noteq> StopEv \<and> (\<forall>r g. e \<noteq> StartEv r g)" "\<not> panicked w'"
    with rest_or_step [OF *(2,3)] have q: "acceptors w' = Map.empty \<and> servants w' = Map.empty"
      by blast
    with rest [OF q] show "acceptors w' = Map.empty" "servants w' = Map.empty" "ms_tcpClients (srv w') = []"
      "seen_conns w' \<subseteq> closed_conns w'" by simp_all
  qed (use * in simp_all)
qed

text \<open>Without a failed \<open>Start\<close> the field is \<open>nil\<close> only before the first goroutine accepts.\<close>

lemma step_no_panic:
  assumes "server_step w e w'" "listener_ok w" "\<And>err g. e \<noteq> StartEv (Inl err) g"
    and "\<not> panicked w" "ms_tcpListener (srv w) = None \<longrightarrow> acceptors w = Map.empty"
  shows "\<not> panicked w' \<and> (ms_tcpListener (srv w') = None \<longrightarrow> acceptors w' = Map.empty)"
  using assms(1)
proof cases
  case (start l g ms')
  with assms(4,5) show ?thesis
    by (auto simp: Start_def split: if_splits)
next
  case (stop r l cs ms')
  from stop(4) show ?thesis
    by (cases rule: Stop_cases) (use stop(2) assms(4,5) in auto)
next
  case stop_panic
  then show ?thesis
    using assms(2) by (auto simp: Stop_def listener_ok_def Let_def split: if_splits)
next
  case (decide g c accepted ms')
  with assms(4,5) admit_cases [OF decide(5)] show ?thesis by (auto split: if_splits)
qed (use assms(3-5) in auto)

definition demo_server :: "(unit, unit, uint16 list, nat, nat) ModbusServer" where
  "demo_server = snd (NewServer demo_server_conf demo_handler)"

lemma demo_server_new: "NewServer demo_server_conf demo_handler = (Ok (), demo_server)"
  by (simp add: demo_server_def NewServer_scheme [of _ modbusTCP "''[::]:502''"] server_url_def demo_server_conf_def)

lemma demo_server_fields [simp]:
  "\<not> ms_started demo_server" "ms_tcpClients demo_server = []" "ms_tcpListener demo_server = None"
  "ms_transportType demo_server = modbusTCP" "svc_MaxClients (ms_conf demo_server) = 2"
  by (simp_all add: demo_server_def NewServer_scheme [of _ modbusTCP "''[::]:502''"] server_url_def demo_server_conf_def
      server_defaults_def)

text \<open>The witnesses run a connection against a limit of two, and stop the server under it.\<close>

lemma server_run_append: "server_run w es w1 \<Longrightarrow> server_run w1 es' w2 \<Longrightarrow> server_run w (es @ es') w2"
  by (induction rule: server_run.induct) (auto intro: server_run.intros)

lemma server_run_snoc: "server_run w es w1 \<Longrightarrow> server_step w1 e w2 \<Longrightarrow> server_run w (es @ [e]) w2"
  by (erule server_run_append) (auto intro: server_run.intros)

text \<open>The server after \<open>Start\<close>, with a connection in the hands of its acceptor.\<close>

definition demo_accepting :: "(unit, unit, uint16 list) world" where
  "demo_accepting = (fresh_world demo_server)
     \<lparr>srv := demo_server\<lparr>ms_tcpListener := Some 0, ms_started := True\<rparr>, acceptors := [0 \<mapsto> Accepted 7], bound := {0},
      listening := {0}, seen_conns := {7}\<rparr>"

lemma demo_accepting_run: "server_run (fresh_world demo_server) [StartEv (Ok 0) 0, LoadEv 0, AcceptEv 0 7] demo_accepting"
proof -
  let ?w0 = "fresh_world demo_server"
  let ?w1 = "?w0\<lparr>srv := demo_server\<lparr>ms_tcpListener := Some 0, ms_started := True\<rparr>, acceptors := [0 \<mapsto> AtLoop],
    bound := {0}, listening := {0}\<rparr>"
  let ?w2 = "?w1\<lparr>acceptors := [0 \<mapsto> Accepting 0]\<rparr>"
  have 1: "server_step ?w0 (StartEv (Ok 0) 0) ?w1"
    using server_step.start [of ?w0 0 0 "demo_server\<lparr>ms_tcpListener := Some 0, ms_started := True\<rparr>"]
    by (simp add: fresh_world_def Start_def)
  have 2: "server_step ?w1 (LoadEv 0) ?w2"
    using server_step.load [of ?w1 0 0] by (simp add: fresh_world_def)
  have 3: "server_step ?w2 (AcceptEv 0 7) demo_accepting"
    using server_step.accept [of ?w2 0 0 7] by (simp add: fresh_world_def demo_accepting_def)
  show ?thesis
    by (rule server_run_Cons [OF 1 server_run_Cons [OF 2 server_run_Cons [OF 3 server_run_Nil]]])
qed

text \<open>The same server when it serves the connection.\<close>

definition demo_serving :: "(unit, unit, uint16 list) world" where
  "demo_serving = demo_accepting
     \<lparr>srv := demo_server\<lparr>ms_tcpListener := Some 0, ms_started := True, ms_tcpClients := [7]\<rparr>, acceptors := [0 \<mapsto> AtLoop],
      servants := [7 \<mapsto> Serving]\<rparr>"

lemma demo_serving_run:
  "server_run (fresh_world demo_server) [StartEv (Ok 0) 0, LoadEv 0, AcceptEv 0 7, DecideEv 0, SpawnEv 0] demo_serving"
proof -
  let ?ms = "demo_server\<lparr>ms_tcpListener := Some 0, ms_started := True, ms_tcpClients := [7]\<rparr>"
  let ?w = "demo_accepting\<lparr>srv := ?ms, acceptors := [0 \<mapsto> Spawning 7]\<rparr>"
  have 1: "server_step demo_accepting (DecideEv 0) ?w"
    using server_step.decide [of demo_accepting 0 7 True ?ms]
    by (simp add: demo_accepting_def fresh_world_def admit_def)
  have 2: "server_step ?w (SpawnEv 0) demo_serving"
    using server_step.spawn [of ?w 0 7]
    by (simp add: demo_accepting_def demo_serving_def fresh_world_def)
  from server_run_snoc [OF server_run_snoc [OF demo_accepting_run 1] 2] show ?thesis by simp
qed

theorem server_pool_invariant_witness:
  "server_run (fresh_world demo_server) [StartEv (Ok 0) 0, LoadEv 0, AcceptEv 0 7, DecideEv 0, SpawnEv 0] demo_serving
   \<and> ms_tcpClients (srv demo_serving) = [7] \<and> pooled demo_serving = {7}
   \<and> length (ms_tcpClients (srv demo_serving)) \<le> 2"
  using demo_serving_run server_pool_invariant [OF demo_server_new demo_serving_run]
  by (simp add: demo_serving_def)

definition demo_stopped :: "(unit, unit, uint16 list) world" where
  "demo_stopped = demo_accepting\<lparr>srv := demo_server\<lparr>ms_tcpListener := Some 0\<rparr>, listening := {}\<rparr>"

lemma demo_stopped_run:
  "server_run (fresh_world demo_server) [StartEv (Ok 0) 0, LoadEv 0, AcceptEv 0 7, StopEv] demo_stopped"
proof -
  have "server_step demo_accepting StopEv demo_stopped"
    using server_step.stop [of demo_accepting "Ok ()" "Some 0" "[]" "demo_server\<lparr>ms_tcpListener := Some 0\<rparr>"]
    by (simp add: demo_accepting_def demo_stopped_def fresh_world_def Stop_def Let_def)
  from server_run_snoc [OF demo_accepting_run this] show ?thesis by simp
qed

theorem stopped_server_rests_witness:
  "server_run demo_stopped [] demo_stopped \<and> set (ms_tcpClients (srv demo_stopped)) = {}"
  using stopped_server_rests [OF demo_server_new demo_stopped_run _ server_run_Nil]
  by (auto intro: server_run_Nil simp: demo_stopped_def)

text \<open>
  C8: the only panic of a server comes from a failed \<open>Start\<close>, and there is one.  A run that panics
  contains a \<open>Start\<close> whose \<open>net.Listen\<close> failed; and after a stop, a failed restart leaves \<open>nil\<close> in the
  field of the listener, which a goroutine of the first start that was busy with a connection
  reads when it comes back to its loop.
\<close>

theorem failed_restart_panics:
  "(\<forall>conf H es w. NewServer conf H = (Ok (), ms) \<and> server_run (fresh_world ms) es w \<and> panicked w \<longrightarrow>
      (\<exists>err g. StartEv (Inl err) g \<in> set es))
   \<and> (\<exists>w. server_run (fresh_world demo_server)
        [StartEv (Ok 0) 0, LoadEv 0, AcceptEv 0 7, StopEv, StartEv (Err ErrNetClosed) 1, DecideEv 0, RejectEv 0, LoadEv 0] w
      \<and> panicked w)"
proof (intro conjI allI impI; (elim conjE)?)
  fix conf H es w
  assume new: "NewServer conf H = (Ok (), ms)" and run: "server_run (fresh_world ms) es w" and "panicked w"
  show "\<exists>err g. StartEv (Inl err) g \<in> set es"
  proof (rule ccontr)
    assume no: "\<not> ?thesis"
    have "\<not> panicked w" if "server_run w0 es w" "world_ok w0" "\<not> (\<exists>err g. StartEv (Inl err) g \<in> set es)" "\<not> panicked w0"
      "ms_tcpListener (srv w0) = None \<longrightarrow> acceptors w0 = Map.empty" for w0
      using that
    proof (induction rule: server_run.induct)
      case (server_run_Cons w e w1 es w2)
      then have "\<not> panicked w1 \<and> (ms_tcpListener (srv w1) = None \<longrightarrow> acceptors w1 = Map.empty)"
        by (intro step_no_panic [OF server_run_Cons.hyps(1)]) (auto simp: world_ok_def)
      with server_run_Cons step_world_ok [OF server_run_Cons.hyps(1)] show ?case by auto
    qed simp
    from this [OF run new_world_ok [OF new] no] \<open>panicked w\<close> show False
      by (simp add: fresh_world_def)
  qed
next
  let ?w0 = "demo_stopped\<lparr>srv := demo_server\<rparr>"
  let ?w1 = "?w0\<lparr>acceptors := [0 \<mapsto> Rejecting 7]\<rparr>"
  let ?w2 = "?w0\<lparr>acceptors := [0 \<mapsto> AtLoop], closed_conns := {7}\<rparr>"
  have s: "demo_server\<lparr>ms_tcpListener := Some 0, ms_tcpListener := None\<rparr> = demo_server"
    using demo_server_fields(3) by (cases demo_server) simp
  have 0: "server_step demo_stopped (StartEv (Err ErrNetClosed) 1) ?w0"
    using server_step.start_err [of demo_stopped ErrNetClosed 1] s
    by (simp add: demo_stopped_def demo_accepting_def fresh_world_def Start_def)
  have 1: "server_step ?w0 (DecideEv 0) ?w1"
    using server_step.decide [of ?w0 0 7 False demo_server]
    by (simp add: demo_stopped_def demo_accepting_def fresh_world_def admit_def)
  have 2: "server_step ?w1 (RejectEv 0) ?w2"
    using server_step.reject [of ?w1 0 7]
    by (simp add: demo_stopped_def demo_accepting_def fresh_world_def)
  have 3: "server_step ?w2 (LoadEv 0) (panic ?w2)"
    using server_step.load_panic [of ?w2 0]
    by (simp add: demo_stopped_def demo_accepting_def fresh_world_def)
  have "server_run demo_stopped [StartEv (Err ErrNetClosed) 1, DecideEv 0, RejectEv 0, LoadEv 0] (panic ?w2)"
    by (rule server_run_Cons [OF 0 server_run_Cons [OF 1 server_run_Cons [OF 2 server_run_Cons [OF 3 server_run_Nil]]]])
  from server_run_append [OF demo_stopped_run this]
  show "\<exists>w. server_run (fresh_world demo_server)
      [StartEv (Ok 0) 0, LoadEv 0, AcceptEv 0 7, StopEv, StartEv (Err ErrNetClosed) 1, DecideEv 0, RejectEv 0, LoadEv 0] w
    \<and> panicked w"
    by (intro exI [of _ "panic ?w2"]) simp
qed

theorem failed_restart_panics_witness:
  "\<exists>es w. server_run (fresh_world demo_server) es w \<and> panicked w \<and> (\<exists>err g. StartEv (Inl err) g \<in> set es)"
proof -
  obtain es w where w: "server_run (fresh_world demo_server) es w" "panicked w"
    using failed_restart_panics by blast
  moreover have "\<exists>err g. StartEv (Inl err) g \<in> set es"
    using conjunct1 [OF failed_restart_panics [of demo_server]] demo_server_new w by blast
  ultimately show ?thesis by blast
qed

end
