(* ===== verification/Serial_Windows.thy ===== *)
theory Serial_Windows
  imports Serial_Wrapper
begin

text \<open>
  internal/serial/serial_windows.go and ztypes_windows.go: the port over the Windows API, whose calls are
  parameters.  The laws of the system give the contract of a port, so that a request over it comes
  back, and say what opening and closing leave behind; a small system meets them.
\<close>

section \<open>Settings\<close>

text \<open>The constants and structures of ztypes_windows.go; \<open>Pad_cgo_0\<close> is the four bytes of flags.\<close>

definition c_MAXDWORD :: uint32 where "c_MAXDWORD = 0xffffffff"
definition c_ONESTOPBIT :: uint8 where "c_ONESTOPBIT = 0x0"
definition c_TWOSTOPBITS :: uint8 where "c_TWOSTOPBITS = 0x2"
definition c_EVENPARITY :: uint8 where "c_EVENPARITY = 0x2"
definition c_ODDPARITY :: uint8 where "c_ODDPARITY = 0x1"
definition c_NOPARITY :: uint8 where "c_NOPARITY = 0x0"

record c_COMMTIMEOUTS =
  ReadIntervalTimeout :: uint32
  ReadTotalTimeoutMultiplier :: uint32
  ReadTotalTimeoutConstant :: uint32
  WriteTotalTimeoutMultiplier :: uint32
  WriteTotalTimeoutConstant :: uint32

record c_DCB =
  DCBlength :: uint32
  BaudRate :: uint32
  Pad_cgo_0 :: "byte list"
  WReserved :: uint16
  XonLim :: uint16
  XoffLim :: uint16
  ByteSize :: uint8
  Parity :: uint8
  StopBits :: uint8
  XonChar :: "8 word"
  XoffChar :: "8 word"
  ErrorChar :: "8 word"
  EofChar :: "8 word"
  EvtChar :: "8 word"
  WReserved1 :: uint16

definition zeroTimeouts :: c_COMMTIMEOUTS where
  "zeroTimeouts = \<lparr>ReadIntervalTimeout = 0, ReadTotalTimeoutMultiplier = 0, ReadTotalTimeoutConstant = 0,
     WriteTotalTimeoutMultiplier = 0, WriteTotalTimeoutConstant = 0\<rparr>"

definition zeroDCB :: c_DCB where
  "zeroDCB = \<lparr>DCBlength = 0, BaudRate = 0, Pad_cgo_0 = replicate 4 0, WReserved = 0, XonLim = 0, XoffLim = 0, ByteSize = 0,
     Parity = 0, StopBits = 0, XonChar = 0, XoffChar = 0, ErrorChar = 0, EofChar = 0, EvtChar = 0, WReserved1 = 0\<rparr>"

definition toDWORD :: "int \<Rightarrow> uint32" where
  "toDWORD val = word_of_int val"

definition toBYTE :: "int \<Rightarrow> uint8" where
  "toBYTE val = word_of_int val"

section \<open>The system\<close>

type_synonym handle = uint64

definition InvalidHandle :: handle where
  "InvalidHandle = -1"

text \<open>
  The calls of the Windows API over the state \<open>'w\<close> of the system, with the clock.  \<open>CreateFile\<close> has the flags of the
  code.  \<open>ReadFile\<close> returns the bytes it stored, \<open>WriteFile\<close> their number.
\<close>

record 'w windows =
  win_CreateFile :: "string \<Rightarrow> 'w \<Rightarrow> (handle \<times> go_error option) \<times> 'w"
  win_CloseHandle :: "handle \<Rightarrow> 'w \<Rightarrow> go_error option \<times> 'w"
  win_ReadFile :: "handle \<Rightarrow> nat \<Rightarrow> 'w \<Rightarrow> byte list result \<times> 'w"
  win_WriteFile :: "handle \<Rightarrow> byte list \<Rightarrow> 'w \<Rightarrow> uint32 result \<times> 'w"
  win_GetCommState :: "handle \<Rightarrow> 'w \<Rightarrow> c_DCB result \<times> 'w"
  win_SetCommState :: "handle \<Rightarrow> c_DCB \<Rightarrow> 'w \<Rightarrow> go_error option \<times> 'w"
  win_GetCommTimeouts :: "handle \<Rightarrow> 'w \<Rightarrow> c_COMMTIMEOUTS result \<times> 'w"
  win_SetCommTimeouts :: "handle \<Rightarrow> c_COMMTIMEOUTS \<Rightarrow> 'w \<Rightarrow> go_error option \<times> 'w"
  win_Now :: "'w \<Rightarrow> int"
  win_Sleep :: "int \<Rightarrow> 'w \<Rightarrow> 'w"

section \<open>The port\<close>

record 'w win_port =
  wp_handle :: handle
  wp_oldDCB :: c_DCB
  wp_oldTimeouts :: c_COMMTIMEOUTS
  wp_sys :: 'w

definition win_New :: "'w win_port \<Rightarrow> 'w win_port" where
  "win_New p = \<lparr>wp_handle = InvalidHandle, wp_oldDCB = zeroDCB, wp_oldTimeouts = zeroTimeouts, wp_sys = wp_sys p\<rparr>"

definition newHandle :: "'w windows \<Rightarrow> serial_Config \<Rightarrow> 'w \<Rightarrow> (handle \<times> go_error option) \<times> 'w" where
  "newHandle W c s = win_CreateFile W (sc_Address c) s"

text \<open>The settings of a configuration, as far as they are built before the first call.\<close>

definition newDCB :: "serial_Config \<Rightarrow> c_DCB result" where
  "newDCB c =
     (let d1 = zeroDCB\<lparr>BaudRate := (if sc_BaudRate c = 0 then 19200 else toDWORD (sc_BaudRate c)),
            ByteSize := (if sc_DataBits c = 0 then 8 else toBYTE (sc_DataBits c))\<rparr>
      in if sc_StopBits c \<notin> {0, 1, 2} then Err (OtherError ''serial: unsupported stop bits'')
      else
        let d2 = d1\<lparr>StopBits := (if sc_StopBits c = 2 then c_TWOSTOPBITS else c_ONESTOPBIT)\<rparr> in
        if sc_Parity c \<notin> {'''', ''E'', ''O'', ''N''} then Err (OtherError ''serial: unsupported parity'')
        else
          let d3 = (if sc_Parity c = ''N'' then d2\<lparr>Parity := c_NOPARITY\<rparr>
                else d2\<lparr>Parity := (if sc_Parity c = ''O'' then c_ODDPARITY else c_EVENPARITY),
                  Pad_cgo_0 := (Pad_cgo_0 d2)[0 := or (Pad_cgo_0 d2 ! 0) 0x02]\<rparr>)
          in Ok (d3\<lparr>Pad_cgo_0 := (Pad_cgo_0 d3)[0 := or (Pad_cgo_0 d3 ! 0) 0x01]\<rparr>))"

definition setSerialConfig :: "'w windows \<Rightarrow> serial_Config \<Rightarrow> 'w win_port \<Rightarrow> go_error option \<times> 'w win_port" where
  "setSerialConfig W c p =
     (case newDCB c of
        Inl e \<Rightarrow> (Some e, p)
      | Inr dcb \<Rightarrow>
          (case win_GetCommState W (wp_handle p) (wp_sys p) of
             (Inl e, s) \<Rightarrow> (Some e, p\<lparr>wp_sys := s\<rparr>)
           | (Inr old, s) \<Rightarrow>
               let p1 = p\<lparr>wp_oldDCB := old, wp_sys := s\<rparr> in
               (case win_SetCommState W (wp_handle p1) dcb (wp_sys p1) of
                  (None, s1) \<Rightarrow> (None, p1\<lparr>wp_sys := s1\<rparr>)
                | (Some e, s1) \<Rightarrow> (Some e, p1\<lparr>wp_sys := snd (win_SetCommState W (wp_handle p1) (wp_oldDCB p1) s1)\<rparr>))))"

text \<open>Durations of go are truncated to milliseconds.\<close>

definition newTimeouts :: "serial_Config \<Rightarrow> c_COMMTIMEOUTS" where
  "newTimeouts c =
     (if 0 < sc_Timeout c then
        let timeout = toDWORD (sc_Timeout c sdiv 1000000) in
        zeroTimeouts\<lparr>ReadIntervalTimeout := c_MAXDWORD, ReadTotalTimeoutMultiplier := c_MAXDWORD,
          ReadTotalTimeoutConstant := timeout, WriteTotalTimeoutConstant := timeout\<rparr>
      else zeroTimeouts)"

definition setTimeouts :: "'w windows \<Rightarrow> serial_Config \<Rightarrow> 'w win_port \<Rightarrow> go_error option \<times> 'w win_port" where
  "setTimeouts W c p =
     (case win_GetCommTimeouts W (wp_handle p) (wp_sys p) of
        (Inl e, s) \<Rightarrow> (Some e, p\<lparr>wp_sys := s\<rparr>)
      | (Inr old, s) \<Rightarrow>
          let p1 = p\<lparr>wp_oldTimeouts := old, wp_sys := s\<rparr> in
          (case win_SetCommTimeouts W (wp_handle p1) (newTimeouts c) (wp_sys p1) of
             (None, s1) \<Rightarrow> (None, p1\<lparr>wp_sys := s1\<rparr>)
           | (Some e, s1) \<Rightarrow> (Some e, p1\<lparr>wp_sys := snd (win_SetCommTimeouts W (wp_handle p1) (wp_oldTimeouts p1) s1)\<rparr>)))"

text \<open>What is deferred in \<open>Open\<close>: an error closes the handle.\<close>

definition closeOnError :: "'w windows \<Rightarrow> go_error option \<times> 'w win_port \<Rightarrow> unit result \<times> 'w win_port" where
  "closeOnError W r =
     (case r of
        (None, p) \<Rightarrow> (Ok (), p)
      | (Some e, p) \<Rightarrow> (Err e, p\<lparr>wp_handle := InvalidHandle, wp_sys := snd (win_CloseHandle W (wp_handle p) (wp_sys p))\<rparr>))"

definition win_Open :: "'w windows \<Rightarrow> serial_Config \<Rightarrow> 'w win_port \<Rightarrow> unit result \<times> 'w win_port" where
  "win_Open W c p =
     (case newHandle W c (wp_sys p) of
        ((h, Some e), s) \<Rightarrow> (Err e, p\<lparr>wp_handle := h, wp_sys := s\<rparr>)
      | ((h, None), s) \<Rightarrow>
          closeOnError W (case setSerialConfig W c (p\<lparr>wp_handle := h, wp_sys := s\<rparr>) of
            (Some e, p1) \<Rightarrow> (Some e, p1)
          | (None, p1) \<Rightarrow> setTimeouts W c p1))"

text \<open>Of several errors of \<open>Close\<close> that of closing the handle is returned, then that of the time-outs.\<close>

definition win_Close :: "'w windows \<Rightarrow> 'w win_port \<Rightarrow> unit result \<times> 'w win_port" where
  "win_Close W p =
     (if wp_handle p = InvalidHandle then (Ok (), p)
      else
        let (err1, s1) = win_SetCommTimeouts W (wp_handle p) (wp_oldTimeouts p) (wp_sys p);
            (err2, s2) = win_SetCommState W (wp_handle p) (wp_oldDCB p) s1;
            (err, s3) = win_CloseHandle W (wp_handle p) s2;
            err = (if err = None then (if err1 = None then err2 else err1) else err)
        in ((case err of None \<Rightarrow> Ok () | Some e \<Rightarrow> Err e), p\<lparr>wp_handle := InvalidHandle, wp_sys := s3\<rparr>))"

definition win_Read :: "'w windows \<Rightarrow> nat \<Rightarrow> 'w win_port \<Rightarrow> (byte list \<times> go_error option) \<times> 'w win_port" where
  "win_Read W n p =
     (case win_ReadFile W (wp_handle p) n (wp_sys p) of
        (Inl e, s) \<Rightarrow> (([], Some e), p\<lparr>wp_sys := s\<rparr>)
      | (Inr bs, s) \<Rightarrow> (if bs = [] then ([], Some SerialErrTimeout) else (bs, None), p\<lparr>wp_sys := s\<rparr>))"

definition win_Write :: "'w windows \<Rightarrow> byte list \<Rightarrow> 'w win_port \<Rightarrow> (nat \<times> go_error option) \<times> 'w win_port" where
  "win_Write W bs p =
     (case win_WriteFile W (wp_handle p) bs (wp_sys p) of
        (Inl e, s) \<Rightarrow> ((0, Some e), p\<lparr>wp_sys := s\<rparr>)
      | (Inr n, s) \<Rightarrow> ((unat n, None), p\<lparr>wp_sys := s\<rparr>))"

definition winPort :: "'w windows \<Rightarrow> 'w win_port Port" where
  "winPort W = \<lparr>port_New = win_New, port_Open = win_Open W, port_Close = win_Close W,
     port_Read = win_Read W, port_Write = win_Write W, port_Now = (\<lambda>p. win_Now W (wp_sys p)),
     port_Sleep = (\<lambda>d p. p\<lparr>wp_sys := win_Sleep W d (wp_sys p)\<rparr>)\<rparr>"

section \<open>What the port relies on\<close>

text \<open>
  \<open>CreateFile\<close> returns a new handle or the invalid one, \<open>CloseHandle\<close> gives a handle back whatever it
  returns, the other calls leave the handles alone; the settings of a device are what was set last
  without an error; \<open>ReadFile\<close> takes time and its errors are the system's own.
\<close>

locale windows_system =
  fixes W :: "'w windows"
    and handles :: "'w \<Rightarrow> handle set"
    and settings :: "'w \<Rightarrow> handle \<Rightarrow> c_DCB \<times> c_COMMTIMEOUTS"
  assumes create_ok: "win_CreateFile W name s = ((h, None), s') \<Longrightarrow>
      h \<noteq> InvalidHandle \<and> h \<notin> handles s \<and> handles s' = insert h (handles s)"
    and create_err: "win_CreateFile W name s = ((h, Some e), s') \<Longrightarrow> h = InvalidHandle \<and> handles s' = handles s"
    and close_handle: "win_CloseHandle W h s = (ce, s') \<Longrightarrow> handles s' = handles s - {h} \<and> settings s' = settings s"
    and get_state: "win_GetCommState W h s = (gr, s') \<Longrightarrow>
      handles s' = handles s \<and> settings s' = settings s \<and> (\<forall>d. gr = Ok d \<longrightarrow> d = fst (settings s h))"
    and set_state: "win_SetCommState W h d s = (se, s') \<Longrightarrow> handles s' = handles s
      \<and> (se = None \<longrightarrow> settings s' = (settings s)(h := (d, snd (settings s h))))"
    and get_timeouts: "win_GetCommTimeouts W h s = (tr, s') \<Longrightarrow>
      handles s' = handles s \<and> settings s' = settings s \<and> (\<forall>t. tr = Ok t \<longrightarrow> t = snd (settings s h))"
    and set_timeouts: "win_SetCommTimeouts W h t s = (te, s') \<Longrightarrow> handles s' = handles s
      \<and> (te = None \<longrightarrow> settings s' = (settings s)(h := (fst (settings s h), t)))"
    and read_file: "win_ReadFile W h n s = (rr, s') \<Longrightarrow> win_Now W s < win_Now W s'
      \<and> (case rr of Inl e \<Rightarrow> e \<noteq> ErrRequestTimedOut | Inr bs \<Rightarrow> length bs \<le> n)"

sublocale windows_system \<subseteq> serial_port "winPort W" "\<lambda>_. True"
proof
  fix n bs err and p p' :: "'w win_port"
  assume "port_Read (winPort W) n p = ((bs, err), p')"
  moreover obtain r s where "win_ReadFile W (wp_handle p) n (wp_sys p) = (r, s)" by (rule prod.exhaust)
  ultimately show "True \<and> length bs \<le> n \<and> err \<noteq> Some ErrRequestTimedOut \<and> port_Now (winPort W) p \<le> port_Now (winPort W) p'
      \<and> (bs = [] \<and> (err = None \<or> err = Some SerialErrTimeout) \<longrightarrow> port_Now (winPort W) p < port_Now (winPort W) p')"
    using read_file [of "wp_handle p" n "wp_sys p" r s]
    by (auto simp: winPort_def win_Read_def split: sum.splits if_splits)
qed simp_all

section \<open>Opening and closing\<close>

context windows_system begin

lemma is_serial_port: "serial_port (winPort W) (\<lambda>_. True)"
  by (rule serial_port_axioms)

text \<open>Both setters: on success the settings are set and the old ones kept; the handles stay.\<close>

lemma setSerialConfig_steps:
  assumes "setSerialConfig W c p = (e, p1)"
  shows "handles (wp_sys p1) = handles (wp_sys p) \<and> wp_handle p1 = wp_handle p
    \<and> (e = None \<longrightarrow> (\<exists>dcb. newDCB c = Ok dcb \<and> wp_oldDCB p1 = fst (settings (wp_sys p) (wp_handle p))
        \<and> settings (wp_sys p1) = (settings (wp_sys p))(wp_handle p := (dcb, snd (settings (wp_sys p) (wp_handle p))))))"
proof (cases "newDCB c")
  case (Inl err)
  with assms show ?thesis by (auto simp: setSerialConfig_def)
next
  case (Inr dcb)
  obtain g s where g: "win_GetCommState W (wp_handle p) (wp_sys p) = (g, s)" by (rule prod.exhaust)
  obtain se s1 where se: "win_SetCommState W (wp_handle p) dcb s = (se, s1)" by (rule prod.exhaust)
  show ?thesis
  proof (cases g)
    case (Inl err)
    have "p1 = p\<lparr>wp_sys := s\<rparr>" "e = Some err"
      using assms Inr g Inl by (simp_all add: setSerialConfig_def)
    moreover have "handles s = handles (wp_sys p)"
      using get_state [OF g] by simp
    ultimately show ?thesis by simp
  next
    case old: (Inr old)
    obtain re s2 where re: "win_SetCommState W (wp_handle p) old s1 = (re, s2)" by (rule prod.exhaust)
    have g': "handles s = handles (wp_sys p)" "settings s = settings (wp_sys p)" "old = fst (settings (wp_sys p) (wp_handle p))"
      using get_state [OF g] old by simp_all
    have h: "handles s1 = handles s" "handles s2 = handles s1"
      using set_state [OF se] set_state [OF re] by simp_all
    show ?thesis
    proof (cases se)
      case None
      with assms Inr g old se have "e = None" "p1 = p\<lparr>wp_oldDCB := old, wp_sys := s1\<rparr>"
        by (simp_all add: setSerialConfig_def Let_def)
      with Inr None g' h(1) set_state [OF se] show ?thesis by simp
    next
      case (Some err)
      with assms Inr g old se re have "e = Some err" "p1 = p\<lparr>wp_oldDCB := old, wp_sys := s2\<rparr>"
        by (simp_all add: setSerialConfig_def Let_def)
      with g' h show ?thesis by simp
    qed
  qed
qed

lemma setTimeouts_steps:
  assumes "setTimeouts W c p = (e, p1)"
  shows "handles (wp_sys p1) = handles (wp_sys p) \<and> wp_handle p1 = wp_handle p \<and> wp_oldDCB p1 = wp_oldDCB p
    \<and> (e = None \<longrightarrow> wp_oldTimeouts p1 = snd (settings (wp_sys p) (wp_handle p))
        \<and> settings (wp_sys p1) = (settings (wp_sys p))(wp_handle p := (fst (settings (wp_sys p) (wp_handle p)), newTimeouts c)))"
proof -
  obtain g s where g: "win_GetCommTimeouts W (wp_handle p) (wp_sys p) = (g, s)" by (rule prod.exhaust)
  obtain se s1 where se: "win_SetCommTimeouts W (wp_handle p) (newTimeouts c) s = (se, s1)" by (rule prod.exhaust)
  show ?thesis
  proof (cases g)
    case (Inl err)
    have "p1 = p\<lparr>wp_sys := s\<rparr>" "e = Some err"
      using assms g Inl by (simp_all add: setTimeouts_def)
    moreover have "handles s = handles (wp_sys p)"
      using get_timeouts [OF g] by simp
    ultimately show ?thesis by simp
  next
    case old: (Inr old)
    obtain re s2 where re: "win_SetCommTimeouts W (wp_handle p) old s1 = (re, s2)" by (rule prod.exhaust)
    have g': "handles s = handles (wp_sys p)" "settings s = settings (wp_sys p)" "old = snd (settings (wp_sys p) (wp_handle p))"
      using get_timeouts [OF g] old by simp_all
    have h: "handles s1 = handles s" "handles s2 = handles s1"
      using set_timeouts [OF se] set_timeouts [OF re] by simp_all
    show ?thesis
    proof (cases se)
      case None
      with assms g old se have "e = None" "p1 = p\<lparr>wp_oldTimeouts := old, wp_sys := s1\<rparr>"
        by (simp_all add: setTimeouts_def Let_def)
      with None g' h(1) set_timeouts [OF se] show ?thesis by simp
    next
      case (Some err)
      with assms g old se re have "e = Some err" "p1 = p\<lparr>wp_oldTimeouts := old, wp_sys := s2\<rparr>"
        by (simp_all add: setTimeouts_def Let_def)
      with g' h show ?thesis by simp
    qed
  qed
qed

lemma win_Open_steps:
  assumes "win_Open W c p = (r, p1)"
  shows "case r of
      Inl _ \<Rightarrow> wp_handle p1 = InvalidHandle \<and> handles (wp_sys p1) = handles (wp_sys p)
    | Inr _ \<Rightarrow> wp_handle p1 \<noteq> InvalidHandle \<and> wp_handle p1 \<notin> handles (wp_sys p)
        \<and> handles (wp_sys p1) = insert (wp_handle p1) (handles (wp_sys p))
        \<and> (\<exists>dcb s. newDCB c = Ok dcb \<and> settings (wp_sys p1) (wp_handle p1) = (dcb, newTimeouts c)
            \<and> win_CreateFile W (sc_Address c) (wp_sys p) = ((wp_handle p1, None), s)
            \<and> (wp_oldDCB p1, wp_oldTimeouts p1) = settings s (wp_handle p1))"
proof -
  obtain h e s where h: "win_CreateFile W (sc_Address c) (wp_sys p) = ((h, e), s)" by (metis surj_pair)
  show ?thesis
  proof (cases e)
    case (Some err)
    with assms h create_err show ?thesis by (auto simp: win_Open_def newHandle_def)
  next
    case None
    note new = create_ok [OF h [unfolded None]]
    let ?p = "p\<lparr>wp_handle := h, wp_sys := s\<rparr>"
    obtain e1 p2 where c: "setSerialConfig W c ?p = (e1, p2)" by (rule prod.exhaust)
    note c' = setSerialConfig_steps [OF c, simplified]
    obtain e2 p3 where t: "setTimeouts W c p2 = (e2, p3)" by (rule prod.exhaust)
    note t' = setTimeouts_steps [OF t, simplified]
    obtain ce s2 where cl: "win_CloseHandle W h (wp_sys p2) = (ce, s2)" by (rule prod.exhaust)
    obtain ce' s3 where cl': "win_CloseHandle W h (wp_sys p3) = (ce', s3)" by (rule prod.exhaust)
    have o: "(r, p1) = closeOnError W (case e1 of Some e \<Rightarrow> (Some e, p2) | None \<Rightarrow> (e2, p3))"
      using assms h None c t by (simp add: win_Open_def newHandle_def split: option.splits)
    show ?thesis
    proof (cases e1)
      case (Some err)
      with o cl new c' close_handle [OF cl] show ?thesis by (auto simp: closeOnError_def)
    next
      case n1: None
      show ?thesis
      proof (cases e2)
        case (Some err)
        with o n1 cl' new c' t' close_handle [OF cl'] show ?thesis by (auto simp: closeOnError_def)
      next
        case n2: None
        with o n1 have "r = Ok ()" "p1 = p3" by (simp_all add: closeOnError_def)
        with n1 n2 new c' t' h None show ?thesis by (cases "settings s h") (auto simp: prod_eq_iff)
      qed
    qed
  qed
qed

lemma win_Close_steps:
  assumes "win_Close W p = (r, p1)"
  shows "wp_handle p1 = InvalidHandle \<and> (if wp_handle p = InvalidHandle then p1 = p \<and> r = Ok ()
    else handles (wp_sys p1) = handles (wp_sys p) - {wp_handle p}
      \<and> (r = Ok () \<longrightarrow> settings (wp_sys p1) = (settings (wp_sys p))(wp_handle p := (wp_oldDCB p, wp_oldTimeouts p))))"
proof (cases "wp_handle p = InvalidHandle")
  case True
  with assms show ?thesis by (simp add: win_Close_def)
next
  case False
  obtain e1 s1 where 1: "win_SetCommTimeouts W (wp_handle p) (wp_oldTimeouts p) (wp_sys p) = (e1, s1)" by (rule prod.exhaust)
  obtain e2 s2 where 2: "win_SetCommState W (wp_handle p) (wp_oldDCB p) s1 = (e2, s2)" by (rule prod.exhaust)
  obtain e3 s3 where 3: "win_CloseHandle W (wp_handle p) s2 = (e3, s3)" by (rule prod.exhaust)
  have hs: "handles s3 = handles (wp_sys p) - {wp_handle p}" "settings s3 = settings s2"
    using set_timeouts [OF 1, THEN conjunct1] set_state [OF 2, THEN conjunct1] close_handle [OF 3] by simp_all
  have p1: "p1 = p\<lparr>wp_handle := InvalidHandle, wp_sys := s3\<rparr>"
    using assms False 1 2 3 by (cases e1; cases e2; cases e3; simp add: win_Close_def Let_def)
  have "settings s3 = (settings (wp_sys p))(wp_handle p := (wp_oldDCB p, wp_oldTimeouts p))" if "r = Ok ()"
  proof -
    have "e1 = None" "e2 = None"
      using assms False 1 2 3 that by (cases e1; cases e2; cases e3; simp add: win_Close_def Let_def)+
    then have "settings s1 = (settings (wp_sys p))(wp_handle p := (fst (settings (wp_sys p) (wp_handle p)), wp_oldTimeouts p))"
      "settings s2 = (settings s1)(wp_handle p := (wp_oldDCB p, snd (settings s1 (wp_handle p))))"
      using set_timeouts [OF 1] set_state [OF 2] by blast+
    with hs(2) show ?thesis by simp
  qed
  with False hs(1) p1 show ?thesis by simp
qed

end

section \<open>A system\<close>

text \<open>A system with one device: its settings, the bytes waiting on it, the open handles and a clock.\<close>

record winsys =
  w_handles :: "handle list"
  w_settings :: "handle \<Rightarrow> c_DCB \<times> c_COMMTIMEOUTS"
  w_line :: "byte list"
  w_sent :: "byte list"
  w_clock :: int

definition freeHandle :: "handle list \<Rightarrow> handle option" where
  "freeHandle hs = find (\<lambda>h. h \<notin> set hs) [4, 8, 12, 16]"

definition winSystem :: "winsys windows" where
  "winSystem = \<lparr>win_CreateFile = (\<lambda>name s. case freeHandle (w_handles s) of
         None \<Rightarrow> ((InvalidHandle, Some (OtherError ''The system cannot open the file.'')), s)
       | Some h \<Rightarrow> ((h, None), s\<lparr>w_handles := h # w_handles s\<rparr>)),
     win_CloseHandle = (\<lambda>h s. (None, s\<lparr>w_handles := removeAll h (w_handles s)\<rparr>)),
     win_ReadFile = (\<lambda>h n s. (Ok (take n (w_line s)), s\<lparr>w_line := drop n (w_line s), w_clock := w_clock s + 1000\<rparr>)),
     win_WriteFile = (\<lambda>h bs s. (Ok (of_nat (length bs)), s\<lparr>w_sent := w_sent s @ bs, w_clock := w_clock s + 1000\<rparr>)),
     win_GetCommState = (\<lambda>h s. (Ok (fst (w_settings s h)), s)),
     win_SetCommState = (\<lambda>h d s. (None, s\<lparr>w_settings := (w_settings s)(h := (d, snd (w_settings s h)))\<rparr>)),
     win_GetCommTimeouts = (\<lambda>h s. (Ok (snd (w_settings s h)), s)),
     win_SetCommTimeouts = (\<lambda>h t s. (None, s\<lparr>w_settings := (w_settings s)(h := (fst (w_settings s h), t))\<rparr>)),
     win_Now = w_clock,
     win_Sleep = (\<lambda>d s. s\<lparr>w_clock := w_clock s + max 0 d\<rparr>)\<rparr>"

lemma freeHandle_Some: "freeHandle hs = Some h \<Longrightarrow> h \<noteq> InvalidHandle \<and> h \<notin> set hs"
  by (auto simp: freeHandle_def InvalidHandle_def split: if_splits)

interpretation wins: windows_system winSystem "\<lambda>s. set (w_handles s)" w_settings
  by unfold_locales (auto simp: winSystem_def dest: freeHandle_Some split: option.splits)

section \<open>Properties\<close>

text \<open>
  A request over a serial line comes back on Windows too: the contract of a serial port is all it needs.
\<close>

lemma windows_exchange_ends:
  assumes "windows_system W handles settings"
  shows "\<exists>r rt'. rtu_ExecuteRequest (spwLink (winPort W)) req rt = Some (r, rt')"
  using serial_port.rtu_ExecuteRequest_ends [OF windows_system.is_serial_port [OF assms] TrueI] by blast


definition demo_win_port :: "winsys win_port" where
  "demo_win_port = \<lparr>wp_handle = InvalidHandle, wp_oldDCB = zeroDCB, wp_oldTimeouts = zeroTimeouts,
     wp_sys = \<lparr>w_handles = [4], w_settings = (\<lambda>_. (zeroDCB\<lparr>BaudRate := 115200\<rparr>, zeroTimeouts)), w_line = [1, 4, 2, 0, 71],
       w_sent = [], w_clock = 0\<rparr>\<rparr>"

definition demo_win_config :: serial_Config where
  "demo_win_config = \<lparr>sc_Address = ''COM3'', sc_BaudRate = 9600, sc_DataBits = 0, sc_StopBits = 2, sc_Parity = ''N'',
     sc_Timeout = 10000000, sc_RS485 = noRS485\<rparr>"

lemma demo_win_open: "\<exists>p1 p2. win_Open winSystem demo_win_config demo_win_port = (Ok (), p1) \<and> wp_handle p1 = 8
    \<and> win_Close winSystem p1 = (Ok (), p2)"
  by (simp add: win_Open_def newHandle_def winSystem_def demo_win_port_def demo_win_config_def freeHandle_def setSerialConfig_def
      newDCB_def setTimeouts_def closeOnError_def win_Close_def InvalidHandle_def Let_def)


end
