(* ===== verification/Serial_Unix.thy ===== *)
theory Serial_Unix
  imports Serial_Posix
begin

text \<open>
  The platform layers of the POSIX port: serial_bsd.go, serial_darwin.go, serial_openbsd.go and the files
  termios_*.go, beside the ones of Linux in \<open>Serial_Posix\<close>.  \<open>newTermios\<close> is over the tables and constants of a
  platform here; the locale \<open>termios_layout\<close> is what all of them have in common, and says when the
  settings that a terminal reads are the ones the configuration asks for.
\<close>

section \<open>The settings of a terminal\<close>

text \<open>
  The fields of \<open>syscall.Termios\<close> that the code writes, of the width they have on the platform (the
  speeds are the \<open>int32\<close> of the same bits on OpenBSD).
\<close>

record 'w unixTermios =
  ut_Iflag :: 'w
  ut_Cflag :: 'w
  ut_Ispeed :: 'w
  ut_Ospeed :: 'w

text \<open>What \<open>newTermios\<close> takes from the files and from package \<open>syscall\<close> of a platform.\<close>

record 'w platform =
  pf_baudRates :: "int \<Rightarrow> 'w option"
  pf_charSizes :: "int \<Rightarrow> 'w option"
  pf_cfSetIspeed :: "'w \<Rightarrow> 'w unixTermios \<Rightarrow> 'w unixTermios"
  pf_cfSetOspeed :: "'w \<Rightarrow> 'w unixTermios \<Rightarrow> 'w unixTermios"
  pf_B19200 :: 'w
  pf_CS8 :: 'w
  pf_CSTOPB :: 'w
  pf_CREAD :: 'w
  pf_PARENB :: 'w
  pf_PARODD :: 'w
  pf_CLOCAL :: 'w
  pf_INPCK :: 'w

definition orCflag :: "'f::len word \<Rightarrow> 'f word unixTermios \<Rightarrow> 'f word unixTermios" where
  "orCflag f t = t\<lparr>ut_Cflag := or (ut_Cflag t) f\<rparr>"

definition newTermios_on :: "'f::len word platform \<Rightarrow> serial_Config \<Rightarrow> 'f word unixTermios result" where
  "newTermios_on P c =
     (let t0 = \<lparr>ut_Iflag = 0, ut_Cflag = 0, ut_Ispeed = 0, ut_Ospeed = 0\<rparr> in
      case (if sc_BaudRate c = 0 then Some (pf_B19200 P) else pf_baudRates P (sc_BaudRate c)) of
        None \<Rightarrow> Err (OtherError ''serial: unsupported baud rate'')
      | Some speed \<Rightarrow>
          let t1 = pf_cfSetOspeed P speed (pf_cfSetIspeed P speed (orCflag speed t0)) in
          case (if sc_DataBits c = 0 then Some (pf_CS8 P) else pf_charSizes P (sc_DataBits c)) of
            None \<Rightarrow> Err (OtherError ''serial: unsupported character size'')
          | Some size' \<Rightarrow>
              let t2 = orCflag size' t1 in
              if sc_StopBits c \<notin> {0, 1, 2} then Err (OtherError ''serial: unsupported stop bits'')
              else
                let t3 = (if sc_StopBits c = 2 then orCflag (pf_CSTOPB P) t2 else t2) in
                if sc_Parity c \<notin> {''N'', ''O'', '''', ''E''} then Err (OtherError ''serial: unsupported parity'')
                else
                  let t4 = (if sc_Parity c = ''O'' then orCflag (pf_PARODD P) t3 else t3);
                      t5 = (if sc_Parity c = ''N'' then t4
                            else (orCflag (pf_PARENB P) t4)\<lparr>ut_Iflag := or (ut_Iflag t4) (pf_INPCK P)\<rparr>)
                  in Ok (orCflag (or (pf_CREAD P) (pf_CLOCAL P)) t5))"

section \<open>System calls and sets of descriptors\<close>

text \<open>The requests of \<open>ioctl\<close> that get and set the attributes, with the number and the \<open>errno\<close> they return.\<close>

record ('w, 'o) ioctls =
  TIOCSETA :: "int \<Rightarrow> 'w unixTermios \<Rightarrow> 'o \<Rightarrow> (int \<times> go_error option) \<times> 'o"
  TIOCGETA :: "int \<Rightarrow> 'o \<Rightarrow> (int \<times> go_error option) \<times> 'w unixTermios"

definition setattr :: "('f::len word, 'o) ioctls \<Rightarrow> int \<Rightarrow> 'f word unixTermios \<Rightarrow> 'o \<Rightarrow> go_error option \<times> 'o" where
  "setattr K fd t s =
     (case TIOCSETA K fd t s of
        ((r, Some errno), s') \<Rightarrow> (Some errno, s')
      | ((r, None), s') \<Rightarrow> (if r \<noteq> 0 then Some (OtherError ''tcsetattr failed'') else None, s'))"

definition getattr :: "('f::len word, 'o) ioctls \<Rightarrow> int \<Rightarrow> 'o \<Rightarrow> 'f word unixTermios result" where
  "getattr K fd s =
     (case TIOCGETA K fd s of
        ((r, Some errno), t) \<Rightarrow> Err errno
      | ((r, None), t) \<Rightarrow> (if r \<noteq> 0 then Err (OtherError ''tcgetattr failed'') else Ok t))"

text \<open>\<open>FD_SETSIZE\<close> is 1024 on these platforms; a set is an array of words of 32 or 64 bits.\<close>

definition fdget_in :: "int \<Rightarrow> 'w::len word list \<Rightarrow> int \<times> int" where
  "fdget_in fd fds =
     (let width = 1024 sdiv int (length fds) in (fd sdiv width smod int (length fds), fd smod width))"

definition bit_in :: "int \<Rightarrow> 'w::len word" where
  "bit_in pos = (if 0 \<le> pos then push_bit (nat pos) 1 else 0)"

definition fdset_in :: "int \<Rightarrow> 'w::len word list \<Rightarrow> 'w word list" where
  "fdset_in fd fds = (case fdget_in fd fds of (idx, pos) \<Rightarrow> fds[nat idx := bit_in pos])"

definition fdisset_in :: "int \<Rightarrow> 'w::len word list \<Rightarrow> bool" where
  "fdisset_in fd fds = (case fdget_in fd fds of (idx, pos) \<Rightarrow> and (fds ! nat idx) (bit_in pos) \<noteq> 0)"

section \<open>Linux\<close>

definition ispeed_to :: "'f::len word \<Rightarrow> 'f word unixTermios \<Rightarrow> 'f word unixTermios" where
  "ispeed_to speed t = t\<lparr>ut_Ispeed := speed\<rparr>"

definition ospeed_to :: "'f::len word \<Rightarrow> 'f word unixTermios \<Rightarrow> 'f word unixTermios" where
  "ospeed_to speed t = t\<lparr>ut_Ospeed := speed\<rparr>"

definition linux :: "32 word platform" where
  "linux = \<lparr>pf_baudRates = baudRates, pf_charSizes = charSizes, pf_cfSetIspeed = ispeed_to, pf_cfSetOspeed = ospeed_to,
     pf_B19200 = B19200, pf_CS8 = CS8, pf_CSTOPB = CSTOPB, pf_CREAD = CREAD, pf_PARENB = PARENB, pf_PARODD = PARODD,
     pf_CLOCAL = CLOCAL, pf_INPCK = INPCK\<rparr>"

text \<open>On MIPS (termios_mipsx.go) the structure has no speeds; its flags are those of Linux.\<close>

definition mips_cfSetIspeed :: "uint32 \<Rightarrow> 32 word unixTermios \<Rightarrow> 32 word unixTermios" where
  "mips_cfSetIspeed speed t = t"

definition mips_cfSetOspeed :: "uint32 \<Rightarrow> 32 word unixTermios \<Rightarrow> 32 word unixTermios" where
  "mips_cfSetOspeed speed t = t"

definition linux_mips :: "32 word platform" where
  "linux_mips = linux\<lparr>pf_cfSetIspeed := mips_cfSetIspeed, pf_cfSetOspeed := mips_cfSetOspeed\<rparr>"

section \<open>FreeBSD and NetBSD\<close>

text \<open>In package \<open>syscall\<close> of the systems below \<open>B\<close>n is the number n, and the flags are those of 4.4BSD.\<close>

definition bsd_baudRates :: "int \<Rightarrow> uint32 option" where
  "bsd_baudRates = map_of [
     (50, 50), (75, 75), (110, 110), (134, 134), (150, 150), (200, 200), (300, 300), (600, 600), (1200, 1200), (1800, 1800),
     (2400, 2400), (4800, 4800), (9600, 9600), (19200, 19200), (38400, 38400), (57600, 57600), (115200, 115200),
     (230400, 230400), (460800, 460800)]"

definition bsd_charSizes :: "int \<Rightarrow> uint32 option" where
  "bsd_charSizes = map_of [(5, 0x0), (6, 0x100), (7, 0x200), (8, 0x300)]"

definition bsd_cfSetIspeed :: "uint32 \<Rightarrow> 32 word unixTermios \<Rightarrow> 32 word unixTermios" where
  "bsd_cfSetIspeed speed t = t\<lparr>ut_Ispeed := speed\<rparr>"

definition bsd_cfSetOspeed :: "uint32 \<Rightarrow> 32 word unixTermios \<Rightarrow> 32 word unixTermios" where
  "bsd_cfSetOspeed speed t = t\<lparr>ut_Ospeed := speed\<rparr>"

definition bsd :: "32 word platform" where
  "bsd = \<lparr>pf_baudRates = bsd_baudRates, pf_charSizes = bsd_charSizes, pf_cfSetIspeed = bsd_cfSetIspeed,
     pf_cfSetOspeed = bsd_cfSetOspeed, pf_B19200 = 19200, pf_CS8 = 0x300, pf_CSTOPB = 0x400, pf_CREAD = 0x800,
     pf_PARENB = 0x1000, pf_PARODD = 0x2000, pf_CLOCAL = 0x8000, pf_INPCK = 0x10\<rparr>"

definition bsd_tcsetattr :: "(32 word, 'o) ioctls \<Rightarrow> int \<Rightarrow> 32 word unixTermios \<Rightarrow> 'o \<Rightarrow> go_error option \<times> 'o" where
  "bsd_tcsetattr = setattr"

definition bsd_tcgetattr :: "(32 word, 'o) ioctls \<Rightarrow> int \<Rightarrow> 'o \<Rightarrow> 32 word unixTermios result" where
  "bsd_tcgetattr = getattr"

text \<open>\<open>X__fds_bits\<close> is an array of 16 words of 64 bits (FreeBSD).\<close>

definition bsd_fdget :: "int \<Rightarrow> 64 word list \<Rightarrow> int \<times> int" where "bsd_fdget = fdget_in"
definition bsd_fdset :: "int \<Rightarrow> 64 word list \<Rightarrow> 64 word list" where "bsd_fdset = fdset_in"
definition bsd_fdisset :: "int \<Rightarrow> 64 word list \<Rightarrow> bool" where "bsd_fdisset = fdisset_in"

section \<open>Darwin\<close>

definition darwin_baudRates :: "int \<Rightarrow> uint64 option" where
  "darwin_baudRates = map_of [
     (50, 50), (75, 75), (110, 110), (134, 134), (150, 150), (200, 200), (300, 300), (600, 600), (1200, 1200), (1800, 1800),
     (2400, 2400), (4800, 4800), (9600, 9600), (19200, 19200), (38400, 38400), (57600, 57600), (115200, 115200),
     (230400, 230400)]"

definition darwin_charSizes :: "int \<Rightarrow> uint64 option" where
  "darwin_charSizes = map_of [(5, 0x0), (6, 0x100), (7, 0x200), (8, 0x300)]"

definition darwin_cfSetIspeed :: "uint64 \<Rightarrow> 64 word unixTermios \<Rightarrow> 64 word unixTermios" where
  "darwin_cfSetIspeed speed t = t\<lparr>ut_Ispeed := speed\<rparr>"

definition darwin_cfSetOspeed :: "uint64 \<Rightarrow> 64 word unixTermios \<Rightarrow> 64 word unixTermios" where
  "darwin_cfSetOspeed speed t = t\<lparr>ut_Ospeed := speed\<rparr>"

definition darwin :: "64 word platform" where
  "darwin = \<lparr>pf_baudRates = darwin_baudRates, pf_charSizes = darwin_charSizes, pf_cfSetIspeed = darwin_cfSetIspeed,
     pf_cfSetOspeed = darwin_cfSetOspeed, pf_B19200 = 19200, pf_CS8 = 0x300, pf_CSTOPB = 0x400, pf_CREAD = 0x800,
     pf_PARENB = 0x1000, pf_PARODD = 0x2000, pf_CLOCAL = 0x8000, pf_INPCK = 0x10\<rparr>"

definition darwin_tcsetattr :: "(64 word, 'o) ioctls \<Rightarrow> int \<Rightarrow> 64 word unixTermios \<Rightarrow> 'o \<Rightarrow> go_error option \<times> 'o" where
  "darwin_tcsetattr = setattr"

definition darwin_tcgetattr :: "(64 word, 'o) ioctls \<Rightarrow> int \<Rightarrow> 'o \<Rightarrow> 64 word unixTermios result" where
  "darwin_tcgetattr = getattr"

text \<open>\<open>Bits\<close> is an array of 32 words of 32 bits.\<close>

definition darwin_fdget :: "int \<Rightarrow> 32 word list \<Rightarrow> int \<times> int" where "darwin_fdget = fdget_in"
definition darwin_fdset :: "int \<Rightarrow> 32 word list \<Rightarrow> 32 word list" where "darwin_fdset = fdset_in"
definition darwin_fdisset :: "int \<Rightarrow> 32 word list \<Rightarrow> bool" where "darwin_fdisset = fdisset_in"

section \<open>OpenBSD\<close>

definition openbsd_baudRates :: "int \<Rightarrow> uint32 option" where
  "openbsd_baudRates = map_of [
     (50, 50), (75, 75), (110, 110), (134, 134), (150, 150), (200, 200), (300, 300), (600, 600), (1200, 1200), (1800, 1800),
     (2400, 2400), (4800, 4800), (9600, 9600), (19200, 19200), (38400, 38400), (57600, 57600), (115200, 115200),
     (230400, 230400)]"

definition openbsd_charSizes :: "int \<Rightarrow> uint32 option" where
  "openbsd_charSizes = map_of [(5, 0x0), (6, 0x100), (7, 0x200), (8, 0x300)]"

definition openbsd_cfSetIspeed :: "uint32 \<Rightarrow> 32 word unixTermios \<Rightarrow> 32 word unixTermios" where
  "openbsd_cfSetIspeed speed t = t\<lparr>ut_Ispeed := speed\<rparr>"

definition openbsd_cfSetOspeed :: "uint32 \<Rightarrow> 32 word unixTermios \<Rightarrow> 32 word unixTermios" where
  "openbsd_cfSetOspeed speed t = t\<lparr>ut_Ospeed := speed\<rparr>"

definition openbsd :: "32 word platform" where
  "openbsd = \<lparr>pf_baudRates = openbsd_baudRates, pf_charSizes = openbsd_charSizes, pf_cfSetIspeed = openbsd_cfSetIspeed,
     pf_cfSetOspeed = openbsd_cfSetOspeed, pf_B19200 = 19200, pf_CS8 = 0x300, pf_CSTOPB = 0x400, pf_CREAD = 0x800,
     pf_PARENB = 0x1000, pf_PARODD = 0x2000, pf_CLOCAL = 0x8000, pf_INPCK = 0x10\<rparr>"

definition openbsd_tcsetattr :: "(32 word, 'o) ioctls \<Rightarrow> int \<Rightarrow> 32 word unixTermios \<Rightarrow> 'o \<Rightarrow> go_error option \<times> 'o" where
  "openbsd_tcsetattr = setattr"

definition openbsd_tcgetattr :: "(32 word, 'o) ioctls \<Rightarrow> int \<Rightarrow> 'o \<Rightarrow> 32 word unixTermios result" where
  "openbsd_tcgetattr = getattr"

text \<open>\<open>Bits\<close> is an array of 32 words of 32 bits.\<close>

definition openbsd_fdget :: "int \<Rightarrow> 32 word list \<Rightarrow> int \<times> int" where "openbsd_fdget = fdget_in"
definition openbsd_fdset :: "int \<Rightarrow> 32 word list \<Rightarrow> 32 word list" where "openbsd_fdset = fdset_in"
definition openbsd_fdisset :: "int \<Rightarrow> 32 word list \<Rightarrow> bool" where "openbsd_fdisset = fdisset_in"

section \<open>Reading the settings\<close>

text \<open>The character size, the stop bits and the parity, as a terminal takes them from its flags and as a configuration asks for them.\<close>

definition read_format :: "'f::len word platform \<Rightarrow> 'f word unixTermios \<Rightarrow> int option \<times> int \<times> string" where
  "read_format P t =
     (find (\<lambda>d. pf_charSizes P d = Some (and (ut_Cflag t) (pf_CS8 P))) [5, 6, 7, 8],
      if and (ut_Cflag t) (pf_CSTOPB P) = 0 then 1 else 2,
      if and (ut_Cflag t) (pf_PARENB P) = 0 then ''N'' else if and (ut_Cflag t) (pf_PARODD P) = 0 then ''E'' else ''O'')"

definition data_bits :: "serial_Config \<Rightarrow> int" where
  "data_bits c = (if sc_DataBits c = 0 then 8 else sc_DataBits c)"

definition format_of :: "serial_Config \<Rightarrow> int option \<times> int \<times> string" where
  "format_of c = (Some (data_bits c), if sc_StopBits c = 2 then 2 else 1, if sc_Parity c = '''' then ''E'' else sc_Parity c)"

definition accepted :: "'f::len word platform \<Rightarrow> serial_Config \<Rightarrow> bool" where
  "accepted P c \<longleftrightarrow> (sc_BaudRate c = 0 \<or> pf_baudRates P (sc_BaudRate c) \<noteq> None) \<and> 5 \<le> data_bits c \<and> data_bits c \<le> 8
     \<and> sc_StopBits c \<in> {0, 1, 2} \<and> sc_Parity c \<in> {''N'', ''O'', '''', ''E''}"

lemma and_exp: "and w (2 ^ k) = (if bit w k then 2 ^ k else 0 :: 'f::len word)"
  by (rule bit_word_eqI) (auto simp: bit_simps)

text \<open>What the flags of all platforms have in common: each setting has its own bits.\<close>

locale termios_layout =
  fixes P :: "'f::len word platform" and size_bit stop_bit enable_bit odd_bit :: nat
  assumes sizes: "pf_charSizes P = map_of [(5, 0), (6, 2 ^ size_bit), (7, 2 ^ Suc size_bit), (8, pf_CS8 P)]"
    and flags: "pf_CS8 P = or (2 ^ size_bit) (2 ^ Suc size_bit)" "pf_CSTOPB P = 2 ^ stop_bit" "pf_PARENB P = 2 ^ enable_bit"
      "pf_PARODD P = 2 ^ odd_bit"
    and apart: "distinct [size_bit, Suc size_bit, stop_bit, enable_bit, odd_bit]"
    and width: "Suc size_bit < LENGTH('f)" "stop_bit < LENGTH('f)" "enable_bit < LENGTH('f)" "odd_bit < LENGTH('f)"
    and modes: "\<not> bit (or (pf_CREAD P) (pf_CLOCAL P)) size_bit" "\<not> bit (or (pf_CREAD P) (pf_CLOCAL P)) (Suc size_bit)"
      "\<not> bit (or (pf_CREAD P) (pf_CLOCAL P)) stop_bit" "\<not> bit (or (pf_CREAD P) (pf_CLOCAL P)) enable_bit"
      "\<not> bit (or (pf_CREAD P) (pf_CLOCAL P)) odd_bit"
    and speeds: "ut_Cflag (pf_cfSetIspeed P s t) = ut_Cflag t" "ut_Cflag (pf_cfSetOspeed P s t) = ut_Cflag t"
      "ut_Iflag (pf_cfSetIspeed P s t) = ut_Iflag t" "ut_Iflag (pf_cfSetOspeed P s t) = ut_Iflag t"
begin

definition rate_flag :: "serial_Config \<Rightarrow> 'f word option" where
  "rate_flag c = (if sc_BaudRate c = 0 then Some (pf_B19200 P) else pf_baudRates P (sc_BaudRate c))"

definition size_flag :: "serial_Config \<Rightarrow> 'f word option" where
  "size_flag c = pf_charSizes P (data_bits c)"

lemma size_flag_eq: "size_flag c = (if sc_DataBits c = 0 then Some (pf_CS8 P) else pf_charSizes P (sc_DataBits c))"
  by (simp add: size_flag_def data_bits_def sizes)

lemma size_flag_None: "size_flag c = None \<longleftrightarrow> \<not> (5 \<le> data_bits c \<and> data_bits c \<le> 8)"
  by (auto simp: size_flag_def sizes)

lemma refused: "newTermios_on P c = Inl e \<Longrightarrow> \<not> accepted P c"
  unfolding newTermios_on_def size_flag_eq [symmetric] rate_flag_def [symmetric]
  using size_flag_None [of c]
  by (auto simp: accepted_def rate_flag_def Let_def split: option.splits if_splits)

text \<open>What the platform makes of a speed in a structure that is zero but for it.\<close>

definition speeds_of :: "'f word \<Rightarrow> 'f word unixTermios" where
  "speeds_of speed = pf_cfSetOspeed P speed (pf_cfSetIspeed P speed
     \<lparr>ut_Iflag = 0, ut_Cflag = speed, ut_Ispeed = 0, ut_Ospeed = 0\<rparr>)"

lemma taken:
  assumes "newTermios_on P c = Ok t"
  obtains speed size' where "rate_flag c = Some speed" "size_flag c = Some size'" "accepted P c"
    "ut_Cflag t = or (or (or (or (or speed size') (if sc_StopBits c = 2 then pf_CSTOPB P else 0))
        (if sc_Parity c = ''O'' then pf_PARODD P else 0)) (if sc_Parity c = ''N'' then 0 else pf_PARENB P))
      (or (pf_CREAD P) (pf_CLOCAL P))"
    "ut_Ispeed t = ut_Ispeed (speeds_of speed)" "ut_Ospeed t = ut_Ospeed (speeds_of speed)"
    "ut_Iflag t = (if sc_Parity c = ''N'' then 0 else pf_INPCK P)"
proof -
  obtain speed size' where f: "rate_flag c = Some speed" "size_flag c = Some size'"
    using assms unfolding newTermios_on_def size_flag_eq [symmetric] rate_flag_def [symmetric]
    by (auto simp: Let_def split: option.splits)
  have t: "sc_StopBits c \<in> {0, 1, 2}" "sc_Parity c \<in> {''N'', ''O'', '''', ''E''}"
    "ut_Cflag t = or (or (or (or (or speed size') (if sc_StopBits c = 2 then pf_CSTOPB P else 0))
        (if sc_Parity c = ''O'' then pf_PARODD P else 0)) (if sc_Parity c = ''N'' then 0 else pf_PARENB P))
      (or (pf_CREAD P) (pf_CLOCAL P))"
    and s: "ut_Ispeed t = ut_Ispeed (speeds_of speed)" "ut_Ospeed t = ut_Ospeed (speeds_of speed)"
      "ut_Iflag t = (if sc_Parity c = ''N'' then 0 else pf_INPCK P)"
    using assms unfolding newTermios_on_def size_flag_eq [symmetric] rate_flag_def [symmetric] f Let_def
    by (auto simp: orCflag_def speeds speeds_of_def split: if_splits)
  have "accepted P c"
    using f t(1,2) size_flag_None [of c] by (auto simp: accepted_def rate_flag_def split: if_splits)
  from that [OF f this t(3) s] show thesis .
qed

text \<open>The settings are those of the configuration exactly if the speed sets no bit of another one.\<close>

lemma settings_read:
  assumes "newTermios_on P c = Ok t" "rate_flag c = Some speed"
  shows "read_format P t = format_of c \<longleftrightarrow>
     (bit speed size_bit \<longrightarrow> data_bits c \<in> {6, 8}) \<and> (bit speed (Suc size_bit) \<longrightarrow> data_bits c \<in> {7, 8})
     \<and> (bit speed stop_bit \<longrightarrow> sc_StopBits c = 2) \<and> (bit speed enable_bit \<longrightarrow> sc_Parity c \<noteq> ''N'')
     \<and> (bit speed odd_bit \<longrightarrow> sc_Parity c \<in> {''N'', ''O''})"
proof -
  obtain speed2 size' where s2: "rate_flag c = Some speed2" and size': "size_flag c = Some size'" and ok: "accepted P c"
    and cf: "ut_Cflag t = or (or (or (or (or speed2 size') (if sc_StopBits c = 2 then pf_CSTOPB P else 0))
        (if sc_Parity c = ''O'' then pf_PARODD P else 0)) (if sc_Parity c = ''N'' then 0 else pf_PARENB P))
      (or (pf_CREAD P) (pf_CLOCAL P))"
    by (rule taken [OF assms(1)])
  have "speed2 = speed" using s2 assms(2) by simp
  note cflag = cf [unfolded this]
  have exp: "bit (2 ^ a :: 'f word) b \<longleftrightarrow> a = b" if "b < LENGTH('f)" for a b
    using that by (auto simp: bit_simps)
  have lt: "size_bit < LENGTH('f)" using width(1) by simp
  have ne: "size_bit \<noteq> stop_bit" "size_bit \<noteq> enable_bit" "size_bit \<noteq> odd_bit" "Suc size_bit \<noteq> stop_bit" "Suc size_bit \<noteq> enable_bit"
    "Suc size_bit \<noteq> odd_bit" "stop_bit \<noteq> enable_bit" "stop_bit \<noteq> odd_bit" "enable_bit \<noteq> odd_bit"
    using apart by simp_all
  note ne = ne ne [symmetric]
  have "data_bits c = 5 \<and> size' = 0 \<or> data_bits c = 6 \<and> size' = 2 ^ size_bit \<or> data_bits c = 7 \<and> size' = 2 ^ Suc size_bit
      \<or> data_bits c = 8 \<and> size' = or (2 ^ size_bit) (2 ^ Suc size_bit)"
    using size' by (auto simp: size_flag_def sizes flags(1) simp del: power_Suc split: if_splits)
  then have sz: "bit size' size_bit \<longleftrightarrow> data_bits c \<in> {6, 8}" "bit size' (Suc size_bit) \<longleftrightarrow> data_bits c \<in> {7, 8}"
    "\<not> bit size' stop_bit" "\<not> bit size' enable_bit" "\<not> bit size' odd_bit"
    by (elim disjE conjE; simp add: bit_or_iff exp width lt ne del: power_Suc)+
  note m = modes [unfolded bit_or_iff]
  have bits: "bit (ut_Cflag t) size_bit \<longleftrightarrow> bit speed size_bit \<or> data_bits c \<in> {6, 8}"
    "bit (ut_Cflag t) (Suc size_bit) \<longleftrightarrow> bit speed (Suc size_bit) \<or> data_bits c \<in> {7, 8}"
    "bit (ut_Cflag t) stop_bit \<longleftrightarrow> bit speed stop_bit \<or> sc_StopBits c = 2"
    "bit (ut_Cflag t) enable_bit \<longleftrightarrow> bit speed enable_bit \<or> sc_Parity c \<noteq> ''N''"
    "bit (ut_Cflag t) odd_bit \<longleftrightarrow> bit speed odd_bit \<or> sc_Parity c = ''O''"
    unfolding cflag using m by (simp_all add: bit_or_iff sz flags(2-4) exp width lt ne)
  have d: "data_bits c \<in> {5, 6, 7, 8}"
    using ok by (auto simp: accepted_def)
  have par: "sc_Parity c \<in> {''N'', ''O'', '''', ''E''}"
    using ok by (simp add: accepted_def)
  let ?a = "2 ^ size_bit :: 'f word" and ?b = "2 ^ Suc size_bit :: 'f word"
  have zero: "(2 :: 'f word) ^ n \<noteq> 0" if "n < LENGTH('f)" for n
    using exp [OF that, of n] by force
  have at: "bit ?a size_bit" "\<not> bit ?a (Suc size_bit)" "\<not> bit ?b size_bit" "bit ?b (Suc size_bit)"
    by (simp_all add: exp width lt del: power_Suc)
  have words: "?a \<noteq> 0" "?b \<noteq> 0" "?a \<noteq> ?b" "or ?a ?b \<noteq> 0" "or ?a ?b \<noteq> ?a" "or ?a ?b \<noteq> ?b"
    using at by (metis bit_or_iff bit_0_eq bot_apply bot_bool_def)+
  have "and (ut_Cflag t) (pf_CS8 P)
      = or (if bit (ut_Cflag t) size_bit then ?a else 0) (if bit (ut_Cflag t) (Suc size_bit) then ?b else 0)"
    unfolding flags bit.conj_disj_distrib and_exp ..
  then have found: "find (\<lambda>d. pf_charSizes P d = Some (and (ut_Cflag t) (pf_CS8 P))) [5, 6, 7, 8]
      = Some (if bit (ut_Cflag t) size_bit then if bit (ut_Cflag t) (Suc size_bit) then 8 else 6
              else if bit (ut_Cflag t) (Suc size_bit) then 7 else 5)"
    using words words [symmetric] by (simp add: sizes flags(1) del: power_Suc)
  have "read_format P t = (Some (if bit (ut_Cflag t) size_bit then if bit (ut_Cflag t) (Suc size_bit) then 8 else 6
              else if bit (ut_Cflag t) (Suc size_bit) then 7 else 5),
      if bit (ut_Cflag t) stop_bit then 2 else 1,
      if bit (ut_Cflag t) enable_bit then if bit (ut_Cflag t) odd_bit then ''O'' else ''E'' else ''N'')"
    unfolding read_format_def found by (simp add: flags(2-4) and_exp zero width width [folded not_le])
  moreover have "(if bit (ut_Cflag t) size_bit then if bit (ut_Cflag t) (Suc size_bit) then 8 else 6
              else if bit (ut_Cflag t) (Suc size_bit) then 7 else 5) = data_bits c
      \<longleftrightarrow> (bit speed size_bit \<longrightarrow> data_bits c \<in> {6, 8}) \<and> (bit speed (Suc size_bit) \<longrightarrow> data_bits c \<in> {7, 8})"
    unfolding bits using d by (elim insertE emptyE) simp_all
  moreover have "(if bit (ut_Cflag t) stop_bit then 2 else 1) = (if sc_StopBits c = 2 then 2 else 1 :: int)
      \<longleftrightarrow> (bit speed stop_bit \<longrightarrow> sc_StopBits c = 2)"
    unfolding bits by simp
  moreover have "(if bit (ut_Cflag t) enable_bit then if bit (ut_Cflag t) odd_bit then ''O'' else ''E'' else ''N'')
        = (if sc_Parity c = '''' then ''E'' else sc_Parity c)
      \<longleftrightarrow> (bit speed enable_bit \<longrightarrow> sc_Parity c \<noteq> ''N'') \<and> (bit speed odd_bit \<longrightarrow> sc_Parity c \<in> {''N'', ''O''})"
    unfolding bits using par by (elim insertE emptyE) simp_all
  ultimately show ?thesis by (simp only: format_of_def prod.inject option.inject conj_assoc)
qed

end

text \<open>A speed that is or'ed into the flags of 4.4BSD as the number it is harms no setting of the configuration.\<close>

definition unharmed :: "serial_Config \<Rightarrow> bool" where
  "unharmed c =
     (let rate = (if sc_BaudRate c = 0 then 19200 else sc_BaudRate c) in
      (bit rate 8 \<longrightarrow> data_bits c \<in> {6, 8}) \<and> (bit rate 9 \<longrightarrow> data_bits c \<in> {7, 8})
      \<and> (bit rate 10 \<longrightarrow> sc_StopBits c = 2) \<and> (bit rate 12 \<longrightarrow> sc_Parity c \<noteq> ''N'')
      \<and> (bit rate 13 \<longrightarrow> sc_Parity c \<in> {''N'', ''O''}))"

text \<open>
  A platform settles a configuration: it is refused, or the line has its rate, the receiver is on, input parity
  is checked if there is parity, and the format is the one asked for if the configuration is \<open>fine\<close>.
\<close>

definition rate_of :: "serial_Config \<Rightarrow> int" where
  "rate_of c = (if sc_BaudRate c = 0 then 19200 else sc_BaudRate c)"

definition settles ::
  "'f::len word platform \<Rightarrow> (int \<Rightarrow> 'f word unixTermios \<Rightarrow> bool) \<Rightarrow> (serial_Config \<Rightarrow> bool) \<Rightarrow> serial_Config \<Rightarrow> bool" where
  "settles P has_rate fine c \<longleftrightarrow>
     (case newTermios_on P c of
        Inl _ \<Rightarrow> \<not> accepted P c
      | Inr t \<Rightarrow> accepted P c \<and> has_rate (rate_of c) t
          \<and> and (ut_Cflag t) (or (pf_CREAD P) (pf_CLOCAL P)) = or (pf_CREAD P) (pf_CLOCAL P)
          \<and> ut_Iflag t = (if sc_Parity c = ''N'' then 0 else pf_INPCK P)
          \<and> (read_format P t = format_of c \<longleftrightarrow> fine c))"

text \<open>
  The rate of a line: on Linux a code in both speeds and in the bits of \<open>CBAUD\<close> of the flags, on MIPS in these
  bits only, elsewhere the number in both speeds.
\<close>

definition linux_rate :: "int \<Rightarrow> 32 word unixTermios \<Rightarrow> bool" where
  "linux_rate rate t \<longleftrightarrow> baudRates rate = Some (ut_Ispeed t) \<and> ut_Ospeed t = ut_Ispeed t \<and> and (ut_Cflag t) 0x100f = ut_Ispeed t"

definition mips_rate :: "int \<Rightarrow> 32 word unixTermios \<Rightarrow> bool" where
  "mips_rate rate t \<longleftrightarrow> baudRates rate = Some (and (ut_Cflag t) 0x100f)"

definition bsd_rate :: "int \<Rightarrow> 'f::len word unixTermios \<Rightarrow> bool" where
  "bsd_rate rate t \<longleftrightarrow> ut_Ispeed t = word_of_int rate \<and> ut_Ospeed t = word_of_int rate"

context termios_layout begin

lemma settles_if:
  assumes "\<And>speed. rate_flag c = Some speed \<Longrightarrow> fine c \<longleftrightarrow>
     (bit speed size_bit \<longrightarrow> data_bits c \<in> {6, 8}) \<and> (bit speed (Suc size_bit) \<longrightarrow> data_bits c \<in> {7, 8})
     \<and> (bit speed stop_bit \<longrightarrow> sc_StopBits c = 2) \<and> (bit speed enable_bit \<longrightarrow> sc_Parity c \<noteq> ''N'')
     \<and> (bit speed odd_bit \<longrightarrow> sc_Parity c \<in> {''N'', ''O''})"
    and "\<And>speed t. newTermios_on P c = Ok t \<Longrightarrow> rate_flag c = Some speed \<Longrightarrow> ut_Ispeed t = ut_Ispeed (speeds_of speed) \<Longrightarrow>
      ut_Ospeed t = ut_Ospeed (speeds_of speed) \<Longrightarrow> has_rate (rate_of c) t"
  shows "settles P has_rate fine c"
proof (cases "newTermios_on P c")
  case (Inl e)
  with refused [OF Inl] show ?thesis by (simp add: settles_def)
next
  case (Inr t)
  obtain speed size' where s: "rate_flag c = Some speed" "accepted P c"
    "ut_Ispeed t = ut_Ispeed (speeds_of speed)" "ut_Ospeed t = ut_Ospeed (speeds_of speed)"
    "ut_Iflag t = (if sc_Parity c = ''N'' then 0 else pf_INPCK P)"
    "ut_Cflag t = or (or (or (or (or speed size') (if sc_StopBits c = 2 then pf_CSTOPB P else 0))
        (if sc_Parity c = ''O'' then pf_PARODD P else 0)) (if sc_Parity c = ''N'' then 0 else pf_PARENB P))
      (or (pf_CREAD P) (pf_CLOCAL P))"
    by (rule taken [OF Inr])
  have absorb: "and (or x m) m = m" for x m :: "'f word"
    by (rule bit_word_eqI) (auto simp: bit_simps)
  have "and (ut_Cflag t) (or (pf_CREAD P) (pf_CLOCAL P)) = or (pf_CREAD P) (pf_CLOCAL P)"
    unfolding s(6) by (rule absorb)
  with settings_read [OF Inr s(1)] assms(1) [OF s(1)] assms(2) [OF Inr s(1,3,4)] s(2,5) Inr show ?thesis
    by (simp add: settles_def)
qed

end

interpretation linux: termios_layout linux 4 6 8 9
  by unfold_locales (auto simp: linux_def charSizes_def ispeed_to_def ospeed_to_def)

interpretation mips: termios_layout linux_mips 4 6 8 9
  by unfold_locales (auto simp: linux_mips_def linux_def charSizes_def mips_cfSetIspeed_def mips_cfSetOspeed_def)

interpretation bsd: termios_layout bsd 8 10 12 13
  by unfold_locales (auto simp: bsd_def bsd_charSizes_def bsd_cfSetIspeed_def bsd_cfSetOspeed_def)

interpretation darwin: termios_layout darwin 8 10 12 13
  by unfold_locales (auto simp: darwin_def darwin_charSizes_def darwin_cfSetIspeed_def darwin_cfSetOspeed_def)

interpretation openbsd: termios_layout openbsd 8 10 12 13
  by unfold_locales (auto simp: openbsd_def openbsd_charSizes_def openbsd_cfSetIspeed_def openbsd_cfSetOspeed_def)

section \<open>Sets of descriptors\<close>

lemma div_less_int: "0 < w \<Longrightarrow> d < n * w \<Longrightarrow> d div w < (n :: int)"
proof -
  assume w: "0 < w" "d < n * w"
  have "d div w * w \<le> d"
    using pos_mod_sign [OF w(1), of d] by (simp add: minus_mod_eq_div_mult [symmetric])
  with w(2) have "d div w * w < n * w" by simp
  with w(1) show ?thesis by simp
qed

lemma fdset_in_get:
  assumes "length fds * LENGTH('w::len) = 1024" "0 \<le> fd" "fd < 1024"
  shows "fdget_in fd (fds :: 'w word list) = (fd div int LENGTH('w), fd mod int LENGTH('w))"
proof -
  have len: "0 < int (length fds)" "1024 = int (length fds) * int LENGTH('w)"
    using assms(1) arg_cong [OF assms(1), of int] by (cases "length fds", simp_all)
  then have w: "1024 sdiv int (length fds) = int LENGTH('w)"
    using sdiv_nonneg [of 1024 "int (length fds)"] nonzero_mult_div_cancel_left [of "int (length fds)" "int LENGTH('w)"] by simp
  have "fd div int LENGTH('w) < int (length fds)"
    using assms(3) len(2) by (intro div_less_int) simp_all
  with assms(2) show ?thesis
    using sdiv_nonneg [of fd "int LENGTH('w)"] smod_nonneg [of "fd div int LENGTH('w)" "int (length fds)"]
      smod_nonneg [of fd "int LENGTH('w)"] len
    by (simp add: fdget_in_def Let_def w pos_imp_zdiv_nonneg_iff)
qed

lemma fd_set_finds:
  assumes "length fds * LENGTH('w::len) = 1024" "0 \<le> fd" "fd < 1024" "0 \<le> fd'" "fd' < 1024" "set fds \<subseteq> {0}"
  shows "fdisset_in fd' (fdset_in fd (fds :: 'w word list)) \<longleftrightarrow> fd' = fd"
proof -
  let ?w = "int LENGTH('w)"
  have fds: "fds ! k = 0" if "k < length fds" for k
    using assms(6) that nth_mem by blast
  have len: "1024 = int (length fds) * ?w" "length (fds[k := x]) = length fds" for k x
    using arg_cong [OF assms(1), of int] by simp_all
  have less: "nat (d div ?w) < length fds" if "0 \<le> d" "d < 1024" for d
    using that div_less_int [of "int LENGTH('w)" d "int (length fds)"] len(1) by (simp add: nat_less_iff pos_imp_zdiv_nonneg_iff)
  have pos: "0 \<le> d mod ?w" "d mod ?w < ?w" for d by simp_all
  have same: "and (bit_in (d mod ?w)) (bit_in (d' mod ?w) :: 'w word) \<noteq> 0 \<longleftrightarrow> d mod ?w = d' mod ?w" for d d'
  proof -
    have "(bit_in (e mod ?w) :: 'w word) = 2 ^ nat (e mod ?w)" for e
      by (simp add: bit_in_def push_bit_eq_mult)
    moreover have "(2 :: 'w word) ^ nat (d mod ?w) \<noteq> 0"
      using pos [of d] by (simp add: exp_eq_zero_iff nat_less_iff not_le nat_le_iff)
    ultimately show ?thesis
      using pos [of d] pos [of d'] by (auto simp: and_exp bit_simps eq_nat_nat_iff)
  qed
  have get: "fdget_in d ys = (d div ?w, d mod ?w)" if "length ys = length fds" "0 \<le> d" "d < 1024" for d and ys :: "'w word list"
    using fdset_in_get [of ys d] that assms(1) by simp
  have "fd' = fd \<longleftrightarrow> nat (fd' div ?w) = nat (fd div ?w) \<and> fd' mod ?w = fd mod ?w"
    using assms(2,4) by (metis div_mult_mod_eq eq_nat_nat_iff pos_imp_zdiv_nonneg_iff of_nat_0_less_iff len_gt_0)
  then show ?thesis
    using assms(2-5) less fds same [of fd fd']
    by (auto simp: fdisset_in_def fdset_in_def get len(2) nth_list_update)
qed

lemma platform_fd_sets:
  assumes "0 \<le> fd" "fd < 1024" "0 \<le> fd'" "fd' < 1024"
  shows "bsd_fdisset fd' (bsd_fdset fd (replicate 16 0)) \<longleftrightarrow> fd' = fd"
    "darwin_fdisset fd' (darwin_fdset fd (replicate 32 0)) \<longleftrightarrow> fd' = fd"
    "openbsd_fdisset fd' (openbsd_fdset fd (replicate 32 0)) \<longleftrightarrow> fd' = fd"
  unfolding bsd_fdisset_def bsd_fdset_def darwin_fdisset_def darwin_fdset_def openbsd_fdisset_def openbsd_fdset_def
  using assms by (simp_all add: fd_set_finds)

section \<open>The settings of Linux\<close>

text \<open>The model of \<open>Serial_Posix\<close> is the one of this theory on Linux; on MIPS only the speeds are missing.\<close>

definition unix_of :: "Termios \<Rightarrow> 32 word unixTermios" where
  "unix_of t = \<lparr>ut_Iflag = Iflag t, ut_Cflag = Cflag t, ut_Ispeed = Ispeed t, ut_Ospeed = Ospeed t\<rparr>"

lemma linux_is_posix: "newTermios_on linux c = map_sum id unix_of (newTermios c)"
  by (auto simp: newTermios_on_def newTermios_def linux_def Let_def unix_of_def orCflag_def addCflag_def ispeed_to_def ospeed_to_def
      cfSetIspeed_def cfSetOspeed_def split: option.splits)

lemma mips_is_linux:
  "newTermios_on linux_mips c = map_sum id (\<lambda>t. t\<lparr>ut_Ispeed := 0, ut_Ospeed := 0\<rparr>) (newTermios_on linux c)"
  by (auto simp: newTermios_on_def linux_mips_def linux_def Let_def orCflag_def ispeed_to_def ospeed_to_def
      mips_cfSetIspeed_def mips_cfSetOspeed_def split: option.splits)

lemma linux_has_rate:
  assumes "newTermios_on linux c = Ok t"
  shows "linux_rate (rate_of c) t"
proof -
  obtain t0 where t0: "newTermios c = Ok t0" "t = unix_of t0"
    using assms by (cases "newTermios c") (auto simp: linux_is_posix)
  have "config_ok c" "Ispeed t0 = the (if sc_BaudRate c = 0 then baudRates 19200 else baudRates (sc_BaudRate c))"
    "Ospeed t0 = Ispeed t0" "and (Cflag t0) 0x100f = Ispeed t0"
    using newTermios_encodes_config [of c] t0(1) by (auto simp: Let_def)
  then show ?thesis
    by (auto simp: t0(2) unix_of_def linux_rate_def rate_of_def config_ok_def baudRates_def split: if_splits)
qed

lemma mips_has_rate:
  assumes "newTermios_on linux_mips c = Ok t"
  shows "mips_rate (rate_of c) t"
proof -
  obtain t0 where "newTermios_on linux c = Ok t0" "t = t0\<lparr>ut_Ispeed := 0, ut_Ospeed := 0\<rparr>"
    using assms by (cases "newTermios_on linux c") (auto simp: mips_is_linux)
  with linux_has_rate [of c t0] show ?thesis by (simp add: linux_rate_def mips_rate_def)
qed

section \<open>Properties\<close>

text \<open>
  C33: the settings of the terminal on every POSIX system.  \<open>newTermios\<close> refuses exactly the configurations
  that are out of the tables; otherwise the line gets its rate in the way of the platform, the receiver is on
  and input parity is checked exactly if there is parity.  On Linux, MIPS included, the character size, the stop bits and the
  parity that a terminal reads from the flags are always those of the configuration.  On FreeBSD, NetBSD, Darwin and
  OpenBSD, where the speed is a plain number, or'ing it into the flags changes other settings:
  they are those of the configuration only if the number has no bit of another setting.  So 8
  data bits without parity and one stop bit (which are accepted, although the configuration asks for two stop bits without
  parity) are not what the terminal gets at 9600 bits per second, nor are 8 data bits with even parity.
\<close>

theorem terminal_settings:
  "settles linux linux_rate (\<lambda>_. True) c \<and> settles linux_mips mips_rate (\<lambda>_. True) c
   \<and> settles bsd bsd_rate unharmed c \<and> settles darwin bsd_rate unharmed c \<and> settles openbsd bsd_rate unharmed c
   \<and> newTermios_on linux c = map_sum id unix_of (newTermios c)
   \<and> filter (\<lambda>rate. \<not> unharmed (c\<lparr>sc_BaudRate := rate, sc_DataBits := 8, sc_StopBits := 1, sc_Parity := ''N''\<rparr>))
       [50, 75, 110, 134, 150, 200, 300, 600, 1200, 1800, 2400, 4800, 9600, 19200, 38400, 57600, 115200, 230400, 460800]
     = [1200, 1800, 4800, 9600, 38400, 230400]
   \<and> filter (\<lambda>rate. \<not> unharmed (c\<lparr>sc_BaudRate := rate, sc_DataBits := 8, sc_StopBits := 1, sc_Parity := ''E''\<rparr>))
       [50, 75, 110, 134, 150, 200, 300, 600, 1200, 1800, 2400, 4800, 9600, 19200, 38400, 57600, 115200, 230400, 460800]
     = [1200, 1800, 9600, 38400, 57600, 230400]"
proof -
  have bits: "\<not> bit speed n" if "baudRates b = Some speed" "n \<in> {4, 5, 6, 8, 9}" for b speed n
    using baudRates_bits [OF that(1), of n] that(2) by blast
  have B19200: "baudRates 19200 = Some B19200" by (simp add: baudRates_def)
  have "\<not> bit speed n" if "linux.rate_flag c = Some speed" "n \<in> {4, 5, 6, 8, 9}" for speed n
    using bits [OF _ that(2), of "if sc_BaudRate c = 0 then 19200 else sc_BaudRate c" speed] that(1) B19200
    unfolding linux.rate_flag_def
    by (simp add: linux_def split: if_splits)
  then have linux: "settles linux linux_rate (\<lambda>_. True) c"
    by (intro linux.settles_if linux_has_rate) simp_all
  have "\<not> bit speed n" if "mips.rate_flag c = Some speed" "n \<in> {4, 5, 6, 8, 9}" for speed n
    using bits [OF _ that(2), of "if sc_BaudRate c = 0 then 19200 else sc_BaudRate c" speed] that(1) B19200
    unfolding mips.rate_flag_def
    by (simp add: linux_mips_def linux_def split: if_splits)
  then have mips: "settles linux_mips mips_rate (\<lambda>_. True) c"
    by (intro mips.settles_if mips_has_rate) simp_all
  have "speed = word_of_int (rate_of c)" if "bsd.rate_flag c = Some speed" for speed
    using that unfolding bsd.rate_flag_def by (auto simp: bsd_def bsd_baudRates_def rate_of_def split: if_splits)
  moreover have "ut_Ispeed (bsd.speeds_of s) = s" "ut_Ospeed (bsd.speeds_of s) = s" for s
    unfolding bsd.speeds_of_def by (simp_all add: bsd_def bsd_cfSetIspeed_def bsd_cfSetOspeed_def)
  ultimately have bsd: "settles bsd bsd_rate unharmed c"
    by (intro bsd.settles_if) (simp_all add: unharmed_def rate_of_def bsd_rate_def Let_def bit_simps)
  have "speed = word_of_int (rate_of c)" if "darwin.rate_flag c = Some speed" for speed
    using that unfolding darwin.rate_flag_def by (auto simp: darwin_def darwin_baudRates_def rate_of_def split: if_splits)
  moreover have "ut_Ispeed (darwin.speeds_of s) = s" "ut_Ospeed (darwin.speeds_of s) = s" for s
    unfolding darwin.speeds_of_def by (simp_all add: darwin_def darwin_cfSetIspeed_def darwin_cfSetOspeed_def)
  ultimately have darwin: "settles darwin bsd_rate unharmed c"
    by (intro darwin.settles_if) (simp_all add: unharmed_def rate_of_def bsd_rate_def Let_def bit_simps)
  have "speed = word_of_int (rate_of c)" if "openbsd.rate_flag c = Some speed" for speed
    using that unfolding openbsd.rate_flag_def by (auto simp: openbsd_def openbsd_baudRates_def rate_of_def split: if_splits)
  moreover have "ut_Ispeed (openbsd.speeds_of s) = s" "ut_Ospeed (openbsd.speeds_of s) = s" for s
    unfolding openbsd.speeds_of_def by (simp_all add: openbsd_def openbsd_cfSetIspeed_def openbsd_cfSetOspeed_def)
  ultimately have openbsd: "settles openbsd bsd_rate unharmed c"
    by (intro openbsd.settles_if) (simp_all add: unharmed_def rate_of_def bsd_rate_def Let_def bit_simps)
  show ?thesis
    using linux mips bsd darwin openbsd linux_is_posix by (intro conjI) (simp_all add: unharmed_def data_bits_def bit_simps)
qed

end
