(* ===== verification/Go_Float32.thy ===== *)
theory Go_Float32
  imports Encoding Complex_Main
begin

text \<open>
  The arithmetic of Go's \<open>float32\<close>: IEEE 754 binary32 with rounding to nearest, ties to even, over
  the bit patterns of \<open>Encoding\<close>.  The value of a finite pattern is a rational number; a result is the
  rounded exact result.  All NaNs a computation yields are the same pattern here, which the
  comparisons of the code do not tell apart.
\<close>

section \<open>Values\<close>

text \<open>
  The magnitude of a float is its pattern without the sign bit, as a number; the order of the
  magnitudes is that of the values they stand for.
\<close>

definition f32_neg :: "float32 \<Rightarrow> bool" where
  "f32_neg x \<longleftrightarrow> 2 ^ 31 \<le> unat (Float32bits x)"

definition f32_mag :: "float32 \<Rightarrow> nat" where
  "f32_mag x = unat (Float32bits x) mod 2 ^ 31"

definition infMag :: nat where "infMag = 255 * 2 ^ 23"

definition f32_nan :: "float32 \<Rightarrow> bool" where "f32_nan x \<longleftrightarrow> infMag < f32_mag x"
definition f32_inf :: "float32 \<Rightarrow> bool" where "f32_inf x \<longleftrightarrow> f32_mag x = infMag"
definition f32_finite :: "float32 \<Rightarrow> bool" where "f32_finite x \<longleftrightarrow> f32_mag x < infMag"

text \<open>The spacing of the values with biased exponent \<open>e\<close> (1 for the subnormal ones too).\<close>

definition ulp :: "nat \<Rightarrow> rat" where
  "ulp e = 2 ^ e / 2 ^ 150"

definition mag_rat :: "nat \<Rightarrow> rat" where
  "mag_rat m = (if m div 2 ^ 23 = 0 then of_nat m * ulp 1
                else of_nat (2 ^ 23 + m mod 2 ^ 23) * ulp (m div 2 ^ 23))"

definition f32_rat :: "float32 \<Rightarrow> rat" where
  "f32_rat x = (if f32_neg x then - mag_rat (f32_mag x) else mag_rat (f32_mag x))"

definition f32_make :: "bool \<Rightarrow> nat \<Rightarrow> float32" where
  "f32_make neg m = Float32frombits (word_of_nat (if neg then 2 ^ 31 + m else m))"

definition f32_NaN :: float32 where "f32_NaN = f32_make False (infMag + 2 ^ 22)"

section \<open>Rounding\<close>

text \<open>To the nearest, ties to even: the integer, the exponent of a positive number, the float.\<close>

definition round_even :: "rat \<Rightarrow> int" where
  "round_even q =
     (let n = \<lfloor>q\<rfloor>; d = q - of_int n in
      if d < 1 / 2 then n else if 1 / 2 < d then n + 1 else if even n then n else n + 1)"

definition f32_binade :: "rat \<Rightarrow> nat option" where
  "f32_binade r = find (\<lambda>e. r < 2 ^ 24 * ulp e) [1..<255]"

definition f32_round :: "bool \<Rightarrow> rat \<Rightarrow> float32" where
  "f32_round neg r =
     (case f32_binade r of
        None \<Rightarrow> f32_make neg infMag
      | Some e \<Rightarrow> f32_make neg ((e - 1) * 2 ^ 23 + nat (round_even (r / ulp e))))"

definition f32_of_rat :: "rat \<Rightarrow> float32" where
  "f32_of_rat r = f32_round (r < 0) \<bar>r\<bar>"

section \<open>Operators and conversions\<close>

text \<open>\<open>float32(i)\<close> of an integer and \<open>uint32(x)\<close>, which the language leaves open out of range.\<close>

definition f32_of_int :: "int \<Rightarrow> float32" where
  "f32_of_int i = f32_of_rat (of_int i)"

definition f32_to_uint32 :: "float32 \<Rightarrow> uint32 option" where
  "f32_to_uint32 x =
     (if f32_finite x \<and> - 1 < f32_rat x \<and> f32_rat x < 2 ^ 32
      then Some (word_of_int (if f32_rat x < 0 then \<lceil>f32_rat x\<rceil> else \<lfloor>f32_rat x\<rfloor>)) else None)"

text \<open>Comparisons by signed magnitude: the two zeros are equal, a NaN compares with nothing.\<close>

definition f32_key :: "float32 \<Rightarrow> int" where
  "f32_key x = (if f32_neg x then - int (f32_mag x) else int (f32_mag x))"

definition f32_less :: "float32 \<Rightarrow> float32 \<Rightarrow> bool" where
  "f32_less a b \<longleftrightarrow> \<not> f32_nan a \<and> \<not> f32_nan b \<and> f32_key a < f32_key b"

definition f32_eq :: "float32 \<Rightarrow> float32 \<Rightarrow> bool" where
  "f32_eq a b \<longleftrightarrow> \<not> f32_nan a \<and> \<not> f32_nan b \<and> f32_key a = f32_key b"

definition f32_add :: "float32 \<Rightarrow> float32 \<Rightarrow> float32" where
  "f32_add a b =
     (if f32_nan a \<or> f32_nan b \<or> (f32_inf a \<and> f32_inf b \<and> f32_neg a \<noteq> f32_neg b) then f32_NaN
      else if f32_inf a then a
      else if f32_inf b then b
      else if f32_rat a + f32_rat b = 0 then f32_make (f32_neg a \<and> f32_neg b) 0
      else f32_of_rat (f32_rat a + f32_rat b))"

definition f32_mul :: "float32 \<Rightarrow> float32 \<Rightarrow> float32" where
  "f32_mul a b =
     (let neg = (f32_neg a \<noteq> f32_neg b) in
      if f32_nan a \<or> f32_nan b \<or> (f32_inf a \<and> f32_mag b = 0) \<or> (f32_mag a = 0 \<and> f32_inf b) then f32_NaN
      else if f32_inf a \<or> f32_inf b then f32_make neg infMag
      else f32_round neg \<bar>f32_rat a * f32_rat b\<bar>)"

definition f32_div :: "float32 \<Rightarrow> float32 \<Rightarrow> float32" where
  "f32_div a b =
     (let neg = (f32_neg a \<noteq> f32_neg b) in
      if f32_nan a \<or> f32_nan b \<or> (f32_inf a \<and> f32_inf b) \<or> (f32_mag a = 0 \<and> f32_mag b = 0) then f32_NaN
      else if f32_inf a \<or> f32_mag b = 0 then f32_make neg infMag
      else if f32_inf b then f32_make neg 0
      else f32_round neg \<bar>f32_rat a / f32_rat b\<bar>)"

section \<open>Patterns\<close>

lemma f32_make_fields:
  assumes "m < 2 ^ 31"
  shows "f32_mag (f32_make neg m) = m" "f32_neg (f32_make neg m) = neg"
proof -
  have "unat (word_of_nat (if neg then 2 ^ 31 + m else m) :: uint32) = (if neg then 2 ^ 31 + m else m)"
    using assms by (simp add: unat_of_nat)
  with assms show "f32_mag (f32_make neg m) = m" "f32_neg (f32_make neg m) = neg"
    by (auto simp: f32_make_def f32_mag_def f32_neg_def)
qed

lemma ulp_pos [simp]: "0 < ulp e" "0 \<le> ulp e" "ulp e \<noteq> 0"
  by (simp_all add: ulp_def)

lemma ulp_Suc: "ulp (Suc e) = 2 * ulp e"
  by (simp add: ulp_def)

lemma ulp_mono: "e \<le> e' \<Longrightarrow> ulp e \<le> ulp e'"
  by (simp add: ulp_def divide_right_mono)

text \<open>A magnitude as exponent and significand, the carry into the exponent included.\<close>

lemma mag_rat_normal:
  assumes "1 \<le> e" "n \<le> 2 ^ 24" "1 < e \<longrightarrow> 2 ^ 23 \<le> n"
  shows "mag_rat ((e - 1) * 2 ^ 23 + n) = of_nat n * ulp e"
proof -
  consider "n < 2 ^ 23" | "2 ^ 23 \<le> n" "n < 2 ^ 24" | "n = 2 ^ 24"
    using assms(2) by linarith
  then show ?thesis
  proof cases
    case 1
    with assms have "e = 1" by (cases "1 < e") auto
    with 1 show ?thesis by (simp add: mag_rat_def)
  next
    case 2
    from 2(1) obtain k where n: "n = 2 ^ 23 + k"
      using le_iff_add by blast
    with 2(2) have k: "n = 2 ^ 23 + k" "k < 2 ^ 23" by simp_all
    then have "(e - 1) * 2 ^ 23 + n = e * 2 ^ 23 + k"
      using assms(1) by (cases e) simp_all
    with k assms(1) show ?thesis by (simp add: mag_rat_def)
  next
    case 3
    then have "(e - 1) * 2 ^ 23 + n = Suc e * 2 ^ 23"
      using assms(1) by (cases e) simp_all
    with 3 show ?thesis
      by (simp add: mag_rat_def ulp_Suc)
  qed
qed

section \<open>How far rounding goes\<close>

lemma round_even_half: "\<bar>of_int (round_even q) - q\<bar> \<le> 1 / 2"
proof -
  have "of_int \<lfloor>q\<rfloor> \<le> q" "q < of_int \<lfloor>q\<rfloor> + 1"
    using floor_correct [of q] by simp_all
  then show ?thesis unfolding round_even_def Let_def by (auto simp: abs_le_iff)
qed

lemma round_even_of_int [simp]: "round_even (of_int k) = k"
  by (simp add: round_even_def)

lemma round_even_bounds:
  "of_int a \<le> q \<Longrightarrow> a \<le> round_even q" "q \<le> of_int b \<Longrightarrow> round_even q \<le> b"
proof -
  show "a \<le> round_even q" if "of_int a \<le> q"
  proof -
    from that have "a \<le> \<lfloor>q\<rfloor>" by (simp add: le_floor_iff)
    then show ?thesis by (simp add: round_even_def Let_def)
  qed
  show "round_even q \<le> b" if "q \<le> of_int b"
  proof (cases "q = of_int b")
    case False
    with that have "\<lfloor>q\<rfloor> < b" by (simp add: floor_less_iff)
    then show ?thesis by (simp add: round_even_def Let_def)
  qed simp
qed

lemma f32_binade_Some:
  assumes "f32_binade r = Some e"
  shows "1 \<le> e" "e < 255" "r < 2 ^ 24 * ulp e" "1 < e \<Longrightarrow> 2 ^ 23 * ulp e \<le> r"
    "\<And>e'. 1 \<le> e' \<Longrightarrow> r < 2 ^ 24 * ulp e' \<Longrightarrow> e \<le> e'"
proof -
  from assms obtain i where i: "i < 254" "e = Suc i" "r < 2 ^ 24 * ulp e" "\<forall>j<i. \<not> r < 2 ^ 24 * ulp (Suc j)"
    by (auto simp: f32_binade_def find_Some_iff)
  show "1 \<le> e" "e < 255" "r < 2 ^ 24 * ulp e"
    using i by simp_all
  show "2 ^ 23 * ulp e \<le> r" if "1 < e"
  proof -
    from that i(2) obtain j where "i = Suc j" by (cases i) auto
    with i(2,4) show ?thesis by (simp add: ulp_Suc not_less)
  qed
  show "e \<le> e'" if "1 \<le> e'" "r < 2 ^ 24 * ulp e'" for e'
  proof (rule ccontr)
    assume "\<not> e \<le> e'"
    with that(1) i(2) obtain j where "e' = Suc j" "j < i" by (cases e') auto
    with i(4) that(2) show False by simp
  qed
qed

lemma f32_binade_exists:
  assumes "1 \<le> e'" "e' < 255" "r < 2 ^ 24 * ulp e'"
  obtains e where "f32_binade r = Some e" "e \<le> e'"
proof -
  have "f32_binade r \<noteq> None"
    using assms by (auto simp: f32_binade_def find_None_iff)
  then obtain e where e: "f32_binade r = Some e" by auto
  with f32_binade_Some(5) [OF e assms(1,3)] show ?thesis using that by blast
qed

lemma f32_round_binade:
  assumes "f32_binade r = Some e" "0 \<le> r" "e \<le> 253"
  defines "n \<equiv> nat (round_even (r / ulp e))"
  shows "f32_finite (f32_round neg r)" "f32_neg (f32_round neg r) = neg"
    "f32_mag (f32_round neg r) = (e - 1) * 2 ^ 23 + n" "mag_rat (f32_mag (f32_round neg r)) = of_nat n * ulp e"
    "\<bar>of_nat n - r / ulp e\<bar> \<le> 1 / 2" (is ?err)
proof -
  note e = f32_binade_Some [OF assms(1)]
  have q: "0 \<le> r / ulp e" "r / ulp e \<le> 2 ^ 24" "1 < e \<Longrightarrow> 2 ^ 23 \<le> r / ulp e"
    using e(3,4) assms(2) by (simp_all add: pos_divide_le_eq pos_le_divide_eq)
  have n0: "0 \<le> round_even (r / ulp e)"
    using round_even_bounds(1) [of 0] q(1) by simp
  have n1: "round_even (r / ulp e) \<le> 2 ^ 24"
    using round_even_bounds(2) [of _ "2 ^ 24"] q(2) by simp
  have n2: "2 ^ 23 \<le> round_even (r / ulp e)" if "1 < e"
    using round_even_bounds(1) [of "2 ^ 23"] q(3) that by simp
  have n: "n \<le> 2 ^ 24" "1 < e \<longrightarrow> 2 ^ 23 \<le> n"
    using n0 n1 n2 by (auto simp: n_def nat_le_iff le_nat_iff)
  have "e - 1 \<le> 252" using assms(3) by simp
  then have "(e - 1) * 2 ^ 23 \<le> 252 * 2 ^ 23" by (rule mult_le_mono1)
  with n(1) have small: "(e - 1) * 2 ^ 23 + n < infMag"
    by (simp add: infMag_def)
  then have "(e - 1) * 2 ^ 23 + n < 2 ^ 31"
    by (simp add: infMag_def)
  note mk = f32_make_fields [OF this]
  have r: "f32_round neg r = f32_make neg ((e - 1) * 2 ^ 23 + n)"
    using assms(1) by (simp add: f32_round_def n_def)
  show "f32_finite (f32_round neg r)" "f32_neg (f32_round neg r) = neg" "f32_mag (f32_round neg r) = (e - 1) * 2 ^ 23 + n"
    using mk small by (simp_all add: r f32_finite_def)
  show "mag_rat (f32_mag (f32_round neg r)) = of_nat n * ulp e"
    unfolding r mk by (rule mag_rat_normal [OF e(1) n])
  have "of_nat n = (of_int (round_even (r / ulp e)) :: rat)"
    using n0 by (simp add: n_def)
  then show "\<bar>of_nat n - r / ulp e\<bar> \<le> 1 / 2"
    using round_even_half by simp
qed

text \<open>A half unit in the last place, which is a fraction of the value unless that is subnormal.\<close>

lemma f32_round_error:
  assumes "0 \<le> r" "r \<le> 2 ^ 100"
  shows "f32_finite (f32_round neg r)" "f32_neg (f32_round neg r) = neg"
    "\<bar>mag_rat (f32_mag (f32_round neg r)) - r\<bar> \<le> max (r / 2 ^ 24) (1 / 2 ^ 150)"
proof -
  have "r < 2 ^ 24 * ulp 253"
    using assms(2) by (simp add: ulp_def)
  then obtain e where e: "f32_binade r = Some e" "e \<le> 253"
    using f32_binade_exists [of 253 r] by auto
  let ?n = "nat (round_even (r / ulp e))"
  note f = f32_round_binade(1-4) [OF e(1) assms(1) e(2), of neg] f32_round_binade(5) [OF e(1) assms(1) e(2)]
  show "f32_finite (f32_round neg r)" "f32_neg (f32_round neg r) = neg"
    by (rule f)+
  have "\<bar>mag_rat (f32_mag (f32_round neg r)) - r\<bar> = ulp e * \<bar>of_nat ?n - r / ulp e\<bar>"
  proof -
    have "of_nat ?n * ulp e - r = ulp e * (of_nat ?n - r / ulp e)"
      by (simp add: algebra_simps)
    then show ?thesis
      unfolding f(4) by (simp add: abs_mult abs_of_pos)
  qed
  also have "\<dots> \<le> ulp e * (1 / 2)"
    by (intro mult_left_mono f(5)) simp
  also have "\<dots> \<le> max (r / 2 ^ 24) (1 / 2 ^ 150)"
  proof (cases "1 < e")
    case True
    with f32_binade_Some(4) [OF e(1)] have "2 ^ 23 * ulp e \<le> r" by simp
    then have "ulp e * (1 / 2) \<le> r / 2 ^ 24" by simp
    then show ?thesis by simp
  next
    case False
    with f32_binade_Some(1) [OF e(1)] have "e = 1" by simp
    then have "ulp e * (1 / 2) = 1 / 2 ^ 150" by (simp add: ulp_def)
    then show ?thesis by simp
  qed
  finally show "\<bar>mag_rat (f32_mag (f32_round neg r)) - r\<bar> \<le> max (r / 2 ^ 24) (1 / 2 ^ 150)" .
qed

text \<open>Integers of up to 24 bits are exact.\<close>

lemma f32_of_int_exact:
  assumes "\<bar>i\<bar> < 2 ^ 24"
  shows "f32_finite (f32_of_int i)" "f32_rat (f32_of_int i) = of_int i" "f32_neg (f32_of_int i) = (i < 0)"
proof -
  let ?r = "\<bar>of_int i :: rat\<bar>"
  have r: "?r = of_nat (nat \<bar>i\<bar>)" by simp
  have "?r < 2 ^ 24"
    using assms by (simp flip: of_int_abs)
  then have "?r < 2 ^ 24 * ulp 150" by (simp add: ulp_def)
  then obtain e where e: "f32_binade ?r = Some e" "e \<le> 150"
    using f32_binade_exists [of 150 ?r] by auto
  then have "e \<le> 253" by simp
  note f = f32_round_binade(1-4) [OF e(1) abs_ge_zero this, of "of_int i < (0 :: rat)"]
  have two: "(2 :: rat) ^ 150 = 2 ^ e * 2 ^ (150 - e)"
    using e(2) by (simp flip: power_add)
  have "?r / ulp e = ?r * 2 ^ (150 - e)"
    unfolding ulp_def two by simp
  also have "\<dots> = of_int (\<bar>i\<bar> * 2 ^ (150 - e))" by simp
  finally have q: "?r / ulp e = of_int (\<bar>i\<bar> * 2 ^ (150 - e))" .
  have "of_nat (nat (round_even (?r / ulp e))) * ulp e = ?r / ulp e * ulp e"
    unfolding q round_even_of_int by simp
  also have "\<dots> = ?r" by simp
  finally have "mag_rat (f32_mag (f32_of_int i)) = ?r"
    using f(4) by (simp add: f32_of_int_def f32_of_rat_def)
  with f(1,2) show "f32_finite (f32_of_int i)" "f32_rat (f32_of_int i) = of_int i" "f32_neg (f32_of_int i) = (i < 0)"
    by (auto simp: f32_of_int_def f32_of_rat_def f32_rat_def)
qed

section \<open>Order\<close>

lemma mag_rat_Suc: "mag_rat m < mag_rat (Suc m)"
proof -
  let ?e = "m div 2 ^ 23" and ?f = "m mod 2 ^ 23"
  have m: "m = ?e * 2 ^ 23 + ?f" by simp
  have f: "?f < 2 ^ 23" by simp
  have "\<exists>e n. 1 \<le> e \<and> m = (e - 1) * 2 ^ 23 + n \<and> n < 2 ^ 24 \<and> (1 < e \<longrightarrow> 2 ^ 23 \<le> n)"
  proof (cases "?e = 0")
    case True
    with m f show ?thesis by (intro exI [of _ 1] exI [of _ m]) simp
  next
    case False
    then obtain e where e: "?e = Suc e" by (cases ?e) auto
    have "m = e * 2 ^ 23 + (2 ^ 23 + ?f)"
      using m unfolding e by simp
    with f show ?thesis
      by (intro exI [of _ "Suc e"] exI [of _ "2 ^ 23 + ?f"]) simp
  qed
  then obtain e n where en: "1 \<le> e" "m = (e - 1) * 2 ^ 23 + n" "n < 2 ^ 24" "1 < e \<longrightarrow> 2 ^ 23 \<le> n" by blast
  have "mag_rat m = of_nat n * ulp e"
    unfolding en(2) using en by (intro mag_rat_normal) auto
  moreover have "mag_rat (Suc m) = of_nat (Suc n) * ulp e"
    unfolding en(2) add_Suc_right [symmetric] using en by (intro mag_rat_normal) auto
  ultimately show ?thesis
    by (simp add: algebra_simps)
qed

lemma mag_rat_less_iff: "mag_rat m < mag_rat n \<longleftrightarrow> m < n"
  by (rule strict_mono_less) (simp add: strict_mono_Suc_iff mag_rat_Suc)

lemma mag_rat_0 [simp]: "mag_rat 0 = 0"
  by (simp add: mag_rat_def)

lemma mag_rat_pos: "0 < m \<Longrightarrow> 0 < mag_rat m"
  using mag_rat_less_iff [of 0 m] by simp

text \<open>On numbers the comparison of patterns is that of the values.\<close>

lemma f32_less_rat:
  assumes "f32_finite a" "f32_finite b"
  shows "f32_less a b \<longleftrightarrow> f32_rat a < f32_rat b"
proof -
  have nn: "0 \<le> mag_rat m" for m
    using mag_rat_pos [of m] by (cases "m = 0") auto
  have "f32_key a < f32_key b \<longleftrightarrow> f32_rat a < f32_rat b"
  proof (cases "f32_neg a"; cases "f32_neg b")
    assume "f32_neg a" "\<not> f32_neg b"
    then show ?thesis
      using nn [of "f32_mag a"] nn [of "f32_mag b"] mag_rat_pos [of "f32_mag a"] mag_rat_pos [of "f32_mag b"]
      by (cases "f32_mag a = 0"; cases "f32_mag b = 0") (simp_all add: f32_key_def f32_rat_def)
  next
    assume "\<not> f32_neg a" "f32_neg b"
    then show ?thesis
      using nn [of "f32_mag a"] nn [of "f32_mag b"] by (simp add: f32_key_def f32_rat_def not_less)
  qed (simp_all add: f32_key_def f32_rat_def mag_rat_less_iff)
  with assms show ?thesis
    by (simp add: f32_less_def f32_nan_def f32_finite_def)
qed

section \<open>Quotients of small integers\<close>

lemma f32_binade_0: "f32_binade 0 = Some 1"
proof -
  have "(0 :: rat) < 2 ^ 24 * ulp 1" by (simp add: ulp_def)
  then obtain e where e: "f32_binade 0 = Some e" "e \<le> 1"
    using f32_binade_exists [of 1 0] by auto
  with f32_binade_Some(1) [OF e(1)] show ?thesis by simp
qed

lemma f32_round_0: "f32_round neg 0 = f32_make neg 0"
  using round_even_of_int [of 0] by (simp add: f32_round_def f32_binade_0)

lemma f32_div_ints:
  assumes "\<bar>i\<bar> < 2 ^ 24" "0 < k" "k < 2 ^ 24"
  shows "f32_finite (f32_div (f32_of_int i) (f32_of_int k))"
    "\<bar>f32_rat (f32_div (f32_of_int i) (f32_of_int k)) - of_int i / of_int k\<bar> \<le> \<bar>of_int i / of_int k\<bar> / 2 ^ 24"
proof -
  let ?a = "f32_of_int i" and ?b = "f32_of_int k" and ?r = "\<bar>of_int i / of_int k :: rat\<bar>"
  have b: "f32_finite ?b" "f32_rat ?b = of_int k" "\<not> f32_neg ?b"
    using f32_of_int_exact [of k] assms(2,3) by simp_all
  note a = f32_of_int_exact [OF assms(1)]
  have "f32_mag ?b \<noteq> 0"
  proof
    assume "f32_mag ?b = 0"
    then have "f32_rat ?b = 0" by (simp add: f32_rat_def)
    with b(2) assms(2) show False by simp
  qed
  with a b have d: "f32_div ?a ?b = f32_round (i < 0) ?r"
    by (simp add: f32_div_def Let_def f32_nan_def f32_inf_def f32_finite_def)
  have q: "of_int i / of_int k = (if i < 0 then - ?r else ?r)"
    using assms(2) by (simp add: abs_if divide_less_0_iff)
  have "f32_finite (f32_div ?a ?b) \<and> \<bar>f32_rat (f32_div ?a ?b) - of_int i / of_int k\<bar> \<le> ?r / 2 ^ 24"
  proof (cases "i = 0")
    case True
    then show ?thesis
      using f32_make_fields [of 0 False] d by (simp add: f32_round_0 f32_rat_def f32_finite_def infMag_def)
  next
    case False
    then have "1 \<le> \<bar>i\<bar>" by simp
    then have i1: "(1 :: rat) \<le> \<bar>of_int i\<bar>" by (simp flip: of_int_abs)
    have i2: "\<bar>of_int i\<bar> < (2 :: rat) ^ 24" and k2: "of_int k < (2 :: rat) ^ 24" and k1: "1 \<le> (of_int k :: rat)"
      using assms by (simp_all flip: of_int_abs)
    have r: "?r = \<bar>of_int i\<bar> / of_int k"
      using assms(2) by (simp add: abs_divide)
    have "1 / 2 ^ 24 \<le> ?r"
      unfolding r using i1 k1 k2 by (intro frac_le) simp_all
    moreover have "?r \<le> 2 ^ 24 / 1"
      unfolding r using i2 k1 by (intro frac_le) simp_all
    ultimately have range: "?r \<le> 2 ^ 100" "max (?r / 2 ^ 24) (1 / 2 ^ 150) = ?r / 2 ^ 24"
      by (simp_all add: max_def)
    note e = f32_round_error [OF abs_ge_zero range(1), of "i < 0"]
    have signed: "\<bar>y - x\<bar> = \<bar>m - r\<bar>" if "y = (if c then - m else m)" "x = (if c then - r else r)" for x y m r :: rat and c
      using that by (cases c) simp_all
    have "f32_rat (f32_div ?a ?b) = (if i < 0 then - mag_rat (f32_mag (f32_round (i < 0) ?r)) else mag_rat (f32_mag (f32_round (i < 0) ?r)))"
      unfolding d f32_rat_def e(2) by (rule refl)
    from signed [OF this q] have "\<bar>f32_rat (f32_div ?a ?b) - of_int i / of_int k\<bar> = \<bar>mag_rat (f32_mag (f32_round (i < 0) ?r)) - ?r\<bar>" .
    with e(1,3) range(2) d show ?thesis by simp
  qed
  then show "f32_finite (f32_div ?a ?b)" "\<bar>f32_rat (f32_div ?a ?b) - of_int i / of_int k\<bar> \<le> ?r / 2 ^ 24"
    by simp_all
qed

text \<open>A value between two numbers is a number between them.\<close>

lemma f32_between:
  assumes "f32_finite a" "f32_finite b" "\<not> f32_nan x" "\<not> f32_less x a" "\<not> f32_less b x"
  shows "f32_finite x" "f32_rat a \<le> f32_rat x" "f32_rat x \<le> f32_rat b"
proof -
  show fin: "f32_finite x"
  proof (rule ccontr)
    assume "\<not> f32_finite x"
    with assms(3) have "f32_mag x = infMag"
      by (simp add: f32_finite_def f32_nan_def)
    with assms show False
      by (cases "f32_neg x") (auto simp: f32_less_def f32_key_def f32_finite_def f32_nan_def split: if_splits)
  qed
  show "f32_rat a \<le> f32_rat x" "f32_rat x \<le> f32_rat b"
    using assms(4,5) f32_less_rat [OF fin assms(1)] f32_less_rat [OF assms(2) fin] by simp_all
qed

section \<open>Sums of small floats\<close>

lemma f32_add_small:
  assumes "f32_finite a" "f32_finite b" "\<bar>f32_rat a\<bar> \<le> B" "\<bar>f32_rat b\<bar> \<le> B" "1 \<le> B" "B \<le> 2 ^ 60"
  shows "f32_finite (f32_add a b)" "\<bar>f32_rat (f32_add a b)\<bar> \<le> 3 * B"
proof -
  let ?s = "f32_rat a + f32_rat b"
  have num: "\<not> f32_nan a" "\<not> f32_nan b" "\<not> f32_inf a" "\<not> f32_inf b"
    using assms(1,2) by (simp_all add: f32_finite_def f32_nan_def f32_inf_def)
  have s: "\<bar>?s\<bar> \<le> 2 * B" using assms(3,4) by linarith
  have "f32_finite (f32_add a b) \<and> \<bar>f32_rat (f32_add a b)\<bar> \<le> 3 * B"
  proof (cases "?s = 0")
    case True
    with num have "f32_add a b = f32_make (f32_neg a \<and> f32_neg b) 0" by (simp add: f32_add_def)
    then show ?thesis
      using f32_make_fields(1) [of 0] assms(5) by (simp add: f32_finite_def infMag_def f32_rat_def)
  next
    case False
    with num have x: "f32_add a b = f32_round (?s < 0) \<bar>?s\<bar>"
      by (simp add: f32_add_def f32_of_rat_def)
    have "(2 :: rat) * 2 ^ 60 \<le> 2 ^ 100" by simp
    then have "\<bar>?s\<bar> \<le> 2 ^ 100" using s assms(6) by linarith
    note e = f32_round_error [OF abs_ge_zero this, of "?s < 0"]
    have "max (\<bar>?s\<bar> / 2 ^ 24) (1 / 2 ^ 150) \<le> B"
      using s assms(5) by (simp add: max_def)
    with e(3) s have "\<bar>mag_rat (f32_mag (f32_add a b))\<bar> \<le> 3 * B" unfolding x by linarith
    with e(1) x show ?thesis by (simp add: f32_rat_def)
  qed
  then show "f32_finite (f32_add a b)" "\<bar>f32_rat (f32_add a b)\<bar> \<le> 3 * B" by blast+
qed

end
