(* ===== verification/Energy_Flow.thy ===== *)
theory Energy_Flow
  imports Go_Float32 "HOL-Library.AList"
begin

text \<open>
  pkg/energysource: the readings of a grid or a PV installation (EnergyFlow.go), the limits of a
  grid (Grid.go), PV installations and systems (Pv.go, System.go), and the maps they are shown as.
\<close>

section \<open>Limits\<close>

definition MinVoltage :: float32 where "MinVoltage = f32_of_int 1"
definition MaxVoltage :: float32 where "MaxVoltage = f32_of_int 600"
definition MinCurrentPerPhase :: float32 where "MinCurrentPerPhase = f32_of_rat (1 / 10)"
definition MaxCurrentPerPhase :: float32 where "MaxCurrentPerPhase = f32_of_int 100"
definition MinPhases :: uint8 where "MinPhases = 1"
definition MaxPhases :: uint8 where "MaxPhases = 3"

abbreviation f32_zero :: float32 where "f32_zero \<equiv> Float32frombits 0"

section \<open>EnergyFlowBase\<close>

text \<open>The arrays of three floats are lists; \<open>flow_ok\<close> is their type.\<close>

record EnergyFlowBase =
  efb_current :: "float32 list"
  efb_power :: "float32 list"
  efb_voltage :: "float32 list"

definition newEnergyFlowBase :: EnergyFlowBase where
  "newEnergyFlowBase = \<lparr>efb_current = replicate 3 f32_zero, efb_power = replicate 3 f32_zero,
     efb_voltage = replicate 3 f32_zero\<rparr>"

definition flow_ok :: "EnergyFlowBase \<Rightarrow> bool" where
  "flow_ok efb \<longleftrightarrow> length (efb_current efb) = 3 \<and> length (efb_power efb) = 3 \<and> length (efb_voltage efb) = 3"

definition validLineIx :: "uint8 \<Rightarrow> bool" where
  "validLineIx lineIx \<longleftrightarrow> lineIx < MaxPhases"

text \<open>The loop of \<open>Phases\<close> from \<open>x\<close> down to 1.\<close>

fun phasesFrom :: "float32 list \<Rightarrow> nat \<Rightarrow> uint8" where
  "phasesFrom voltage 0 = 0"
| "phasesFrom voltage (Suc x) =
     (if \<not> f32_eq (voltage ! x) f32_zero then word_of_nat (Suc x) else phasesFrom voltage x)"

definition flow_Phases :: "EnergyFlowBase \<Rightarrow> uint8" where
  "flow_Phases efb = phasesFrom (efb_voltage efb) (unat MaxPhases)"

definition flow_Power :: "uint8 \<Rightarrow> EnergyFlowBase \<Rightarrow> float32" where
  "flow_Power lineIx efb = (if \<not> validLineIx lineIx then f32_zero else efb_power efb ! unat lineIx)"

definition flow_Voltage :: "uint8 \<Rightarrow> EnergyFlowBase \<Rightarrow> float32" where
  "flow_Voltage lineIx efb = (if \<not> validLineIx lineIx then f32_zero else efb_voltage efb ! unat lineIx)"

definition flow_Current :: "uint8 \<Rightarrow> EnergyFlowBase \<Rightarrow> float32" where
  "flow_Current lineIx efb = (if \<not> validLineIx lineIx then f32_zero else efb_current efb ! unat lineIx)"

text \<open>The values that the formatted error messages name are left out of them.\<close>

definition errLineIx :: go_error where
  "errLineIx = OtherError ''lineIx must be between %d and %d (inclusive), provided %d''"

definition SetPower :: "uint8 \<Rightarrow> float32 \<Rightarrow> EnergyFlowBase \<Rightarrow> go_error option \<times> EnergyFlowBase" where
  "SetPower lineIx power' efb =
     (if \<not> validLineIx lineIx then (Some errLineIx, efb)
      else (None, efb\<lparr>efb_power := (efb_power efb)[unat lineIx := power']\<rparr>))"

definition SetVoltage :: "uint8 \<Rightarrow> float32 \<Rightarrow> EnergyFlowBase \<Rightarrow> go_error option \<times> EnergyFlowBase" where
  "SetVoltage lineIx voltage efb =
     (if \<not> validLineIx lineIx then (Some errLineIx, efb)
      else (None, efb\<lparr>efb_voltage := (efb_voltage efb)[unat lineIx := voltage]\<rparr>))"

definition SetCurrent :: "uint8 \<Rightarrow> float32 \<Rightarrow> EnergyFlowBase \<Rightarrow> go_error option \<times> EnergyFlowBase" where
  "SetCurrent lineIx current efb =
     (if \<not> validLineIx lineIx then (Some errLineIx, efb)
      else (None, efb\<lparr>efb_current := (efb_current efb)[unat lineIx := current]\<rparr>))"

definition TotalPower :: "EnergyFlowBase \<Rightarrow> float32" where
  "TotalPower efb = fold (\<lambda>p total. f32_add total p) (efb_power efb) f32_zero"

definition TotalCurrent :: "EnergyFlowBase \<Rightarrow> float32" where
  "TotalCurrent efb = fold (\<lambda>c total. f32_add total c) (efb_current efb) f32_zero"

text \<open>What the maps for JSON hold; a Go map is an association list without duplicate keys.\<close>

datatype any = AnyUint8 uint8 | AnyUint32 uint32 | AnyFloat32 float32 | AnyMap "(string \<times> any) list" | AnyMaps "any list"

type_synonym go_map = "(string \<times> any) list"

text \<open>\<open>fmt.Sprintf("%d", n)\<close> of a natural number.\<close>

fun decimal :: "nat \<Rightarrow> string" where
  "decimal n = (if n < 10 then [char_of (48 + n)] else decimal (n div 10) @ [char_of (48 + n mod 10)])"

declare decimal.simps [simp del]

definition flow_ToMap :: "EnergyFlowBase \<Rightarrow> go_map" where
  "flow_ToMap efb =
     (let phases = flow_Phases efb;
          data = [(''phases'', AnyUint8 phases), (''total_current'', AnyFloat32 (TotalCurrent efb)),
                  (''total_power'', AnyFloat32 (TotalPower efb))]
      in fold (\<lambda>ix data. AList.update (''l'' @ decimal ix)
             (AnyMap [(''voltage'', AnyFloat32 (flow_Voltage (word_of_nat ix) efb)),
                      (''current'', AnyFloat32 (flow_Current (word_of_nat ix) efb)),
                      (''power'', AnyFloat32 (flow_Power (word_of_nat ix) efb))]) data)
           [0..<unat phases] data)"

section \<open>GridConfig\<close>

record GridConfig =
  gc_voltage :: float32
  gc_maxCurrentPerPhase :: float32
  gc_phases :: uint8

definition setMaxCurrentPerPhase :: "float32 \<Rightarrow> GridConfig \<Rightarrow> go_error option \<times> GridConfig" where
  "setMaxCurrentPerPhase maxCurrentPerPhase gc =
     (if f32_less maxCurrentPerPhase MinCurrentPerPhase \<or> f32_less MaxCurrentPerPhase maxCurrentPerPhase
      then (Some (OtherError ''max current per phase should be between %f and %f (inclusive), provided %f''), gc)
      else (None, gc\<lparr>gc_maxCurrentPerPhase := maxCurrentPerPhase\<rparr>))"

definition gc_SetVoltage :: "float32 \<Rightarrow> GridConfig \<Rightarrow> go_error option \<times> GridConfig" where
  "gc_SetVoltage voltage gc =
     (if f32_less voltage MinVoltage \<or> f32_less MaxVoltage voltage
      then (Some (OtherError ''grid voltage must be between %f and %f (inclusive), provided %f''), gc)
      else (None, gc\<lparr>gc_voltage := voltage\<rparr>))"

definition SetPhases :: "uint8 \<Rightarrow> GridConfig \<Rightarrow> go_error option \<times> GridConfig" where
  "SetPhases phases gc =
     (if phases < MinPhases \<or> MaxPhases < phases
      then (Some (OtherError ''phases must be between %d and %d (inclusive), provided %d''), gc)
      else (None, gc\<lparr>gc_phases := phases\<rparr>))"

text \<open>\<open>None\<close> is a conversion whose result the language leaves to the implementation.\<close>

definition MaxPowerPerPhase :: "GridConfig \<Rightarrow> uint32 option" where
  "MaxPowerPerPhase gc = f32_to_uint32 (f32_mul (gc_maxCurrentPerPhase gc) (gc_voltage gc))"

definition MaxTotalPower :: "GridConfig \<Rightarrow> uint32 option" where
  "MaxTotalPower gc = do { p \<leftarrow> MaxPowerPerPhase gc; Some (p * ucast (gc_phases gc)) }"

definition gc_ToMap :: "GridConfig \<Rightarrow> go_map option" where
  "gc_ToMap gc = do {
     total \<leftarrow> MaxTotalPower gc;
     Some [(''phases'', AnyUint8 (gc_phases gc)), (''voltage'', AnyFloat32 (gc_voltage gc)),
           (''max_current_per_phase'', AnyFloat32 (gc_maxCurrentPerPhase gc)), (''max_total_power'', AnyUint32 total)] }"

definition NewGridConfig :: "float32 \<Rightarrow> float32 \<Rightarrow> uint8 \<Rightarrow> GridConfig result" where
  "NewGridConfig voltage maxCurrentPerPhase phases =
     (let gc0 = \<lparr>gc_voltage = f32_zero, gc_maxCurrentPerPhase = f32_zero, gc_phases = 0\<rparr> in
      case gc_SetVoltage voltage gc0 of
        (Some err, _) \<Rightarrow> Err err
      | (None, gc1) \<Rightarrow>
          (case setMaxCurrentPerPhase maxCurrentPerPhase gc1 of
             (Some err, _) \<Rightarrow> Err err
           | (None, gc2) \<Rightarrow>
               (case SetPhases phases gc2 of
                  (Some err, _) \<Rightarrow> Err err
                | (None, gc3) \<Rightarrow> Ok gc3)))"

section \<open>Grids, PV installations and systems\<close>

record GridBase =
  gb_flow :: EnergyFlowBase
  gb_gridConfig :: "GridConfig option"

record PvBase =
  pv_flow :: EnergyFlowBase

definition NewGrid :: "GridConfig option \<Rightarrow> GridBase" where
  "NewGrid gridConfig = \<lparr>gb_flow = newEnergyFlowBase, gb_gridConfig = gridConfig\<rparr>"

definition NewPv :: PvBase where
  "NewPv = \<lparr>pv_flow = newEnergyFlowBase\<rparr>"

text \<open>A grid without a configuration panics here.\<close>

definition gb_ToMap :: "GridBase \<Rightarrow> go_map option" where
  "gb_ToMap gb = do {
     gc \<leftarrow> gb_gridConfig gb;
     conf \<leftarrow> gc_ToMap gc;
     Some (AList.update ''config'' (AnyMap conf) (flow_ToMap (gb_flow gb))) }"

text \<open>
  The grid and the installations of a system are pointers to interfaces; \<open>None\<close> is a nil pointer or
  a nil slice.  The methods of the implementations are arguments.
\<close>

record ('g, 'v) System =
  sys_grid :: "'g option"
  sys_pvs :: "'v list option"

definition NewSystem :: "'g option \<Rightarrow> 'v list option \<Rightarrow> ('g, 'v) System" where
  "NewSystem grid pvs = \<lparr>sys_grid = grid, sys_pvs = pvs\<rparr>"

definition sys_ToMap :: "('g \<Rightarrow> go_map option) \<Rightarrow> ('v \<Rightarrow> go_map) \<Rightarrow> ('g, 'v) System \<Rightarrow> go_map option" where
  "sys_ToMap grid_ToMap pv_ToMap s = do {
     data1 \<leftarrow> (case sys_grid s of
        None \<Rightarrow> Some []
      | Some g \<Rightarrow> do { m \<leftarrow> grid_ToMap g; Some [(''grid'', AnyMap m)] });
     Some (case sys_pvs s of
        None \<Rightarrow> data1
      | Some pvs \<Rightarrow> AList.update ''pvs'' (AnyMaps (map (\<lambda>pv. AnyMap (pv_ToMap pv)) pvs)) data1) }"

section \<open>Flows\<close>

lemma fold_lines: "fold f [a, b, c] z = f c (f b (f a z))"
  by simp

lemma flow_ok_new: "flow_ok newEnergyFlowBase"
  by (simp add: flow_ok_def newEnergyFlowBase_def)

lemma flow_ok_set:
  assumes "flow_ok efb"
  shows "flow_ok (snd (SetPower ix x efb))" "flow_ok (snd (SetVoltage ix x efb))" "flow_ok (snd (SetCurrent ix x efb))"
  using assms by (simp_all add: flow_ok_def SetPower_def SetVoltage_def SetCurrent_def)

lemma f32_zero_fields [simp]: "f32_mag f32_zero = 0" "\<not> f32_neg f32_zero"
  by (simp_all add: f32_mag_def f32_neg_def)

text \<open>The number of phases is the highest line with a voltage.\<close>

lemma phasesFrom_spec:
  assumes "n \<le> 255"
  shows "unat (phasesFrom v n) \<le> n"
    and "\<And>k. unat (phasesFrom v n) \<le> k \<Longrightarrow> k < n \<Longrightarrow> f32_eq (v ! k) f32_zero"
    and "0 < unat (phasesFrom v n) \<Longrightarrow> \<not> f32_eq (v ! (unat (phasesFrom v n) - 1)) f32_zero"
proof -
  have "unat (phasesFrom v n) \<le> n \<and> (\<forall>k. unat (phasesFrom v n) \<le> k \<longrightarrow> k < n \<longrightarrow> f32_eq (v ! k) f32_zero)
    \<and> (0 < unat (phasesFrom v n) \<longrightarrow> \<not> f32_eq (v ! (unat (phasesFrom v n) - 1)) f32_zero)"
    using assms
  proof (induction n)
    case (Suc n)
    show ?case
    proof (cases "f32_eq (v ! n) f32_zero")
      case True
      with Suc show ?thesis by (auto simp: less_Suc_eq)
    next
      case False
      moreover have "unat (word_of_nat (Suc n) :: uint8) = Suc n"
        using Suc.prems unat_of_nat_eq [of "Suc n", where 'a = 8] by simp
      ultimately show ?thesis by simp
    qed
  qed simp
  then show "unat (phasesFrom v n) \<le> n"
    and "\<And>k. unat (phasesFrom v n) \<le> k \<Longrightarrow> k < n \<Longrightarrow> f32_eq (v ! k) f32_zero"
    and "0 < unat (phasesFrom v n) \<Longrightarrow> \<not> f32_eq (v ! (unat (phasesFrom v n) - 1)) f32_zero" by blast+
qed

section \<open>Limits as numbers\<close>

lemma limits_rat:
  "f32_finite MinVoltage" "f32_rat MinVoltage = 1" "f32_finite MaxVoltage" "f32_rat MaxVoltage = 600"
  "f32_finite MaxCurrentPerPhase" "f32_rat MaxCurrentPerPhase = 100"
  using f32_of_int_exact [of 1] f32_of_int_exact [of 600] f32_of_int_exact [of 100]
  by (simp_all add: MinVoltage_def MaxVoltage_def MaxCurrentPerPhase_def)

lemma min_current:
  "f32_finite MinCurrentPerPhase" "\<bar>f32_rat MinCurrentPerPhase - 1 / 10\<bar> \<le> 1 / 10 / 2 ^ 24" "0 < f32_rat MinCurrentPerPhase"
proof -
  have r: "f32_of_rat (1 / 10) = f32_round False (1 / 10)"
    by (simp add: f32_of_rat_def)
  note e = f32_round_error [of "1 / 10" False]
  show "f32_finite MinCurrentPerPhase" 
    unfolding MinCurrentPerPhase_def r by (rule e) simp_all
  have "\<bar>mag_rat (f32_mag (f32_round False (1 / 10))) - 1 / 10\<bar> \<le> max (1 / 10 / 2 ^ 24) (1 / 2 ^ 150)"
    by (rule e) simp_all
  moreover have "\<not> f32_neg (f32_round False (1 / 10))"
    using e(2) by simp
  ultimately show *: "\<bar>f32_rat MinCurrentPerPhase - 1 / 10\<bar> \<le> 1 / 10 / 2 ^ 24"
    unfolding MinCurrentPerPhase_def r by (simp add: f32_rat_def)
  have "1 / 10 - f32_rat MinCurrentPerPhase \<le> 1 / 10 / 2 ^ 24"
    using * unfolding abs_le_iff by simp
  then show "0 < f32_rat MinCurrentPerPhase" by simp
qed

lemma f32_mul_finite:
  assumes "f32_finite a" "f32_finite b" "0 \<le> f32_rat a" "0 \<le> f32_rat b" "f32_rat a * f32_rat b \<le> 2 ^ 100"
    and "0 < f32_rat a \<and> 0 < f32_rat b"
  shows "f32_finite (f32_mul a b)" "f32_rat (f32_mul a b) = mag_rat (f32_mag (f32_round False (f32_rat a * f32_rat b)))"
    "\<bar>f32_rat (f32_mul a b) - f32_rat a * f32_rat b\<bar> \<le> max (f32_rat a * f32_rat b / 2 ^ 24) (1 / 2 ^ 150)"
proof -
  have nn: "0 \<le> mag_rat m" for m
    using mag_rat_pos [of m] by (cases "m = 0") auto
  have sign: "\<not> f32_neg a" "\<not> f32_neg b"
    using assms(6) nn [of "f32_mag a"] nn [of "f32_mag b"] by (auto simp: f32_rat_def split: if_splits)
  have pos: "0 \<le> f32_rat a * f32_rat b" using assms(3,4) by simp
  have m: "f32_mul a b = f32_round False (f32_rat a * f32_rat b)"
    using assms(1,2) sign pos
    by (simp add: f32_mul_def Let_def f32_finite_def f32_nan_def f32_inf_def)
  note e = f32_round_error [OF pos assms(5), of False]
  show "f32_finite (f32_mul a b)" "f32_rat (f32_mul a b) = mag_rat (f32_mag (f32_round False (f32_rat a * f32_rat b)))"
    using e(1,2) by (simp_all add: m f32_rat_def)
  with e(3) show "\<bar>f32_rat (f32_mul a b) - f32_rat a * f32_rat b\<bar> \<le> max (f32_rat a * f32_rat b / 2 ^ 24) (1 / 2 ^ 150)"
    by simp
qed

text \<open>The products of accepted limits: between 0 and 60000 watts a phase.\<close>

lemma power_in_range:
  assumes "f32_finite c" "f32_finite v" "0 < f32_rat c" "f32_rat c \<le> 100" "1 \<le> f32_rat v" "f32_rat v \<le> 600"
  shows "\<exists>w. f32_to_uint32 (f32_mul c v) = Some w \<and> int (unat w) = \<lfloor>f32_rat (f32_mul c v)\<rfloor> \<and> unat w \<le> 60000"
    "\<bar>f32_rat (f32_mul c v) - f32_rat c * f32_rat v\<bar> \<le> max (f32_rat c * f32_rat v / 2 ^ 24) (1 / 2 ^ 150)"
proof -
  let ?p = "f32_rat c * f32_rat v" and ?w = "f32_rat (f32_mul c v)"
  have p: "?p \<le> 100 * 600" "0 \<le> ?p"
    using mult_mono [of "f32_rat c" 100 "f32_rat v" 600] assms by simp_all
  then have big: "?p \<le> 2 ^ 100" by simp
  have m: "f32_finite (f32_mul c v)" "?w = mag_rat (f32_mag (f32_round False ?p))"
    "\<bar>?w - ?p\<bar> \<le> max (?p / 2 ^ 24) (1 / 2 ^ 150)"
    using f32_mul_finite [OF assms(1,2) _ _ big] assms(3,5) by simp_all
  show "\<bar>?w - ?p\<bar> \<le> max (?p / 2 ^ 24) (1 / 2 ^ 150)" by (rule m(3))
  have "max (?p / 2 ^ 24) (1 / 2 ^ 150) \<le> 1 / 2"
    using p by (simp add: max_def)
  with m(3) p have w: "?w < 60001" by (simp add: abs_le_iff)
  have "0 \<le> ?w"
    unfolding m(2) using mag_rat_pos by (cases "f32_mag (f32_round False ?p) = 0") (auto intro: less_imp_le)
  with w have f: "0 \<le> \<lfloor>?w\<rfloor>" "\<lfloor>?w\<rfloor> \<le> 60000"
    by (simp, simp add: floor_le_iff)
  have "f32_to_uint32 (f32_mul c v) = Some (word_of_int \<lfloor>?w\<rfloor>)"
    using m(1) w \<open>0 \<le> ?w\<close> by (simp add: f32_to_uint32_def)
  moreover have "int (unat (word_of_int \<lfloor>?w\<rfloor> :: uint32)) = \<lfloor>?w\<rfloor>"
    using f by (simp add: uint_word_of_int_eq take_bit_int_eq_self)
  ultimately show "\<exists>w. f32_to_uint32 (f32_mul c v) = Some w \<and> int (unat w) = \<lfloor>?w\<rfloor> \<and> unat w \<le> 60000"
    using f by (intro exI [of _ "word_of_int \<lfloor>?w\<rfloor>"]) linarith
qed

section \<open>Properties\<close>

text \<open>
  The readings of a flow.  Setting a reading of a line keeps the arrays at three entries,
  changes that reading alone and reports exactly the lines from 3 on as errors, for which every
  reading is 0; the number of phases is the highest line whose voltage is not 0, or 0, whatever
  the lines below it hold.
\<close>

lemma flow_readings:
  assumes "flow_ok efb" "SetVoltage ix x efb = (err, efb')"
  shows "flow_ok efb' \<and> (err = None \<longleftrightarrow> unat ix < 3)
    \<and> (\<forall>k. flow_Voltage k efb' = (if unat ix < 3 \<and> k = ix then x else flow_Voltage k efb))
    \<and> (\<forall>k. flow_Power k efb' = flow_Power k efb \<and> flow_Current k efb' = flow_Current k efb)
    \<and> (\<forall>k. 3 \<le> unat k \<longrightarrow> flow_Voltage k efb' = f32_zero)
    \<and> unat (flow_Phases efb') \<le> 3
    \<and> (\<forall>k. unat (flow_Phases efb') \<le> unat k \<longrightarrow> unat k < 3 \<longrightarrow> f32_eq (flow_Voltage k efb') f32_zero)
    \<and> (0 < flow_Phases efb' \<longrightarrow> \<not> f32_eq (flow_Voltage (flow_Phases efb' - 1) efb') f32_zero)"
proof -
  have line: "validLineIx k \<longleftrightarrow> unat k < 3" for k
    by (simp add: validLineIx_def MaxPhases_def word_less_nat_alt)
  have efb': "err = None \<longleftrightarrow> unat ix < 3" "efb' = (if unat ix < 3 then efb\<lparr>efb_voltage := (efb_voltage efb)[unat ix := x]\<rparr> else efb)"
    using assms(2) by (auto simp: SetVoltage_def line split: if_splits)
  have ok: "flow_ok efb'"
    using flow_ok_set(2) [OF assms(1), of ix x] assms(2) by simp
  have len: "length (efb_voltage efb) = 3" using assms(1) by (simp add: flow_ok_def)
  have volt: "flow_Voltage k efb' = (if unat ix < 3 \<and> k = ix then x else flow_Voltage k efb)" for k
  proof (cases "unat ix < 3 \<and> unat k < 3")
    case True
    then show ?thesis
      using len by (cases "k = ix") (auto simp: flow_Voltage_def line efb'(2) nth_list_update word_unat_eq_iff)
  next
    case False
    then show ?thesis by (auto simp: flow_Voltage_def line efb'(2))
  qed
  have other: "flow_Power k efb' = flow_Power k efb \<and> flow_Current k efb' = flow_Current k efb" for k
    by (simp add: flow_Power_def flow_Current_def efb'(2))
  have ph: "flow_Phases efb' = phasesFrom (efb_voltage efb') 3"
    by (simp add: flow_Phases_def MaxPhases_def)
  note spec = phasesFrom_spec [of 3 "efb_voltage efb'", folded ph, simplified]
  have last: "\<not> f32_eq (flow_Voltage (flow_Phases efb' - 1) efb') f32_zero" if "0 < flow_Phases efb'"
  proof -
    have u: "0 < unat (flow_Phases efb')"
      using that by (simp add: word_less_nat_alt)
    have "1 \<le> flow_Phases efb'"
      using u by (simp add: word_le_nat_alt)
    from unat_sub [OF this] have "unat (flow_Phases efb' - 1) = unat (flow_Phases efb') - 1" by simp
    moreover have "unat (flow_Phases efb') - 1 < 3" using u spec(1) by simp
    ultimately show ?thesis
      using u spec(3) by (simp add: flow_Voltage_def line)
  qed
  have "\<forall>k. unat (flow_Phases efb') \<le> unat k \<longrightarrow> unat k < 3 \<longrightarrow> f32_eq (flow_Voltage k efb') f32_zero"
    using spec(2) by (simp add: flow_Voltage_def line)
  moreover have "\<forall>k. 3 \<le> unat k \<longrightarrow> flow_Voltage k efb' = f32_zero"
    by (simp add: flow_Voltage_def line)
  ultimately show ?thesis
    using ok efb'(1) volt other spec(1) last by simp
qed

lemma flow_readings_witness:
  "SetVoltage 2 (f32_of_int 230) newEnergyFlowBase = (None, snd (SetVoltage 2 (f32_of_int 230) newEnergyFlowBase))
   \<and> flow_Voltage 2 (snd (SetVoltage 2 (f32_of_int 230) newEnergyFlowBase)) = f32_of_int 230"
proof -
  have s: "SetVoltage 2 (f32_of_int 230) newEnergyFlowBase = (None, snd (SetVoltage 2 (f32_of_int 230) newEnergyFlowBase))"
    by (simp add: SetVoltage_def validLineIx_def MaxPhases_def)
  with flow_readings [OF flow_ok_new s] show ?thesis by simp
qed

text \<open>
  C40: the limits of a grid.  \<open>NewGridConfig\<close> accepts a voltage and a current that are not a number
  or lie within the documented limits, and 1 to 3 phases.  For numbers the maximum power of a phase
  is the whole part of the product of both, rounded to a float within a relative error of 2^-24
  (the product itself is at most 60000), and the total is that times the phases, without overflow.
\<close>

theorem grid_limits:
  "(case NewGridConfig v c phases of
      Inl _ \<Rightarrow> f32_less v MinVoltage \<or> f32_less MaxVoltage v \<or> f32_less c MinCurrentPerPhase
        \<or> f32_less MaxCurrentPerPhase c \<or> phases = 0 \<or> 3 < phases
    | Inr gc \<Rightarrow> gc = \<lparr>gc_voltage = v, gc_maxCurrentPerPhase = c, gc_phases = phases\<rparr> \<and> 1 \<le> unat phases \<and> unat phases \<le> 3
        \<and> (f32_nan v \<or> 1 \<le> f32_rat v \<and> f32_rat v \<le> 600)
        \<and> (f32_nan c \<or> f32_rat MinCurrentPerPhase \<le> f32_rat c \<and> f32_rat c \<le> 100)
        \<and> (if f32_nan v \<or> f32_nan c then MaxTotalPower gc = None
           else (\<exists>w. MaxTotalPower gc = Some w \<and> unat w \<le> 180000
             \<and> int (unat w) = int (unat phases) * \<lfloor>f32_rat (f32_mul c v)\<rfloor>)
             \<and> \<bar>f32_rat (f32_mul c v) - f32_rat c * f32_rat v\<bar> \<le> max (f32_rat c * f32_rat v / 2 ^ 24) (1 / 2 ^ 150)))"
proof (cases "NewGridConfig v c phases")
  case (Inl e)
  then show ?thesis
    by (auto simp: NewGridConfig_def Let_def gc_SetVoltage_def setMaxCurrentPerPhase_def SetPhases_def MinPhases_def MaxPhases_def
        word_less_nat_alt unat_eq_0 split: if_splits)
next
  case (Inr gc)
  then have ok: "\<not> f32_less v MinVoltage" "\<not> f32_less MaxVoltage v" "\<not> f32_less c MinCurrentPerPhase" "\<not> f32_less MaxCurrentPerPhase c"
    "1 \<le> unat phases" "unat phases \<le> 3" and gc: "gc = \<lparr>gc_voltage = v, gc_maxCurrentPerPhase = c, gc_phases = phases\<rparr>"
    by (auto simp: NewGridConfig_def Let_def gc_SetVoltage_def setMaxCurrentPerPhase_def SetPhases_def MinPhases_def MaxPhases_def
        word_less_nat_alt not_less split: if_splits)
  note vr = f32_between [OF limits_rat(1,3) _ ok(1,2), unfolded limits_rat]
  note cr = f32_between [OF min_current(1) limits_rat(5) _ ok(3,4), unfolded limits_rat]
  have total: "MaxTotalPower gc = None" if "f32_nan v \<or> f32_nan c"
  proof -
    have "f32_mul c v = f32_NaN" using that by (auto simp: f32_mul_def Let_def)
    moreover have "\<not> f32_finite f32_NaN"
      using f32_make_fields(1) [of "infMag + 2 ^ 22" False] by (simp add: f32_NaN_def f32_finite_def infMag_def)
    ultimately show ?thesis
      by (simp add: gc MaxTotalPower_def MaxPowerPerPhase_def f32_to_uint32_def)
  qed
  have "(\<exists>w. MaxTotalPower gc = Some w \<and> unat w \<le> 180000 \<and> int (unat w) = int (unat phases) * \<lfloor>f32_rat (f32_mul c v)\<rfloor>)
      \<and> \<bar>f32_rat (f32_mul c v) - f32_rat c * f32_rat v\<bar> \<le> max (f32_rat c * f32_rat v / 2 ^ 24) (1 / 2 ^ 150)"
    if num: "\<not> f32_nan v" "\<not> f32_nan c"
  proof -
    note v = vr [OF num(1)] and c = cr [OF num(2)]
    have "0 < f32_rat c" using min_current(3) c(2) by simp
    note p = power_in_range [OF c(1) v(1) this c(3) v(2,3)]
    obtain w where w: "f32_to_uint32 (f32_mul c v) = Some w" "int (unat w) = \<lfloor>f32_rat (f32_mul c v)\<rfloor>" "unat w \<le> 60000"
      using p(1) by blast
    have "unat w * unat phases \<le> 60000 * 3"
      using w(3) ok(6) by (rule mult_le_mono)
    moreover from this have total_unat: "unat (w * ucast phases) = unat w * unat phases"
      by (simp add: unat_word_ariths unat_ucast_up)
    ultimately have "int (unat (w * ucast phases)) = int (unat phases) * \<lfloor>f32_rat (f32_mul c v)\<rfloor>" "unat (w * ucast phases) \<le> 180000"
      unfolding total_unat of_nat_mult w(2) by simp_all
    moreover have "MaxTotalPower gc = Some (w * ucast phases)"
      using w(1) by (simp add: gc MaxTotalPower_def MaxPowerPerPhase_def)
    ultimately show ?thesis
      using p(2) by blast
  qed
  with Inr gc ok(5,6) vr cr total show ?thesis
    by auto
qed

end
