(* ===== verification/Modbus_System.thy ===== *)
theory Modbus_System
  imports Client_Config Energy_Flow
begin

text \<open>
  internal/energysource/ModbusSystem.go: systems whose grid and PV installations are read over
  Modbus.  The constructors, the reading of registers into a flow and the reading loop are functions over
  the client; the locale \<open>meter_updates\<close> is what the loop relies on of the updates that a kind of
  system brings.
\<close>

section \<open>Systems read over Modbus\<close>

text \<open>
  internal/energysource/ModbusSystem.go.  The embedded \<open>GridBase\<close> and \<open>PvBase\<close> are fields; the
  functions of a configuration take and return the state of the client and of the device.
  \<open>'m\<close> is the client.
\<close>

record modbusGrid =
  mg_GridBase :: GridBase
  mg_unitId :: uint8
  mg_meterCode :: string
  mg_meterType :: string

record modbusPv =
  mp_PvBase :: PvBase
  mp_unitId :: uint8
  mp_meterCode :: string
  mp_meterType :: string

record 'm ModbusGridConfig =
  mgc_unitId :: uint8
  mgc_initialize :: "('m \<Rightarrow> modbusGrid \<Rightarrow> (go_error option \<times> 'm \<times> modbusGrid) option) option"

record 'm ModbusPvConfig =
  mpc_unitId :: uint8
  mpc_initialize :: "('m \<Rightarrow> modbusPv \<Rightarrow> (go_error option \<times> 'm \<times> modbusPv) option) option"

text \<open>The configurations of the PV meters are a slice of pointers.\<close>

record 'm ModbusConfig =
  cfg_modbusUrl :: string
  cfg_modbusSpeed :: uint16
  cfg_timeout :: int
  cfg_gridConfig :: "GridConfig option"
  cfg_modbusGridConfig :: "'m ModbusGridConfig option"
  cfg_pvConfigs :: "'m ModbusPvConfig option list"
  cfg_updateGridValues :: "'m \<Rightarrow> modbusGrid \<Rightarrow> ('m \<times> modbusGrid) option"
  cfg_updatePvValues :: "'m \<Rightarrow> modbusPv \<Rightarrow> ('m \<times> modbusPv) option"

definition newModbusGrid ::
  "'m \<Rightarrow> GridConfig option \<Rightarrow> 'm ModbusGridConfig \<Rightarrow> (modbusGrid result \<times> 'm) option" where
  "newModbusGrid client gridConfig config =
     (let mg = \<lparr>mg_GridBase = NewGrid gridConfig, mg_unitId = mgc_unitId config, mg_meterCode = '''', mg_meterType = ''''\<rparr> in
      case mgc_initialize config of
        None \<Rightarrow> Some (Ok mg, client)
      | Some initialize \<Rightarrow> do {
          (err, client1, mg1) \<leftarrow> initialize client mg;
          Some (case err of Some e \<Rightarrow> (Err e, client1) | None \<Rightarrow> (Ok mg1, client1)) })"

text \<open>Reading a field of a \<open>nil\<close> configuration panics.\<close>

definition newModbusPv :: "'m \<Rightarrow> 'm ModbusPvConfig option \<Rightarrow> (modbusPv result \<times> 'm) option" where
  "newModbusPv client config = do {
     conf \<leftarrow> config;
     let mpv = \<lparr>mp_PvBase = NewPv, mp_unitId = mpc_unitId conf, mp_meterCode = '''', mp_meterType = ''''\<rparr>;
     (case mpc_initialize conf of
        None \<Rightarrow> Some (Ok mpv, client)
      | Some initialize \<Rightarrow> do {
          (err, client1, mpv1) \<leftarrow> initialize client mpv;
          Some (case err of Some e \<Rightarrow> (Err e, client1) | None \<Rightarrow> (Ok mpv1, client1)) }) }"

text \<open>The loop over the PV configurations; the slice of the installations stays \<open>nil\<close> when there are none.\<close>

fun newModbusPvs ::
  "'m ModbusPvConfig option list \<Rightarrow> 'm \<Rightarrow> modbusPv list option \<Rightarrow> (modbusPv list option result \<times> 'm) option" where
  "newModbusPvs [] client pvs = Some (Ok pvs, client)"
| "newModbusPvs (config # configs) client pvs = do {
     (r, client1) \<leftarrow> newModbusPv client config;
     (case r of
        Inl e \<Rightarrow> Some (Err e, client1)
      | Inr pv \<Rightarrow> newModbusPvs configs client1 (Some ((case pvs of None \<Rightarrow> [] | Some vs \<Rightarrow> vs) @ [pv]))) }"

text \<open>The configuration of the client; what it does not set has the zero value.\<close>

definition clientConfiguration :: "'m ModbusConfig \<Rightarrow> ('c, 'p) ClientConfiguration" where
  "clientConfiguration config =
     \<lparr>cc_URL = cfg_modbusUrl config,
      cc_Speed = (if 0 < cfg_modbusSpeed config then ucast (cfg_modbusSpeed config) else 0), cc_DataBits = 0,
      cc_Parity = 0, cc_StopBits = 0, cc_Timeout = cfg_timeout config, cc_TLSClientCert = None, cc_TLSRootCAs = None\<rparr>"

text \<open>
  \<open>connect\<close> is \<open>NewClient\<close> and \<open>Open\<close>, from the configuration of the client; the system comes with the
  client that the reading goroutine has.
\<close>

definition NewModbusSystem ::
  "(('c, 'p) ClientConfiguration \<Rightarrow> ('m result) option) \<Rightarrow> 'm ModbusConfig
    \<Rightarrow> ((modbusGrid, modbusPv) System \<times> 'm) result option" where
  "NewModbusSystem connect config = do {
     r \<leftarrow> connect (clientConfiguration config);
     (case r of
        Inl e \<Rightarrow> Some (Err e)
      | Inr client \<Rightarrow> do {
          (g, client1) \<leftarrow> (case cfg_modbusGridConfig config of
              None \<Rightarrow> Some (Ok None, client)
            | Some gridConf \<Rightarrow> map_option (apfst (map_sum id Some)) (newModbusGrid client (cfg_gridConfig config) gridConf));
          (case g of
             Inl e \<Rightarrow> Some (Err e)
           | Inr grid \<Rightarrow> do {
               (v, client2) \<leftarrow> newModbusPvs (cfg_pvConfigs config) client1 None;
               Some (case v of
                  Inl e \<Rightarrow> Err e
                | Inr pvs \<Rightarrow> Ok (NewSystem grid pvs, client2)) }) }) }"

text \<open>What a tick of \<open>readSystemValues\<close> does: the grid, then each installation.\<close>

fun readPvs :: "('m \<Rightarrow> modbusPv \<Rightarrow> ('m \<times> modbusPv) option) \<Rightarrow> 'm \<Rightarrow> modbusPv list \<Rightarrow> ('m \<times> modbusPv list) option" where
  "readPvs update client [] = Some (client, [])"
| "readPvs update client (pv # pvs) = do {
     (client1, pv1) \<leftarrow> update client pv;
     (client2, pvs1) \<leftarrow> readPvs update client1 pvs;
     Some (client2, pv1 # pvs1) }"

definition readSystemValues ::
  "'m ModbusConfig \<Rightarrow> 'm \<Rightarrow> (modbusGrid, modbusPv) System \<Rightarrow> ('m \<times> (modbusGrid, modbusPv) System) option" where
  "readSystemValues config client system = do {
     (client1, grid) \<leftarrow> (case sys_grid system of
         None \<Rightarrow> Some (client, None)
       | Some g \<Rightarrow> map_option (apsnd Some) (cfg_updateGridValues config client g));
     (client2, pvs) \<leftarrow> (case sys_pvs system of
         None \<Rightarrow> Some (client1, None)
       | Some vs \<Rightarrow> map_option (apsnd Some) (readPvs (cfg_updatePvValues config) client1 vs));
     Some (client2, \<lparr>sys_grid = grid, sys_pvs = pvs\<rparr>) }"

text \<open>
  The value of a register.  The result of a failed read is a \<open>nil\<close> slice, the empty list here: the
  slices of the client are built by appending to \<open>nil\<close>, so that the empty ones are \<open>nil\<close>.
\<close>

definition getValueFromRegisterResultArray :: "uint16 list \<Rightarrow> uint8 \<Rightarrow> float32 \<Rightarrow> float32 \<Rightarrow> float32 option" where
  "getValueFromRegisterResultArray values ix scaleFactor defaultValue =
     (if values = [] then Some defaultValue
      else do {
        register \<leftarrow> go_index values (unat ix);
        let value = f32_of_int (sint register);
        Some (if \<not> f32_eq scaleFactor f32_zero then f32_div value scaleFactor else value) })"

section \<open>Reading registers into a flow\<close>

text \<open>\<open>values, _ := client.ReadRegisters(addr, quantity, INPUT_REGISTER)\<close>\<close>

definition readInput ::
  "'t transport \<Rightarrow> uint16 \<Rightarrow> uint16 \<Rightarrow> ('c, 'p, 't) ModbusClient \<Rightarrow> (uint16 list \<times> ('c, 'p, 't) ModbusClient) option" where
  "readInput T addr quantity mc = do {
     (r, mc1) \<leftarrow> ReadRegisters T addr quantity INPUT_REGISTER mc;
     Some (case r of Inl _ \<Rightarrow> [] | Inr values \<Rightarrow> values, mc1) }"

text \<open>
  The statements \<open>_ = flow.SetVoltage(line, getValueFromRegisterResultArray(values, ix, scale, 0))\<close> and
  their like, as a list of what is set from which register with which scale.
\<close>

datatype reading = Volt | Amp | Watt

fun setReading :: "reading \<Rightarrow> uint8 \<Rightarrow> float32 \<Rightarrow> EnergyFlowBase \<Rightarrow> EnergyFlowBase" where
  "setReading Volt line x flow = snd (SetVoltage line x flow)"
| "setReading Amp line x flow = snd (SetCurrent line x flow)"
| "setReading Watt line x flow = snd (SetPower line x flow)"

fun setReadings :: "(reading \<times> uint8 \<times> uint8 \<times> int) list \<Rightarrow> uint16 list \<Rightarrow> EnergyFlowBase \<Rightarrow> EnergyFlowBase option" where
  "setReadings [] values flow = Some flow"
| "setReadings ((what, line, ix, scale) # rs) values flow = do {
     x \<leftarrow> getValueFromRegisterResultArray values ix (f32_of_int scale) f32_zero;
     setReadings rs values (setReading what line x flow) }"

text \<open>\<open>NewClient\<close> and \<open>Open\<close> as \<open>NewModbusSystem\<close> calls them.\<close>

definition connectClient ::
  "'q Port \<Rightarrow> 's rtuLink \<Rightarrow> ('c, 'p, 'q, 's) dialer \<Rightarrow> ('c, 'p) ClientConfiguration
    \<Rightarrow> ('c, 'p, ('q, 's) anyTransport) ModbusClient result option" where
  "connectClient P S D conf =
     (case NewClient conf of
        (Inl e, _) \<Rightarrow> Some (Err e)
      | (Inr _, mc) \<Rightarrow> do {
          (r, mc1) \<leftarrow> client_Open P S D mc;
          Some (case r of Inl e \<Rightarrow> Err e | Inr _ \<Rightarrow> Ok mc1) })"

text \<open>The closures that the configurations of both kinds of system are made of.\<close>

definition on_grid_flow ::
  "(EnergyFlowBase \<Rightarrow> ('m \<times> EnergyFlowBase) option) \<Rightarrow> modbusGrid \<Rightarrow> ('m \<times> modbusGrid) option" where
  "on_grid_flow update grid =
     map_option (apsnd (\<lambda>flow. grid\<lparr>mg_GridBase := (mg_GridBase grid)\<lparr>gb_flow := flow\<rparr>\<rparr>))
       (update (gb_flow (mg_GridBase grid)))"

definition on_pv_flow ::
  "(EnergyFlowBase \<Rightarrow> ('m \<times> EnergyFlowBase) option) \<Rightarrow> modbusPv \<Rightarrow> ('m \<times> modbusPv) option" where
  "on_pv_flow update pv =
     map_option (apsnd (\<lambda>flow. pv\<lparr>mp_PvBase := (mp_PvBase pv)\<lparr>pv_flow := flow\<rparr>\<rparr>)) (update (pv_flow (mp_PvBase pv)))"

text \<open>
  The loop that builds the configurations of the PV meters: it appends to a slice that
  \<open>make([]*ModbusPvConfig, len(pvUnitIds))\<close> has filled with \<open>nil\<close>.
\<close>

definition pvConfigs ::
  "('m \<Rightarrow> modbusPv \<Rightarrow> (go_error option \<times> 'm \<times> modbusPv) option) option \<Rightarrow> uint8 list \<Rightarrow> 'm ModbusPvConfig option list" where
  "pvConfigs initialize pvUnitIds =
     fold (\<lambda>unit configs. configs @ [Some \<lparr>mpc_unitId = unit, mpc_initialize = initialize\<rparr>]) pvUnitIds
       (replicate (length pvUnitIds) None)"

section \<open>Ticks\<close>

text \<open>The reading loop of a system over a number of ticks.\<close>

fun readTicks ::
  "nat \<Rightarrow> 'm ModbusConfig \<Rightarrow> 'm \<Rightarrow> (modbusGrid, modbusPv) System \<Rightarrow> ('m \<times> (modbusGrid, modbusPv) System) option" where
  "readTicks 0 config client system = Some (client, system)"
| "readTicks (Suc n) config client system = do {
     (client1, system1) \<leftarrow> readSystemValues config client system;
     readTicks n config client1 system1 }"

section \<open>Values of registers\<close>

text \<open>What a register stands for, and how near a float is to it.\<close>

definition register_value :: "uint16 list \<Rightarrow> nat \<Rightarrow> int \<Rightarrow> rat" where
  "register_value values ix scale =
     (if values = [] then 0 else of_int (sint (values ! ix)) / (if scale = 0 then 1 else of_int scale))"

definition reads_as :: "float32 \<Rightarrow> rat \<Rightarrow> bool" where
  "reads_as x r \<longleftrightarrow> f32_finite x \<and> \<bar>f32_rat x - r\<bar> \<le> \<bar>r\<bar> / 2 ^ 24"

lemma sint16_bound: "\<bar>sint (r :: uint16)\<bar> < 2 ^ 24"
  using sint_range_size [of r] by (simp add: word_size abs_less_iff)

lemma getValue_ok:
  assumes "values = [] \<or> unat ix < length values" "0 \<le> scale" "scale < 2 ^ 24"
  shows "\<exists>x. getValueFromRegisterResultArray values ix (f32_of_int scale) f32_zero = Some x
    \<and> reads_as x (register_value values (unat ix) scale)"
proof (cases "values = []")
  case True
  have "f32_rat f32_zero = 0" by (simp add: f32_rat_def)
  with True show ?thesis
    by (simp add: getValueFromRegisterResultArray_def register_value_def reads_as_def f32_finite_def infMag_def)
next
  case False
  with assms(1) have ix: "unat ix < length values" by simp
  let ?i = "sint (values ! unat ix)"
  have scale: "f32_eq (f32_of_int scale) f32_zero \<longleftrightarrow> scale = 0"
  proof -
    note s = f32_of_int_exact [of scale]
    have "f32_key (f32_of_int scale) = 0 \<longleftrightarrow> f32_mag (f32_of_int scale) = 0"
      by (simp add: f32_key_def)
    also have "\<dots> \<longleftrightarrow> f32_rat (f32_of_int scale) = 0"
      using mag_rat_pos [of "f32_mag (f32_of_int scale)"]
      by (cases "f32_mag (f32_of_int scale) = 0") (simp_all add: f32_rat_def)
    finally show ?thesis
      using s assms(2,3) by (simp add: f32_eq_def f32_nan_def f32_finite_def f32_key_def)
  qed
  show ?thesis
  proof (cases "scale = 0")
    case True
    with ix False scale f32_of_int_exact [OF sint16_bound, of "values ! unat ix"] show ?thesis
      by (simp add: getValueFromRegisterResultArray_def go_index_def register_value_def reads_as_def)
  next
    case scaled: False
    then have "0 < scale" using assms(2) by simp
    from f32_div_ints [OF sint16_bound this assms(3), of "values ! unat ix"] ix False scale scaled show ?thesis
      by (simp add: getValueFromRegisterResultArray_def go_index_def register_value_def reads_as_def)
  qed
qed

text \<open>Setting readings one after the other: each value comes from its register.\<close>

definition readings_ok :: "(reading \<times> uint8 \<times> uint8 \<times> int) list \<Rightarrow> uint16 list \<Rightarrow> bool" where
  "readings_ok rs values \<longleftrightarrow>
     (\<forall>(what, line, ix, scale)\<in>set rs. (values = [] \<or> unat ix < length values) \<and> 0 \<le> scale \<and> scale < 2 ^ 24)"

definition reading_of :: "reading \<Rightarrow> uint8 \<Rightarrow> EnergyFlowBase \<Rightarrow> float32" where
  "reading_of what line flow = (case what of Volt \<Rightarrow> flow_Voltage line flow | Amp \<Rightarrow> flow_Current line flow
     | Watt \<Rightarrow> flow_Power line flow)"

lemma validLineIx_iff: "validLineIx k \<longleftrightarrow> unat k < 3"
  by (simp add: validLineIx_def MaxPhases_def word_less_nat_alt)

lemma reading_of_set:
  assumes "flow_ok flow" "unat line < 3"
  shows "reading_of what k (setReading what' line x flow) = (if what = what' \<and> k = line then x else reading_of what k flow)"
proof -
  have "unat k = unat line \<longleftrightarrow> k = line" by (simp add: word_unat_eq_iff)
  with assms show ?thesis
    by (cases what; cases what')
      (auto simp: reading_of_def flow_Voltage_def flow_Current_def flow_Power_def SetVoltage_def SetCurrent_def SetPower_def
        validLineIx_iff flow_ok_def nth_list_update)
qed

lemma setReading_ok: "flow_ok flow \<Longrightarrow> flow_ok (setReading what line x flow)"
  by (cases what) (simp_all add: flow_ok_set)

lemma setReadings_ok:
  assumes "readings_ok rs values" "flow_ok flow" "\<forall>(what, line, ix, scale)\<in>set rs. unat line < 3"
  shows "\<exists>flow'. setReadings rs values flow = Some flow' \<and> flow_ok flow'
    \<and> (\<forall>what line. case map_of (rev (map (\<lambda>(what, line, ix, scale). ((what, line), (ix, scale))) rs)) (what, line) of
          None \<Rightarrow> reading_of what line flow' = reading_of what line flow
        | Some (ix, scale) \<Rightarrow> reads_as (reading_of what line flow') (register_value values (unat ix) scale))"
  using assms
proof (induction rs arbitrary: flow)
  case (Cons entry rs)
  obtain what line ix scale where e: "entry = (what, line, ix, scale)"
    by (metis surj_pair)
  have "values = [] \<or> unat ix < length values" "0 \<le> scale" "scale < 2 ^ 24"
    using Cons.prems(1) by (simp_all add: readings_ok_def e)
  from getValue_ok [OF this] obtain x where x: "getValueFromRegisterResultArray values ix (f32_of_int scale) f32_zero = Some x"
    "reads_as x (register_value values (unat ix) scale)"
    by blast
  let ?flow = "setReading what line x flow"
  have "readings_ok rs values" "flow_ok ?flow" "\<forall>(what, line, ix, scale)\<in>set rs. unat line < 3" "unat line < 3"
    using Cons.prems by (auto simp: readings_ok_def e setReading_ok)
  from Cons.IH [OF this(1-3)] obtain flow' where flow': "setReadings rs values ?flow = Some flow'" "flow_ok flow'"
    "\<forall>what line. case map_of (rev (map (\<lambda>(what, line, ix, scale). ((what, line), (ix, scale))) rs)) (what, line) of
        None \<Rightarrow> reading_of what line flow' = reading_of what line ?flow
      | Some (ix, scale) \<Rightarrow> reads_as (reading_of what line flow') (register_value values (unat ix) scale)"
    by blast
  have "case map_of (rev (map (\<lambda>(what, line, ix, scale). ((what, line), (ix, scale))) (entry # rs))) (w, l) of
        None \<Rightarrow> reading_of w l flow' = reading_of w l flow
      | Some (ix, scale) \<Rightarrow> reads_as (reading_of w l flow') (register_value values (unat ix) scale)" for w l
    using flow'(3) [rule_format, of w l] x(2) reading_of_set [OF Cons.prems(2) \<open>unat line < 3\<close>, of w l what x]
    by (auto simp: e map_add_def split: option.splits if_splits)
  with x(1) flow'(1,2) e show ?case by auto
qed simp

section \<open>Reading a meter\<close>

declare setReadings.simps [simp del]

lemma three_lines: "(\<forall>line < (3 :: uint8). P line) \<longleftrightarrow> P 0 \<and> P 1 \<and> P 2"
proof -
  have "line = 0 \<or> line = 1 \<or> line = 2" if "line < 3" for line :: uint8
  proof -
    have "unat line < 3" using that by (simp add: word_less_nat_alt)
    then have "unat line = unat (0 :: uint8) \<or> unat line = unat (1 :: uint8) \<or> unat line = unat (2 :: uint8)" by auto
    then show ?thesis unfolding word_unat_eq_iff .
  qed
  then show ?thesis by auto
qed

lemma reads_as_bound:
  assumes "reads_as x r" "\<bar>r\<bar> \<le> b"
  shows "\<bar>f32_rat x\<bar> \<le> b + b / 2 ^ 24"
proof -
  have "\<bar>f32_rat x - r\<bar> \<le> \<bar>r\<bar> / 2 ^ 24" "\<bar>r\<bar> / 2 ^ 24 \<le> b / 2 ^ 24"
    using assms divide_right_mono [OF assms(2), of "2 ^ 24"] by (simp_all add: reads_as_def)
  then show ?thesis using assms(2) by linarith
qed

lemma register_value_bound:
  assumes "0 < scale"
  shows "\<bar>register_value values ix scale\<bar> \<le> 32768 / of_int scale"
proof (cases "values = []")
  case False
  have "\<bar>sint (values ! ix)\<bar> \<le> 32768"
    using sint_range_size [of "values ! ix"] by (auto simp: word_size)
  then have "of_int \<bar>sint (values ! ix)\<bar> \<le> (of_int 32768 :: rat)"
    by (rule of_int_le_iff [THEN iffD2])
  then have "\<bar>of_int (sint (values ! ix)) :: rat\<bar> \<le> 32768" by simp
  from divide_right_mono [OF this, of "of_int scale"] assms False show ?thesis
    by (simp add: register_value_def abs_divide)
qed (use assms in \<open>simp add: register_value_def\<close>)

text \<open>The readings of a flow after a list of readings was set: each from its register, the others unchanged.\<close>

definition sets_from ::
  "(reading \<times> uint8 \<times> uint8 \<times> int) list \<Rightarrow> uint16 list \<Rightarrow> EnergyFlowBase \<Rightarrow> EnergyFlowBase \<Rightarrow> bool" where
  "sets_from rs values flow flow' \<longleftrightarrow>
     (\<forall>what line. case map_of (rev (map (\<lambda>(what, line, ix, scale). ((what, line), (ix, scale))) rs)) (what, line) of
        None \<Rightarrow> reading_of what line flow' = reading_of what line flow
      | Some (ix, scale) \<Rightarrow> reads_as (reading_of what line flow') (register_value values (unat ix) scale))"

lemma sets_from_at: "sets_from rs values flow flow' \<Longrightarrow>
    case map_of (rev (map (\<lambda>(what, line, ix, scale). ((what, line), (ix, scale))) rs)) (what, line) of
      None \<Rightarrow> reading_of what line flow' = reading_of what line flow
    | Some (ix, scale) \<Rightarrow> reads_as (reading_of what line flow') (register_value values (unat ix) scale)"
  by (simp only: sets_from_def)

text \<open>A reading of one of the \<open>n\<close> registers read into one of the three lines.\<close>

fun reading_fits :: "uint16 \<Rightarrow> reading \<times> uint8 \<times> uint8 \<times> int \<Rightarrow> bool" where
  "reading_fits n (what, line, ix, scale) \<longleftrightarrow> unat line < 3 \<and> unat ix < unat n \<and> 0 \<le> scale \<and> scale < 2 ^ 24"

lemma client_inv_SetUnitId: "client_inv tinv mc \<Longrightarrow> client_inv tinv (SetUnitId unit mc)"
  by (simp add: client_inv_def SetUnitId_def)

text \<open>Readings that a register can hold: numbers, and small ones, which the totals of three lines are too.\<close>

definition flow_fine :: "EnergyFlowBase \<Rightarrow> bool" where
  "flow_fine flow \<longleftrightarrow> flow_ok flow
     \<and> (\<forall>what line. f32_finite (reading_of what line flow) \<and> \<bar>f32_rat (reading_of what line flow)\<bar> \<le> 2 ^ 16)"

lemma flow_fine_ok: "flow_fine flow \<Longrightarrow> flow_ok flow"
  by (simp add: flow_fine_def)

lemma flow_fine_new: "flow_fine newEnergyFlowBase"
proof -
  have "reading_of what line newEnergyFlowBase = f32_zero" for what line
    by (cases what) (simp_all add: reading_of_def newEnergyFlowBase_def flow_Voltage_def flow_Current_def flow_Power_def validLineIx_iff)
  then show ?thesis
    by (simp add: flow_fine_def flow_ok_new f32_finite_def infMag_def f32_rat_def)
qed

lemma register_reads_fine:
  assumes "reads_as x (register_value vs ix scale)" "0 \<le> scale"
  shows "f32_finite x \<and> \<bar>f32_rat x\<bar> \<le> 2 ^ 16"
proof -
  have "\<bar>register_value vs ix scale\<bar> \<le> 32768"
  proof (cases "0 < scale")
    case True
    then have "1 \<le> scale" by simp
    then have "of_int 1 \<le> (of_int scale :: rat)" by (rule of_int_le_iff [THEN iffD2])
    then have "(32768 :: rat) / of_int scale \<le> 32768" by (simp add: divide_le_eq)
    with register_value_bound [OF True, of vs ix] show ?thesis by linarith
  next
    case False
    with assms(2) have "register_value vs ix scale = register_value vs ix 1" by (simp add: register_value_def)
    with register_value_bound [of 1 vs ix] show ?thesis by simp
  qed
  from reads_as_bound [OF assms(1) this] assms(1) show ?thesis by (simp add: reads_as_def)
qed

lemma sets_from_fine:
  assumes "flow_fine flow" "flow_ok flow'" "sets_from rs vs flow flow'" "list_all (reading_fits n) rs"
  shows "flow_fine flow'"
proof -
  have "f32_finite (reading_of what line flow') \<and> \<bar>f32_rat (reading_of what line flow')\<bar> \<le> 2 ^ 16" for what line
  proof (cases "map_of (rev (map (\<lambda>(what, line, ix, scale). ((what, line), (ix, scale))) rs)) (what, line)")
    case None
    with sets_from_at [OF assms(3), of what line] assms(1) show ?thesis by (simp add: flow_fine_def)
  next
    case (Some entry)
    obtain ix scale where e: "entry = (ix, scale)" by (rule prod.exhaust)
    with Some map_of_SomeD [OF Some] assms(4) have "0 \<le> scale" by (auto simp: list_all_iff)
    moreover have "reads_as (reading_of what line flow') (register_value vs (unat ix) scale)"
      using sets_from_at [OF assms(3), of what line] Some e by simp
    ultimately show ?thesis by (rule register_reads_fine [rotated])
  qed
  with assms(2) show ?thesis by (simp add: flow_fine_def)
qed

context transport_contract begin

lemma readInput_back:
  assumes "client_inv tinv mc"
  obtains vs mc1 where "readInput T addr n mc = Some (vs, mc1)" "client_inv tinv mc1"
    "vs = [] \<or> length vs = unat n"
proof -
  obtain t where t: "mc_transport mc = Some t" "tinv t" and v: "valid_encoding (mc_endianness mc) (mc_wordOrder mc)"
    using assms by (auto simp: client_inv_def)
  have "ok_call t mc (ReadRegisters T addr n INPUT_REGISTER mc)"
    by (rule typed_back(1) [OF t v])
  then obtain r mc1 where r: "ReadRegisters T addr n INPUT_REGISTER mc = Some (r, mc1)" and inv: "client_inv tinv mc1"
    using v by (auto simp: comes_back_def client_inv_def)
  have "length us = unat n" if "r = Ok us" for us
    using typed_read_lengths(1) [OF v] r that by simp
  with r inv that show thesis
    by (cases r) (auto simp: readInput_def)
qed

text \<open>A read and the statements after it, as one step.\<close>

lemma readInput_set:
  assumes "client_inv tinv mc" "flow_fine flow"
    and "list_all (reading_fits n) rs"
  shows "\<exists>vs mc1 flow1. readInput T addr n mc = Some (vs, mc1) \<and> client_inv tinv mc1
    \<and> setReadings rs vs flow = Some flow1 \<and> flow_fine flow1 \<and> sets_from rs vs flow flow1"
proof -
  obtain vs mc1 where r: "readInput T addr n mc = Some (vs, mc1)" "client_inv tinv mc1"
    "vs = [] \<or> length vs = unat n"
    by (rule readInput_back [OF assms(1)])
  have "readings_ok rs vs" "\<forall>(what, line, ix, scale)\<in>set rs. unat line < 3"
    using assms(3) r(3) by (auto simp: readings_ok_def list_all_iff)
  from setReadings_ok [OF this(1) flow_fine_ok [OF assms(2)] this(2)]
  obtain flow1 where "setReadings rs vs flow = Some flow1" "flow_ok flow1" "sets_from rs vs flow flow1"
    by (auto simp: sets_from_def)
  with r sets_from_fine [OF assms(2) this(2,3) assms(3)] show ?thesis by blast
qed

end

section \<open>Systems\<close>

definition system_ok :: "(modbusGrid, modbusPv) System \<Rightarrow> bool" where
  "system_ok s \<longleftrightarrow> pred_option (\<lambda>g. flow_fine (gb_flow (mg_GridBase g))) (sys_grid s)
     \<and> pred_option (list_all (\<lambda>pv. flow_fine (pv_flow (mp_PvBase pv)))) (sys_pvs s)"

text \<open>What an update of a grid or an installation may change: its flow.\<close>

definition same_grid :: "modbusGrid \<Rightarrow> modbusGrid \<Rightarrow> bool" where
  "same_grid g g' \<longleftrightarrow> (\<exists>flow. g' = g\<lparr>mg_GridBase := (mg_GridBase g)\<lparr>gb_flow := flow\<rparr>\<rparr>)"

definition same_pv :: "modbusPv \<Rightarrow> modbusPv \<Rightarrow> bool" where
  "same_pv p p' \<longleftrightarrow> (\<exists>flow. p' = p\<lparr>mp_PvBase := (mp_PvBase p)\<lparr>pv_flow := flow\<rparr>\<rparr>)"

definition same_system :: "(modbusGrid, modbusPv) System \<Rightarrow> (modbusGrid, modbusPv) System \<Rightarrow> bool" where
  "same_system s s' \<longleftrightarrow> rel_option same_grid (sys_grid s) (sys_grid s')
     \<and> rel_option (list_all2 same_pv) (sys_pvs s) (sys_pvs s')"

lemma same_refl [simp]: "same_grid g g" "same_pv p p"
  by (auto simp: same_grid_def same_pv_def intro: exI [of _ "gb_flow (mg_GridBase g)"] exI [of _ "pv_flow (mp_PvBase p)"])

lemma same_trans:
  "same_grid g1 g2 \<Longrightarrow> same_grid g2 g3 \<Longrightarrow> same_grid g1 g3" "same_pv p1 p2 \<Longrightarrow> same_pv p2 p3 \<Longrightarrow> same_pv p1 p3"
  by (auto simp: same_grid_def same_pv_def)

lemma same_pvs_trans: "list_all2 same_pv ps qs \<Longrightarrow> list_all2 same_pv qs rs \<Longrightarrow> list_all2 same_pv ps rs"
  by (simp add: list_all2_conv_all_nth) (metis same_trans(2))

lemma same_system_refl: "same_system s s"
  by (simp add: same_system_def option.rel_refl list.rel_refl)

lemma same_system_trans: "same_system s1 s2 \<Longrightarrow> same_system s2 s3 \<Longrightarrow> same_system s1 s3"
  unfolding same_system_def
  by (auto elim!: option.rel_cases intro: same_trans same_pvs_trans)

text \<open>What the reading loop relies on: updates come back, and change nothing but a flow.\<close>

locale meter_updates =
  fixes config :: "'m ModbusConfig" and minv :: "'m \<Rightarrow> bool"
  assumes grid_back: "minv m \<Longrightarrow> flow_fine (gb_flow (mg_GridBase g)) \<Longrightarrow>
      \<exists>m' g'. cfg_updateGridValues config m g = Some (m', g') \<and> minv m' \<and> flow_fine (gb_flow (mg_GridBase g')) \<and> same_grid g g'"
    and pv_back: "minv m \<Longrightarrow> flow_fine (pv_flow (mp_PvBase p)) \<Longrightarrow>
      \<exists>m' p'. cfg_updatePvValues config m p = Some (m', p') \<and> minv m' \<and> flow_fine (pv_flow (mp_PvBase p')) \<and> same_pv p p'"

context meter_updates begin

lemma readPvs_ok:
  assumes "minv m" "list_all (\<lambda>pv. flow_fine (pv_flow (mp_PvBase pv))) pvs"
  shows "\<exists>m' pvs'. readPvs (cfg_updatePvValues config) m pvs = Some (m', pvs') \<and> minv m'
    \<and> list_all (\<lambda>pv. flow_fine (pv_flow (mp_PvBase pv))) pvs' \<and> list_all2 same_pv pvs pvs'"
  using assms
proof (induction pvs arbitrary: m)
  case (Cons pv pvs)
  then obtain m1 pv1 where 1: "cfg_updatePvValues config m pv = Some (m1, pv1)" "minv m1" "flow_fine (pv_flow (mp_PvBase pv1))" "same_pv pv pv1"
    using pv_back [of m pv] by auto
  with Cons.IH [of m1] Cons.prems show ?case by fastforce
qed simp

lemma readSystemValues_ok:
  assumes "minv m" "system_ok s"
  shows "\<exists>m' s'. readSystemValues config m s = Some (m', s') \<and> minv m' \<and> system_ok s' \<and> same_system s s'"
proof -
  obtain m1 grid where g: "(case sys_grid s of None \<Rightarrow> Some (m, None)
       | Some g \<Rightarrow> map_option (apsnd Some) (cfg_updateGridValues config m g)) = Some (m1, grid)" "minv m1"
    "pred_option (\<lambda>g. flow_fine (gb_flow (mg_GridBase g))) grid" "rel_option same_grid (sys_grid s) grid"
  proof (cases "sys_grid s")
    case (Some g)
    then obtain m1 g1 where "cfg_updateGridValues config m g = Some (m1, g1)" "minv m1"
      "flow_fine (gb_flow (mg_GridBase g1))" "same_grid g g1"
      using grid_back [of m g] assms by (auto simp: system_ok_def)
    with Some that show thesis by simp
  qed (use assms(1) that in simp)
  obtain m2 pvs where p: "(case sys_pvs s of None \<Rightarrow> Some (m1, None)
       | Some vs \<Rightarrow> map_option (apsnd Some) (readPvs (cfg_updatePvValues config) m1 vs)) = Some (m2, pvs)" "minv m2"
    "pred_option (list_all (\<lambda>pv. flow_fine (pv_flow (mp_PvBase pv)))) pvs" "rel_option (list_all2 same_pv) (sys_pvs s) pvs"
  proof (cases "sys_pvs s")
    case (Some vs)
    then obtain m2 vs' where "readPvs (cfg_updatePvValues config) m1 vs = Some (m2, vs')" "minv m2"
      "list_all (\<lambda>pv. flow_fine (pv_flow (mp_PvBase pv))) vs'" "list_all2 same_pv vs vs'"
      using readPvs_ok [OF g(2), of vs] assms(2) by (auto simp: system_ok_def)
    with Some that show thesis by simp
  qed (use g(2) that in simp)
  show ?thesis
    using g p by (simp add: readSystemValues_def system_ok_def same_system_def)
qed

lemma readTicks_ok:
  assumes "minv m" "system_ok s"
  shows "\<exists>m' s'. readTicks n config m s = Some (m', s') \<and> minv m' \<and> system_ok s' \<and> same_system s s'"
  using assms
proof (induction n arbitrary: m s)
  case (Suc n)
  from readSystemValues_ok [OF Suc.prems] Suc.IH show ?case
    by (fastforce intro: same_system_trans)
qed (simp add: same_system_refl)

end

section \<open>PV configurations\<close>

lemma pvConfigs_eq:
  "pvConfigs initialize us = replicate (length us) None @ map (\<lambda>unit. Some \<lparr>mpc_unitId = unit, mpc_initialize = initialize\<rparr>) us"
proof -
  have "fold (\<lambda>unit configs. configs @ [Some \<lparr>mpc_unitId = unit, mpc_initialize = initialize\<rparr>]) vs acc
      = acc @ map (\<lambda>unit. Some \<lparr>mpc_unitId = unit, mpc_initialize = initialize\<rparr>) vs" for vs acc
    by (induction vs arbitrary: acc) simp_all
  then show ?thesis by (simp add: pvConfigs_def)
qed

lemma newModbusPvs_nil:
  assumes "us \<noteq> []"
  shows "newModbusPvs (pvConfigs initialize us) client pvs = None"
  using assms by (cases us) (simp_all add: pvConfigs_eq newModbusPv_def)

end
