(* ===== verification/Meters.thy ===== *)
theory Meters
  imports Modbus_System
begin

text \<open>
  internal/energysource: the two kinds of system, with Carlo Gavazzi meters (CarloGavazzi.go) or a
  Victron GX device (Victron.go): the initialization of a meter, the updates of its readings and the
  constructors, over any client whose transport comes back (\<open>transport_contract\<close>).
\<close>

section \<open>Carlo Gavazzi meters\<close>

definition em24FrontSelectorRegister :: uint16 where "em24FrontSelectorRegister = 0x0304"
definition em24ApplicationRegister :: uint16 where "em24ApplicationRegister = 0x1101"
definition em24ApplicationH :: uint16 where "em24ApplicationH = 7"

record carloGavazziMeter =
  cg_meterCode :: string
  cg_meterType :: string

definition meterTypes :: "(uint16 \<times> string) list" where
  "meterTypes = [(71, ''EM24-DIN AV''), (72, ''EM24-DIN AV5''), (73, ''EM24-DIN AV6''), (100, ''EM110-DIN AV7 1 x S1''),
     (101, ''EM111-DIN AV7 1 x S1''), (102, ''EM112-DIN AV1 1 x S1''), (103, ''EM111-DIN AV8 1 x S1''),
     (104, ''EM112-DIN AV0 1 x S1''), (110, ''EM110-DIN AV8 1 x S1''), (114, ''EM111-DIN AV5 1 X S1 X''),
     (120, ''ET112-DIN AV0 1 x S1 X''), (121, ''ET112-DIN AV1 1 x S1 X''), (331, ''EM330-DIN AV6 3''),
     (332, ''EM330-DIN AV5 3''), (335, ''ET330-DIN AV5 3''), (336, ''ET330-DIN AV6 3''), (340, ''EM340-DIN AV2 3 X S1 X''),
     (341, ''EM340-DIN AV2 3 X S1''), (345, ''ET340-DIN AV2 3 X S1 X''), (346, ''EM341-DIN AV2 3 X OS X''),
     (1744, ''EM530-DIN AV5 3 X S1 X''), (1745, ''EM530-DIN AV5 3 X S1 PF A''), (1746, ''EM530-DIN AV5 3 X S1 PF B''),
     (1747, ''EM530-DIN AV5 3 X S1 PF C''), (1760, ''EM540-DIN AV2 3 X S1 X''), (1761, ''EM540-DIN AV2 3 X S1 PF A''),
     (1762, ''EM540-DIN AV2 3 X S1 PF B''), (1763, ''EM540-DIN AV2 3 X S1 PF C'')]"

text \<open>
  \<open>initialize\<close>: reads the model and, on an EM24, switches the meter to application H unless it is
  already there or its front selector is locked.
\<close>

definition cg_initialize ::
  "'t transport \<Rightarrow> uint8 \<Rightarrow> carloGavazziMeter \<Rightarrow> ('c, 'p, 't) ModbusClient
    \<Rightarrow> (go_error option \<times> carloGavazziMeter \<times> ('c, 'p, 't) ModbusClient) option" where
  "cg_initialize T unit c mc = do {
     let mc0 = SetUnitId unit mc;
     (r, mc1) \<leftarrow> ReadRegister T 0x000B INPUT_REGISTER mc0;
     (case r of
        Inl e \<Rightarrow> Some (Some e, c, mc1)
      | Inr meterType \<Rightarrow> do {
          let c1 = c\<lparr>cg_meterCode := decimal (unat meterType),
                cg_meterType := (case map_of meterTypes meterType of
                    Some name \<Rightarrow> name | None \<Rightarrow> ''Carlo Gavazzo '' @ decimal (unat meterType))\<rparr>;
          (if 71 \<le> meterType \<and> meterType \<le> 73 then do {
             (r, mc2) \<leftarrow> ReadRegister T em24ApplicationRegister INPUT_REGISTER mc1;
             (case r of
                Inl e \<Rightarrow> Some (Some e, c1, mc2)
              | Inr application \<Rightarrow>
                  if application \<noteq> em24ApplicationH then do {
                    (r, mc3) \<leftarrow> ReadRegister T em24FrontSelectorRegister INPUT_REGISTER mc2;
                    (case r of
                       Inl e \<Rightarrow> Some (Some e, c1, mc3)
                     | Inr frontSelector \<Rightarrow>
                         if frontSelector = 3 then Some (None, c1, mc3)
                         else do {
                           (r, mc4) \<leftarrow> WriteRegister T em24ApplicationRegister em24ApplicationH mc3;
                           Some (case r of Inl e \<Rightarrow> Some e | Inr _ \<Rightarrow> None, c1, mc4) }) }
                  else Some (None, c1, mc2)) }
           else Some (None, c1, mc1)) }) }"

text \<open>\<open>strconv.Atoi\<close>, its error ignored: 0 for what is no number, the bounds of \<open>int\<close> beyond them.\<close>

definition isDigit :: "char \<Rightarrow> bool" where
  "isDigit ch \<longleftrightarrow> 48 \<le> (of_char ch :: nat) \<and> (of_char ch :: nat) \<le> 57"

definition digits_value :: "string \<Rightarrow> int" where
  "digits_value s = foldl (\<lambda>n ch. 10 * n + (int (of_char ch) - 48)) 0 s"

definition strconv_Atoi :: "string \<Rightarrow> int" where
  "strconv_Atoi s =
     (let neg = (s \<noteq> [] \<and> hd s = CHR ''-'');
          ds = (if s \<noteq> [] \<and> (hd s = CHR ''-'' \<or> hd s = CHR ''+'') then tl s else s)
      in if ds = [] \<or> \<not> list_all isDigit ds then 0
         else if neg then max (- (2 ^ 63)) (- digits_value ds) else min (2 ^ 63 - 1) (digits_value ds))"

definition threePhase :: "carloGavazziMeter \<Rightarrow> bool" where
  "threePhase c \<longleftrightarrow> strconv_Atoi (cg_meterCode c) \<in>
     {71, 72, 73, 331, 332, 335, 336, 340, 341, 345, 346, 1744, 1745, 1746, 1747, 1760, 1761, 1762, 1763}"

definition cg_updateValues ::
  "'t transport \<Rightarrow> uint8 \<Rightarrow> carloGavazziMeter \<Rightarrow> ('c, 'p, 't) ModbusClient \<Rightarrow> EnergyFlowBase
    \<Rightarrow> (('c, 'p, 't) ModbusClient \<times> EnergyFlowBase) option" where
  "cg_updateValues T unit c mc flow = do {
     let mc0 = SetUnitId unit mc;
     (if threePhase c then do {
        (values, mc1) \<leftarrow> readInput T 0 5 mc0;
        flow1 \<leftarrow> setReadings [(Volt, 0, 0, 10), (Volt, 1, 2, 10), (Volt, 2, 4, 10)] values flow;
        (values, mc2) \<leftarrow> readInput T 12 11 mc1;
        flow2 \<leftarrow> setReadings [(Amp, 0, 0, 1000), (Amp, 1, 2, 1000), (Amp, 2, 4, 1000),
                   (Watt, 0, 6, 10), (Watt, 1, 8, 10), (Watt, 2, 10, 10)] values flow1;
        Some (mc2, flow2) }
      else do {
        (values, mc1) \<leftarrow> readInput T 0 5 mc0;
        flow1 \<leftarrow> setReadings [(Volt, 0, 0, 10), (Amp, 0, 2, 1000), (Watt, 0, 4, 10)] values flow;
        Some (mc1, flow1) }) }"

definition cg_updateGridValues ::
  "'t transport \<Rightarrow> ('c, 'p, 't) ModbusClient \<Rightarrow> modbusGrid \<Rightarrow> (('c, 'p, 't) ModbusClient \<times> modbusGrid) option" where
  "cg_updateGridValues T client grid =
     (if mg_unitId grid \<le> 0 then Some (client, grid)
      else on_grid_flow (cg_updateValues T (mg_unitId grid)
             \<lparr>cg_meterCode = mg_meterCode grid, cg_meterType = ''''\<rparr> client) grid)"

definition cg_updatePvValues ::
  "'t transport \<Rightarrow> ('c, 'p, 't) ModbusClient \<Rightarrow> modbusPv \<Rightarrow> (('c, 'p, 't) ModbusClient \<times> modbusPv) option" where
  "cg_updatePvValues T client pv =
     (if mp_unitId pv \<le> 0 then Some (client, pv)
      else on_pv_flow (cg_updateValues T (mp_unitId pv)
             \<lparr>cg_meterCode = mp_meterCode pv, cg_meterType = ''''\<rparr> client) pv)"

definition cg_initGrid ::
  "'t transport \<Rightarrow> ('c, 'p, 't) ModbusClient \<Rightarrow> modbusGrid
    \<Rightarrow> (go_error option \<times> ('c, 'p, 't) ModbusClient \<times> modbusGrid) option" where
  "cg_initGrid T client grid = do {
     (err, c, client1) \<leftarrow> cg_initialize T (mg_unitId grid) \<lparr>cg_meterCode = '''', cg_meterType = ''''\<rparr> client;
     Some (case err of
        Some e \<Rightarrow> (Some e, client1, grid)
      | None \<Rightarrow> (None, client1, grid\<lparr>mg_meterCode := cg_meterCode c, mg_meterType := cg_meterType c\<rparr>)) }"

definition cg_initPv ::
  "'t transport \<Rightarrow> ('c, 'p, 't) ModbusClient \<Rightarrow> modbusPv
    \<Rightarrow> (go_error option \<times> ('c, 'p, 't) ModbusClient \<times> modbusPv) option" where
  "cg_initPv T client pv = do {
     (err, c, client1) \<leftarrow> cg_initialize T (mp_unitId pv) \<lparr>cg_meterCode = '''', cg_meterType = ''''\<rparr> client;
     Some (case err of
        Some e \<Rightarrow> (Some e, client1, pv)
      | None \<Rightarrow> (None, client1, pv\<lparr>mp_meterCode := cg_meterCode c, mp_meterType := cg_meterType c\<rparr>)) }"

text \<open>
  The configuration of a system and the system; a \<open>nil\<close> slice of units and an empty one both lead to
  no configurations.
\<close>

definition carloGavazziConfig ::
  "'t transport \<Rightarrow> string \<Rightarrow> GridConfig option \<Rightarrow> uint8 option \<Rightarrow> uint8 list \<Rightarrow> ('c, 'p, 't) ModbusClient ModbusConfig" where
  "carloGavazziConfig T modbusUrl gridConfig gridUnitId pvUnitIds =
     \<lparr>cfg_modbusUrl = modbusUrl, cfg_modbusSpeed = 9600, cfg_timeout = 500 * 1000000, cfg_gridConfig = gridConfig,
      cfg_modbusGridConfig = map_option (\<lambda>unit. \<lparr>mgc_unitId = unit, mgc_initialize = Some (cg_initGrid T)\<rparr>) gridUnitId,
      cfg_pvConfigs = pvConfigs (Some (cg_initPv T)) pvUnitIds,
      cfg_updateGridValues = cg_updateGridValues T, cfg_updatePvValues = cg_updatePvValues T\<rparr>"

definition NewCarloGavazziSystem ::
  "(('c, 'p) ClientConfiguration \<Rightarrow> (('c, 'p, 't) ModbusClient result) option) \<Rightarrow> 't transport \<Rightarrow> string
    \<Rightarrow> GridConfig option \<Rightarrow> uint8 option \<Rightarrow> uint8 list
    \<Rightarrow> ((modbusGrid, modbusPv) System \<times> ('c, 'p, 't) ModbusClient) result option" where
  "NewCarloGavazziSystem connect T modbusUrl gridConfig gridUnitId pvUnitIds =
     NewModbusSystem connect (carloGavazziConfig T modbusUrl gridConfig gridUnitId pvUnitIds)"

section \<open>Victron systems\<close>

definition victron_updateGridFlow ::
  "'t transport \<Rightarrow> uint8 \<Rightarrow> ('c, 'p, 't) ModbusClient \<Rightarrow> EnergyFlowBase
    \<Rightarrow> (('c, 'p, 't) ModbusClient \<times> EnergyFlowBase) option" where
  "victron_updateGridFlow T unit mc flow = do {
     let mc0 = SetUnitId unit mc;
     (values, mc1) \<leftarrow> readInput T 2600 3 mc0;
     flow1 \<leftarrow> setReadings [(Watt, 0, 0, 0), (Watt, 1, 1, 0), (Watt, 2, 2, 0)] values flow;
     (values, mc2) \<leftarrow> readInput T 2616 6 mc1;
     flow2 \<leftarrow> setReadings [(Volt, 0, 0, 10), (Amp, 0, 1, 10), (Volt, 1, 2, 10), (Amp, 1, 3, 10),
                (Volt, 2, 4, 10), (Amp, 2, 5, 10)] values flow1;
     Some (mc2, flow2) }"

definition victron_updatePvFlow ::
  "'t transport \<Rightarrow> uint8 \<Rightarrow> ('c, 'p, 't) ModbusClient \<Rightarrow> EnergyFlowBase
    \<Rightarrow> (('c, 'p, 't) ModbusClient \<times> EnergyFlowBase) option" where
  "victron_updatePvFlow T unit mc flow = do {
     let mc0 = SetUnitId unit mc;
     (values, mc1) \<leftarrow> readInput T 1027 11 mc0;
     flow1 \<leftarrow> setReadings [(Volt, 0, 0, 10), (Amp, 0, 1, 10), (Watt, 0, 2, 0), (Volt, 1, 4, 10), (Amp, 1, 5, 10),
                (Watt, 1, 6, 0), (Volt, 2, 8, 10), (Amp, 2, 9, 10), (Watt, 2, 10, 0)] values flow;
     Some (mc1, flow1) }"

definition victron_updateGridValues ::
  "'t transport \<Rightarrow> ('c, 'p, 't) ModbusClient \<Rightarrow> modbusGrid \<Rightarrow> (('c, 'p, 't) ModbusClient \<times> modbusGrid) option" where
  "victron_updateGridValues T client grid =
     (if mg_unitId grid \<le> 0 then Some (client, grid)
      else on_grid_flow (victron_updateGridFlow T (mg_unitId grid) client) grid)"

definition victron_updatePvValues ::
  "'t transport \<Rightarrow> ('c, 'p, 't) ModbusClient \<Rightarrow> modbusPv \<Rightarrow> (('c, 'p, 't) ModbusClient \<times> modbusPv) option" where
  "victron_updatePvValues T client pv =
     (if mp_unitId pv \<le> 0 then Some (client, pv)
      else on_pv_flow (victron_updatePvFlow T (mp_unitId pv) client) pv)"

definition victronConfig ::
  "'t transport \<Rightarrow> string \<Rightarrow> GridConfig option \<Rightarrow> uint8 option \<Rightarrow> uint8 list \<Rightarrow> ('c, 'p, 't) ModbusClient ModbusConfig" where
  "victronConfig T modbusUrl gridConfig gridUnitId pvUnitIds =
     \<lparr>cfg_modbusUrl = modbusUrl, cfg_modbusSpeed = 0, cfg_timeout = 0, cfg_gridConfig = gridConfig,
      cfg_modbusGridConfig = map_option (\<lambda>unit. \<lparr>mgc_unitId = unit, mgc_initialize = None\<rparr>) gridUnitId,
      cfg_pvConfigs = pvConfigs None pvUnitIds,
      cfg_updateGridValues = victron_updateGridValues T, cfg_updatePvValues = victron_updatePvValues T\<rparr>"

definition NewVictronSystem ::
  "(('c, 'p) ClientConfiguration \<Rightarrow> (('c, 'p, 't) ModbusClient result) option) \<Rightarrow> 't transport \<Rightarrow> string
    \<Rightarrow> GridConfig option \<Rightarrow> uint8 option \<Rightarrow> uint8 list
    \<Rightarrow> ((modbusGrid, modbusPv) System \<times> ('c, 'p, 't) ModbusClient) result option" where
  "NewVictronSystem connect T modbusUrl gridConfig gridUnitId pvUnitIds =
     NewModbusSystem connect (victronConfig T modbusUrl gridConfig gridUnitId pvUnitIds)"

section \<open>Updates of a flow\<close>

context transport_contract begin

text \<open>What an update of a Carlo Gavazzi meter leaves in the flow.\<close>

lemma cg_three_phase:
  assumes "client_inv tinv mc" "flow_fine flow" "threePhase c"
  shows "\<exists>volts mc1 rest mc2 flow'. readInput T 0 5 (SetUnitId unit mc) = Some (volts, mc1)
    \<and> readInput T 12 11 mc1 = Some (rest, mc2)
    \<and> cg_updateValues T unit c mc flow = Some (mc2, flow') \<and> client_inv tinv mc2 \<and> flow_fine flow'
    \<and> (\<forall>line < 3. reads_as (flow_Voltage line flow') (register_value volts (2 * unat line) 10)
         \<and> reads_as (flow_Current line flow') (register_value rest (2 * unat line) 1000)
         \<and> \<bar>f32_rat (flow_Current line flow')\<bar> \<le> 33
         \<and> reads_as (flow_Power line flow') (register_value rest (6 + 2 * unat line) 10))"
proof -
  let ?V = "[(Volt, 0, 0, 10), (Volt, 1, 2, 10), (Volt, 2, 4, 10)]"
    and ?R = "[(Amp, 0, 0, 1000), (Amp, 1, 2, 1000), (Amp, 2, 4, 1000), (Watt, 0, 6, 10), (Watt, 1, 8, 10), (Watt, 2, 10, 10)]"
  have fitsV: "list_all (reading_fits 5) ?V" by simp
  obtain volts mc1 flow1 where v: "readInput T 0 5 (SetUnitId unit mc) = Some (volts, mc1)" "client_inv tinv mc1"
    "setReadings ?V volts flow = Some flow1" "flow_fine flow1"
    "sets_from ?V volts flow flow1"
    using readInput_set [OF client_inv_SetUnitId [OF assms(1)] assms(2) fitsV] by blast
  have fitsR: "list_all (reading_fits 11) ?R" by simp
  obtain rest mc2 flow2 where r: "readInput T 12 11 mc1 = Some (rest, mc2)" "client_inv tinv mc2"
    "setReadings ?R rest flow1 = Some flow2" "flow_fine flow2"
    "sets_from ?R rest flow1 flow2"
    using readInput_set [OF v(2,4) fitsR] by blast
  have "cg_updateValues T unit c mc flow = Some (mc2, flow2)"
    using v(1,3) r(1,3) assms(3) by (simp add: cg_updateValues_def Let_def)
  moreover have "reads_as (flow_Voltage line flow2) (register_value volts (2 * unat line) 10)" if "line \<in> {0, 1, 2}" for line
    using sets_from_at [OF r(5), of Volt line] sets_from_at [OF v(5), of Volt line] that by (auto simp: reading_of_def)
  moreover have "reads_as (flow_Current line flow2) (register_value rest (2 * unat line) 1000)" if "line \<in> {0, 1, 2}" for line
    using sets_from_at [OF r(5), of Amp line] that by (auto simp: reading_of_def)
  moreover from this have "\<bar>f32_rat (flow_Current line flow2)\<bar> \<le> 33" if "line \<in> {0, 1, 2}" for line
    using reads_as_bound [OF _ register_value_bound [of 1000 rest "2 * unat line"], of "flow_Current line flow2"] that by simp
  moreover have "reads_as (flow_Power line flow2) (register_value rest (6 + 2 * unat line) 10)" if "line \<in> {0, 1, 2}" for line
    using sets_from_at [OF r(5), of Watt line] that by (auto simp: reading_of_def)
  ultimately show ?thesis
    unfolding three_lines using v(1) r(1,2,4) by blast
qed

lemma cg_single_phase:
  assumes "client_inv tinv mc" "flow_fine flow" "\<not> threePhase c"
  shows "\<exists>vs mc1 flow'. readInput T 0 5 (SetUnitId unit mc) = Some (vs, mc1)
    \<and> cg_updateValues T unit c mc flow = Some (mc1, flow') \<and> client_inv tinv mc1 \<and> flow_fine flow'
    \<and> reads_as (flow_Voltage 0 flow') (register_value vs 0 10)
    \<and> reads_as (flow_Current 0 flow') (register_value vs 2 1000)
    \<and> reads_as (flow_Power 0 flow') (register_value vs 4 10)
    \<and> (\<forall>what line. line \<noteq> 0 \<longrightarrow> reading_of what line flow' = reading_of what line flow)"
proof -
  let ?V = "[(Volt, 0, 0, 10), (Amp, 0, 2, 1000), (Watt, 0, 4, 10)]"
  have fitsV: "list_all (reading_fits 5) ?V" by simp
  obtain vs mc1 flow1 where v: "readInput T 0 5 (SetUnitId unit mc) = Some (vs, mc1)" "client_inv tinv mc1"
    "setReadings ?V vs flow = Some flow1" "flow_fine flow1"
    "sets_from ?V vs flow flow1"
    using readInput_set [OF client_inv_SetUnitId [OF assms(1)] assms(2) fitsV] by blast
  have "cg_updateValues T unit c mc flow = Some (mc1, flow1)"
    using v(1,3) assms(3) by (simp add: cg_updateValues_def Let_def)
  moreover have "reading_of what line flow1 = reading_of what line flow" if "line \<noteq> 0" for what line
    using sets_from_at [OF v(5), of what line] that by simp
  ultimately show ?thesis
    using v sets_from_at [OF v(5), of Volt 0] sets_from_at [OF v(5), of Amp 0] sets_from_at [OF v(5), of Watt 0] by (auto simp: reading_of_def)
qed

text \<open>The updates of a Victron system.\<close>

lemma victron_grid:
  assumes "client_inv tinv mc" "flow_fine flow"
  shows "\<exists>powers mc1 rest mc2 flow'. readInput T 2600 3 (SetUnitId unit mc) = Some (powers, mc1)
    \<and> readInput T 2616 6 mc1 = Some (rest, mc2)
    \<and> victron_updateGridFlow T unit mc flow = Some (mc2, flow') \<and> client_inv tinv mc2 \<and> flow_fine flow'
    \<and> (\<forall>line < 3. reads_as (flow_Power line flow') (register_value powers (unat line) 0)
         \<and> reads_as (flow_Voltage line flow') (register_value rest (2 * unat line) 10)
         \<and> reads_as (flow_Current line flow') (register_value rest (2 * unat line + 1) 10))"
proof -
  let ?V = "[(Watt, 0, 0, 0), (Watt, 1, 1, 0), (Watt, 2, 2, 0)]"
    and ?R = "[(Volt, 0, 0, 10), (Amp, 0, 1, 10), (Volt, 1, 2, 10), (Amp, 1, 3, 10), (Volt, 2, 4, 10), (Amp, 2, 5, 10)]"
  have fitsV: "list_all (reading_fits 3) ?V" by simp
  obtain powers mc1 flow1 where v: "readInput T 2600 3 (SetUnitId unit mc) = Some (powers, mc1)" "client_inv tinv mc1"
    "setReadings ?V powers flow = Some flow1" "flow_fine flow1"
    "sets_from ?V powers flow flow1"
    using readInput_set [OF client_inv_SetUnitId [OF assms(1)] assms(2) fitsV] by blast
  have fitsR: "list_all (reading_fits 6) ?R" by simp
  obtain rest mc2 flow2 where r: "readInput T 2616 6 mc1 = Some (rest, mc2)" "client_inv tinv mc2"
    "setReadings ?R rest flow1 = Some flow2" "flow_fine flow2"
    "sets_from ?R rest flow1 flow2"
    using readInput_set [OF v(2,4) fitsR] by blast
  have "victron_updateGridFlow T unit mc flow = Some (mc2, flow2)"
    using v(1,3) r(1,3) by (simp add: victron_updateGridFlow_def Let_def)
  moreover have "reads_as (flow_Power line flow2) (register_value powers (unat line) 0)" if "line \<in> {0, 1, 2}" for line
    using sets_from_at [OF r(5), of Watt line] sets_from_at [OF v(5), of Watt line] that by (auto simp: reading_of_def)
  moreover have "reads_as (flow_Voltage line flow2) (register_value rest (2 * unat line) 10)" if "line \<in> {0, 1, 2}" for line
    using sets_from_at [OF r(5), of Volt line] that by (auto simp: reading_of_def)
  moreover have "reads_as (flow_Current line flow2) (register_value rest (2 * unat line + 1) 10)" if "line \<in> {0, 1, 2}" for line
    using sets_from_at [OF r(5), of Amp line] that by (auto simp: reading_of_def)
  ultimately show ?thesis
    unfolding three_lines using v(1) r(1,2,4) by blast
qed

lemma victron_pv:
  assumes "client_inv tinv mc" "flow_fine flow"
  shows "\<exists>vs mc1 flow'. readInput T 1027 11 (SetUnitId unit mc) = Some (vs, mc1)
    \<and> victron_updatePvFlow T unit mc flow = Some (mc1, flow') \<and> client_inv tinv mc1 \<and> flow_fine flow'
    \<and> (\<forall>line < 3. reads_as (flow_Voltage line flow') (register_value vs (4 * unat line) 10)
         \<and> reads_as (flow_Current line flow') (register_value vs (4 * unat line + 1) 10)
         \<and> reads_as (flow_Power line flow') (register_value vs (4 * unat line + 2) 0))"
proof -
  let ?V = "[(Volt, 0, 0, 10), (Amp, 0, 1, 10), (Watt, 0, 2, 0), (Volt, 1, 4, 10), (Amp, 1, 5, 10), (Watt, 1, 6, 0),
    (Volt, 2, 8, 10), (Amp, 2, 9, 10), (Watt, 2, 10, 0)]"
  have fitsV: "list_all (reading_fits 11) ?V" by simp
  obtain vs mc1 flow1 where v: "readInput T 1027 11 (SetUnitId unit mc) = Some (vs, mc1)" "client_inv tinv mc1"
    "setReadings ?V vs flow = Some flow1" "flow_fine flow1"
    "sets_from ?V vs flow flow1"
    using readInput_set [OF client_inv_SetUnitId [OF assms(1)] assms(2) fitsV] by blast
  have "victron_updatePvFlow T unit mc flow = Some (mc1, flow1)"
    using v(1,3) by (simp add: victron_updatePvFlow_def Let_def)
  moreover have "reads_as (flow_Voltage line flow1) (register_value vs (4 * unat line) 10)" if "line \<in> {0, 1, 2}" for line
    using sets_from_at [OF v(5), of Volt line] that by (auto simp: reading_of_def)
  moreover have "reads_as (flow_Current line flow1) (register_value vs (4 * unat line + 1) 10)" if "line \<in> {0, 1, 2}" for line
    using sets_from_at [OF v(5), of Amp line] that by (auto simp: reading_of_def)
  moreover have "reads_as (flow_Power line flow1) (register_value vs (4 * unat line + 2) 0)" if "line \<in> {0, 1, 2}" for line
    using sets_from_at [OF v(5), of Watt line] that by (auto simp: reading_of_def simp del: add_2_eq_Suc add_2_eq_Suc')
  ultimately show ?thesis
    unfolding three_lines using v(1,2,4) by blast
qed

end

section \<open>Codes of meters\<close>

text \<open>The code is kept as text and read back.\<close>

lemma decimal_digits: "list_all isDigit (decimal n) \<and> decimal n \<noteq> [] \<and> digits_value (decimal n) = int n"
proof (induction n rule: decimal.induct)
  case (1 n)
  have d: "isDigit (char_of (48 + d))" "int (of_char (char_of (48 + d) :: char)) = 48 + int d" if "d < 10" for d :: nat
    using that by (simp_all add: isDigit_def)
  show ?case
  proof (cases "n < 10")
    case True
    with d [of n] show ?thesis by (subst (1 2 3) decimal.simps) (simp add: digits_value_def)
  next
    case False
    moreover have "10 * int (n div 10) + int (n mod 10) = int n" by presburger
    ultimately show ?thesis
      using 1 d [of "n mod 10"] by (subst (1 2 3) decimal.simps) (simp add: digits_value_def)
  qed
qed

lemma Atoi_decimal:
  assumes "int n < 2 ^ 63"
  shows "strconv_Atoi (decimal n) = int n"
proof -
  note d = decimal_digits [of n]
  have "isDigit (hd (decimal n))" using d by (cases "decimal n") auto
  then have "hd (decimal n) \<noteq> CHR ''-''" "hd (decimal n) \<noteq> CHR ''+''"
    by (auto simp: isDigit_def)
  with d assms show ?thesis by (simp add: strconv_Atoi_def Let_def)
qed

definition threePhaseModels :: "uint16 list" where
  "threePhaseModels =
     [71, 72, 73, 331, 332, 335, 336, 340, 341, 345, 346, 1744, 1745, 1746, 1747, 1760, 1761, 1762, 1763]"

lemma threePhase_model:
  assumes "cg_meterCode c = decimal (unat (model :: uint16))"
  shows "threePhase c \<longleftrightarrow> model \<in> set threePhaseModels"
proof -
  have "unat model < 2 ^ 16" using unsigned_less [of model] by simp
  then have "int (unat model) < int (2 ^ 16)" by (rule of_nat_less_iff [THEN iffD2])
  then have "int (unat model) < 2 ^ 63" by (rule less_trans) simp
  from Atoi_decimal [OF this] have a: "strconv_Atoi (cg_meterCode c) = int (unat model)"
    unfolding assms .
  have "int (unat model) = numeral k \<longleftrightarrow> model = numeral k" if "numeral k < (2 :: nat) ^ 16" for k
  proof -
    have "unat (numeral k :: uint16) = numeral k"
      using that unat_of_nat_eq [of "numeral k", where 'a = 16] by simp
    then show ?thesis by (metis of_nat_eq_iff of_nat_numeral word_unat_eq_iff)
  qed
  then show ?thesis by (simp add: threePhase_def a threePhaseModels_def)
qed

context transport_contract begin

lemma register_calls:
  assumes "client_inv tinv mc"
  shows "\<exists>r mc1. ReadRegister T addr regType mc = Some (r, mc1) \<and> client_inv tinv mc1"
    and "\<exists>r mc1. WriteRegister T addr v mc = Some (r, mc1) \<and> client_inv tinv mc1"
proof -
  obtain t where t: "mc_transport mc = Some t" "tinv t" and enc: "valid_encoding (mc_endianness mc) (mc_wordOrder mc)"
    using assms by (auto simp: client_inv_def)
  have "ok_call t mc (ReadRegister T addr regType mc)" "ok_call t mc (WriteRegister T addr v mc)"
    using single_back(3) [OF t enc] WriteRegister_back [OF t valid_encoding_endianness [OF enc]] .
  then show "\<exists>r mc1. ReadRegister T addr regType mc = Some (r, mc1) \<and> client_inv tinv mc1"
    and "\<exists>r mc1. WriteRegister T addr v mc = Some (r, mc1) \<and> client_inv tinv mc1"
    using enc by (auto simp: comes_back_def client_inv_def)
qed

lemma cg_initialize_returns:
  assumes "client_inv tinv mc"
  shows "\<exists>r mc1 err c' mc'. ReadRegister T 0x000B INPUT_REGISTER (SetUnitId unit mc) = Some (r, mc1)
    \<and> cg_initialize T unit c mc = Some (err, c', mc') \<and> client_inv tinv mc'
    \<and> (case r of Inl e \<Rightarrow> err = Some e \<and> c' = c \<and> mc' = mc1
      | Inr model \<Rightarrow> (threePhase c' \<longleftrightarrow> model \<in> set threePhaseModels)
          \<and> cg_meterCode c' = decimal (unat model)
          \<and> (model \<notin> {71, 72, 73} \<longrightarrow> err = None \<and> mc' = mc1))"
proof -
  note calls = register_calls(1)
  obtain r mc1 where r: "ReadRegister T 0x000B INPUT_REGISTER (SetUnitId unit mc) = Some (r, mc1)" "client_inv tinv mc1"
    using register_calls(1) [OF client_inv_SetUnitId [OF assms]] by blast
  obtain ra mc2 where ra: "ReadRegister T em24ApplicationRegister INPUT_REGISTER mc1 = Some (ra, mc2)" "client_inv tinv mc2"
    using register_calls(1) [OF r(2)] by blast
  obtain rf mc3 where rf: "ReadRegister T em24FrontSelectorRegister INPUT_REGISTER mc2 = Some (rf, mc3)" "client_inv tinv mc3"
    using register_calls(1) [OF ra(2)] by blast
  obtain rw mc4 where rw: "WriteRegister T em24ApplicationRegister em24ApplicationH mc3 = Some (rw, mc4)" "client_inv tinv mc4"
    using register_calls(2) [OF rf(2)] by blast
  show ?thesis
  proof (cases r)
    case (Inl e)
    then show ?thesis using r by (simp add: cg_initialize_def Let_def)
  next
    case (Inr model)
    have em24: "71 \<le> model \<and> model \<le> 73 \<longleftrightarrow> model \<in> {71, 72, 73}"
    proof -
      have "71 \<le> unat model \<and> unat model \<le> 73 \<longleftrightarrow> unat model \<in> {71, 72, 73}" by auto
      then show ?thesis by (simp add: word_le_nat_alt word_unat_eq_iff)
    qed
    show ?thesis
    proof (cases "model \<in> {71, 72, 73}")
      case True
      with Inr r ra rf rw em24 show ?thesis
        by (auto simp: cg_initialize_def Let_def threePhase_model split: sum.splits)
    next
      case False
      with Inr r em24 show ?thesis
        by (auto simp: cg_initialize_def Let_def threePhase_model)
    qed
  qed
qed

end

section \<open>The systems of the program\<close>

lemma on_grid_flow_back:
  assumes "\<exists>m' flow'. update (gb_flow (mg_GridBase g)) = Some (m', flow') \<and> minv m' \<and> flow_fine flow'"
  shows "\<exists>m' g'. on_grid_flow update g = Some (m', g') \<and> minv m' \<and> flow_fine (gb_flow (mg_GridBase g')) \<and> same_grid g g'"
  using assms by (auto simp: on_grid_flow_def same_grid_def)

lemma on_pv_flow_back:
  assumes "\<exists>m' flow'. update (pv_flow (mp_PvBase p)) = Some (m', flow') \<and> minv m' \<and> flow_fine flow'"
  shows "\<exists>m' p'. on_pv_flow update p = Some (m', p') \<and> minv m' \<and> flow_fine (pv_flow (mp_PvBase p')) \<and> same_pv p p'"
  using assms by (auto simp: on_pv_flow_def same_pv_def)

context transport_contract begin

lemma cg_update_back:
  assumes "client_inv tinv mc" "flow_fine flow"
  shows "\<exists>mc' flow'. cg_updateValues T unit c mc flow = Some (mc', flow') \<and> client_inv tinv mc' \<and> flow_fine flow'"
  using cg_three_phase [OF assms, of c unit] cg_single_phase [OF assms, of c unit] by blast

lemma carlo_gavazzi_updates: "meter_updates (carloGavazziConfig T url gc unit pvs) (client_inv tinv)"
proof
  fix mc :: "('c, 'p, 't) ModbusClient" and g :: modbusGrid and p :: modbusPv
  assume mc: "client_inv tinv mc"
  { assume "flow_fine (gb_flow (mg_GridBase g))"
    with mc show "\<exists>mc' g'. cfg_updateGridValues (carloGavazziConfig T url gc unit pvs) mc g = Some (mc', g')
        \<and> client_inv tinv mc' \<and> flow_fine (gb_flow (mg_GridBase g')) \<and> same_grid g g'"
      by (auto simp: carloGavazziConfig_def cg_updateGridValues_def intro: on_grid_flow_back cg_update_back) }
  { assume "flow_fine (pv_flow (mp_PvBase p))"
    with mc show "\<exists>mc' p'. cfg_updatePvValues (carloGavazziConfig T url gc unit pvs) mc p = Some (mc', p')
        \<and> client_inv tinv mc' \<and> flow_fine (pv_flow (mp_PvBase p')) \<and> same_pv p p'"
      by (auto simp: carloGavazziConfig_def cg_updatePvValues_def intro: on_pv_flow_back cg_update_back) }
qed

lemma victron_updates: "meter_updates (victronConfig T url gc unit pvs) (client_inv tinv)"
proof
  fix mc :: "('c, 'p, 't) ModbusClient" and g :: modbusGrid and p :: modbusPv
  assume mc: "client_inv tinv mc"
  { assume f: "flow_fine (gb_flow (mg_GridBase g))"
    with victron_grid [OF mc f, of "mg_unitId g"] mc
    show "\<exists>mc' g'. cfg_updateGridValues (victronConfig T url gc unit pvs) mc g = Some (mc', g')
        \<and> client_inv tinv mc' \<and> flow_fine (gb_flow (mg_GridBase g')) \<and> same_grid g g'"
      by (auto simp: victronConfig_def victron_updateGridValues_def intro: on_grid_flow_back) }
  { assume f: "flow_fine (pv_flow (mp_PvBase p))"
    with victron_pv [OF mc f, of "mp_unitId p"] mc
    show "\<exists>mc' p'. cfg_updatePvValues (victronConfig T url gc unit pvs) mc p = Some (mc', p')
        \<and> client_inv tinv mc' \<and> flow_fine (pv_flow (mp_PvBase p')) \<and> same_pv p p'"
      by (auto simp: victronConfig_def victron_updatePvValues_def intro: on_pv_flow_back) }
qed

end

sublocale transport_contract \<subseteq> carlo_gavazzi: meter_updates "carloGavazziConfig T url gc unit pvs" "client_inv tinv"
  for url gc unit pvs
  by (rule carlo_gavazzi_updates)

sublocale transport_contract \<subseteq> victron: meter_updates "victronConfig T url gc unit pvs" "client_inv tinv"
  for url gc unit pvs
  by (rule victron_updates)

section \<open>Making systems\<close>

lemma flow_fine_NewGrid: "flow_fine (gb_flow (NewGrid gc))"
  by (simp add: NewGrid_def flow_fine_new)

text \<open>What the grid of a new system looks like: its unit, its limits, and no reading yet.\<close>

definition new_grid :: "GridConfig option \<Rightarrow> uint8 \<Rightarrow> modbusGrid \<Rightarrow> bool" where
  "new_grid gc unit g \<longleftrightarrow> mg_unitId g = unit \<and> mg_GridBase g = NewGrid gc"

context transport_contract begin

lemma carlo_gavazzi_grid:
  assumes "client_inv tinv mc"
  shows "\<exists>r mc'. newModbusGrid mc gc \<lparr>mgc_unitId = unit, mgc_initialize = Some (cg_initGrid T)\<rparr> = Some (r, mc')
    \<and> client_inv tinv mc' \<and> (case r of Inl _ \<Rightarrow> True | Inr g \<Rightarrow> new_grid gc unit g)"
proof -
  obtain err c' mc' where "cg_initialize T unit \<lparr>cg_meterCode = '''', cg_meterType = ''''\<rparr> mc = Some (err, c', mc')"
    "client_inv tinv mc'"
    using cg_initialize_returns [OF assms, of unit "\<lparr>cg_meterCode = '''', cg_meterType = ''''\<rparr>"] by blast
  then show ?thesis
    by (cases err) (simp_all add: newModbusGrid_def cg_initGrid_def new_grid_def)
qed

lemma new_system:
  assumes "connect (clientConfiguration config) = Some (Ok mc)" "client_inv tinv mc"
    and config: "config = carloGavazziConfig T url gc unit [] \<or> config = victronConfig T url gc unit []"
  shows "\<exists>r. NewModbusSystem connect config = Some r
    \<and> (case r of Inl _ \<Rightarrow> config = carloGavazziConfig T url gc unit [] \<and> unit \<noteq> None
       | Inr (s, mc') \<Rightarrow> client_inv tinv mc' \<and> sys_pvs s = None
          \<and> rel_option (new_grid gc) unit (sys_grid s) \<and> system_ok s)"
  using config
proof
  assume c: "config = victronConfig T url gc unit []"
  with assms(1,2) show ?thesis
    by (cases unit)
      (simp_all add: NewModbusSystem_def victronConfig_def pvConfigs_eq NewSystem_def newModbusGrid_def system_ok_def
        new_grid_def flow_fine_NewGrid)
next
  assume c: "config = carloGavazziConfig T url gc unit []"
  show ?thesis
  proof (cases unit)
    case None
    with assms(1,2) c show ?thesis
      by (simp add: NewModbusSystem_def carloGavazziConfig_def pvConfigs_eq NewSystem_def system_ok_def)
  next
    case (Some u)
    obtain r mc' where g: "newModbusGrid mc gc \<lparr>mgc_unitId = u, mgc_initialize = Some (cg_initGrid T)\<rparr> = Some (r, mc')"
      "client_inv tinv mc'" "case r of Inl _ \<Rightarrow> True | Inr g \<Rightarrow> new_grid gc u g"
      using carlo_gavazzi_grid [OF assms(2)] by blast
    with assms(1) c Some show ?thesis
      by (cases r)
        (simp_all add: NewModbusSystem_def carloGavazziConfig_def pvConfigs_eq NewSystem_def system_ok_def new_grid_def flow_fine_NewGrid)
  qed
qed

end

section \<open>Serial lines\<close>

text \<open>The RTU transport over a POSIX port has the contract too, but for what it promises of the bytes written.\<close>

sublocale posix_kernel \<subseteq> serial: transport_contract "rtuTransportOps (spwLink (posixPort K))" "\<lambda>_. True" "\<lambda>_. []" "\<lambda>_ _. []"
proof
  fix req and rt :: "'o posix_port serialPortWrapper rtuTransport"
  show "\<exists>r rt'. t_ExecuteRequest (rtuTransportOps (spwLink (posixPort K))) req rt = Some (r, rt') \<and> True \<and> [] = [] @ []"
    using serial_port.rtu_ExecuteRequest_ends [OF is_serial_port TrueI, of req rt] by (auto simp: rtuTransportOps_def)
qed

definition demo_serial_client :: "(unit, unit, kernel posix_port serialPortWrapper rtuTransport) ModbusClient" where
  "demo_serial_client = \<lparr>mc_conf = mc_conf (demo_client BIG_ENDIAN), mc_endianness = BIG_ENDIAN,
     mc_wordOrder = HIGH_WORD_FIRST,
     mc_transport = Some \<lparr>rt_link = demo_wrapper [1, 4, 2, 0, 71] 0, rt_timeout = 500000000, rt_lastActivity = 0,
       rt_t35 = 4010416, rt_t1 = 1145833\<rparr>,
     mc_unitId = 1, mc_transportType = modbusRTU\<rparr>"

lemma demo_serial_client_inv: "client_inv (\<lambda>_. True) demo_serial_client"
  by (simp add: client_inv_def demo_serial_client_def valid_encoding_def valid_endianness_def valid_word_order_def)

section \<open>Properties\<close>

text \<open>
  C37: the update of a meter.  Over every transport that comes back, a three-phase Carlo Gavazzi
  meter is read by two requests and the readings of all lines become the values of its registers:
  2 * line of the first block in tenths of a volt, 2 * line of the second in thousandths of an ampere
  and 6 + 2 * line in tenths of a watt, correct to a relative error of 2^-24; a current of more than
  33 A is never reported, where a grid may be configured for 100 A a phase.  A single-phase meter
  is read by one request and changes line 0 only, and a Victron system likewise from its own
  registers.  A failed read reports 0; none of it panics, whatever the meter answers.
\<close>

theorem meter_update:
  assumes "transport_contract T tinv wire framed" "client_inv tinv mc" "flow_fine flow"
  shows "(if threePhase c
      then \<exists>volts mc1 rest mc2 flow'. readInput T 0 5 (SetUnitId unit mc) = Some (volts, mc1)
        \<and> readInput T 12 11 mc1 = Some (rest, mc2)
        \<and> cg_updateValues T unit c mc flow = Some (mc2, flow') \<and> client_inv tinv mc2 \<and> flow_fine flow'
        \<and> (\<forall>line < 3. reads_as (flow_Voltage line flow') (register_value volts (2 * unat line) 10)
             \<and> reads_as (flow_Current line flow') (register_value rest (2 * unat line) 1000)
             \<and> \<bar>f32_rat (flow_Current line flow')\<bar> \<le> 33
             \<and> reads_as (flow_Power line flow') (register_value rest (6 + 2 * unat line) 10))
      else \<exists>vs mc1 flow'. readInput T 0 5 (SetUnitId unit mc) = Some (vs, mc1)
        \<and> cg_updateValues T unit c mc flow = Some (mc1, flow') \<and> client_inv tinv mc1 \<and> flow_fine flow'
        \<and> reads_as (flow_Voltage 0 flow') (register_value vs 0 10)
        \<and> reads_as (flow_Current 0 flow') (register_value vs 2 1000)
        \<and> reads_as (flow_Power 0 flow') (register_value vs 4 10)
        \<and> (\<forall>what line. line \<noteq> 0 \<longrightarrow> reading_of what line flow' = reading_of what line flow))
    \<and> (\<exists>powers mc1 rest mc2 flow'. readInput T 2600 3 (SetUnitId unit mc) = Some (powers, mc1)
        \<and> readInput T 2616 6 mc1 = Some (rest, mc2)
        \<and> victron_updateGridFlow T unit mc flow = Some (mc2, flow') \<and> client_inv tinv mc2 \<and> flow_fine flow'
        \<and> (\<forall>line < 3. reads_as (flow_Power line flow') (register_value powers (unat line) 0)
             \<and> reads_as (flow_Voltage line flow') (register_value rest (2 * unat line) 10)
             \<and> reads_as (flow_Current line flow') (register_value rest (2 * unat line + 1) 10)))
    \<and> (\<exists>vs mc1 flow'. readInput T 1027 11 (SetUnitId unit mc) = Some (vs, mc1)
        \<and> victron_updatePvFlow T unit mc flow = Some (mc1, flow') \<and> client_inv tinv mc1 \<and> flow_fine flow'
        \<and> (\<forall>line < 3. reads_as (flow_Voltage line flow') (register_value vs (4 * unat line) 10)
             \<and> reads_as (flow_Current line flow') (register_value vs (4 * unat line + 1) 10)
             \<and> reads_as (flow_Power line flow') (register_value vs (4 * unat line + 2) 0)))"
proof -
  note victron = transport_contract.victron_grid [OF assms] transport_contract.victron_pv [OF assms]
  show ?thesis
  proof (cases "threePhase c")
    case True
    show ?thesis
      unfolding if_P [OF True] by (intro conjI victron transport_contract.cg_three_phase [OF assms True])
  next
    case False
    show ?thesis
      unfolding if_not_P [OF False] by (intro conjI victron transport_contract.cg_single_phase [OF assms False])
  qed
qed

theorem meter_update_witness:
  "\<exists>mc' flow'. cg_updateValues (rtuTransportOps (spwLink (posixPort kernelOs))) 1 \<lparr>cg_meterCode = decimal 71, cg_meterType = ''''\<rparr>
      demo_serial_client newEnergyFlowBase = Some (mc', flow') \<and> flow_fine flow'
    \<and> (\<forall>line < 3. f32_finite (flow_Power line flow'))"
  using meter_update [OF kern.serial.transport_contract_axioms demo_serial_client_inv flow_fine_new,
      where c = "\<lparr>cg_meterCode = decimal 71, cg_meterType = ''''\<rparr>" and unit = 1]
    threePhase_model [of "\<lparr>cg_meterCode = decimal 71, cg_meterType = ''''\<rparr>" 71]
  by (auto simp: reads_as_def threePhaseModels_def)

text \<open>
  C39: the model of a meter.  \<open>initialize\<close> comes back over every transport that does; when the model can be
  read, the meter counts as three-phase from then on exactly when it is one of the three-phase
  models, although the code is kept as text and parsed at every update, and only an EM24 is sent
  further requests.
\<close>

theorem meter_initialize:
  assumes "transport_contract T tinv wire framed" "client_inv tinv mc"
  shows "\<exists>r mc1 err c' mc'. ReadRegister T 0x000B INPUT_REGISTER (SetUnitId unit mc) = Some (r, mc1)
    \<and> cg_initialize T unit c mc = Some (err, c', mc') \<and> client_inv tinv mc'
    \<and> (case r of Inl e \<Rightarrow> err = Some e \<and> c' = c \<and> mc' = mc1
      | Inr model \<Rightarrow> (threePhase c' \<longleftrightarrow> model \<in> set threePhaseModels)
          \<and> cg_meterCode c' = decimal (unat model)
          \<and> (model \<notin> {71, 72, 73} \<longrightarrow> err = None \<and> mc' = mc1))"
  by (rule transport_contract.cg_initialize_returns [OF assms])

theorem meter_initialize_witness:
  "\<exists>err c' mc'. cg_initialize (rtuTransportOps (spwLink (posixPort kernelOs))) 1 \<lparr>cg_meterCode = '''', cg_meterType = ''''\<rparr>
      demo_serial_client = Some (err, c', mc') \<and> client_inv (\<lambda>_. True) mc'"
  using meter_initialize [OF kern.serial.transport_contract_axioms demo_serial_client_inv] by blast

text \<open>
  C38: no system with PV meters can be made.  The slice of their configurations starts with as many
  \<open>nil\<close> pointers as there are units, and the first is dereferenced: with any PV unit neither
  constructor returns a system, and the one of Victron panics as soon as the client is connected.
\<close>

theorem pv_configs_panic:
  fixes connect :: "('c, 'p) ClientConfiguration \<Rightarrow> (('c, 'p, 't) ModbusClient result) option"
  assumes "pvUnitIds \<noteq> []"
  shows "NewCarloGavazziSystem connect T url gc unit pvUnitIds \<noteq> Some (Ok r)
    \<and> NewVictronSystem connect T url gc unit pvUnitIds \<noteq> Some (Ok r)
    \<and> (connect (clientConfiguration (victronConfig T url gc unit pvUnitIds :: ('c, 'p, 't) ModbusClient ModbusConfig)) = Some (Ok mc) \<longrightarrow>
         NewVictronSystem connect T url gc unit pvUnitIds = None)"
proof -
  have none: "NewModbusSystem connect config \<noteq> Some (Ok r)"
    if "cfg_pvConfigs config = pvConfigs initialize pvUnitIds" for config :: "('c, 'p, 't) ModbusClient ModbusConfig" and initialize
    using that by (auto simp: NewModbusSystem_def bind_eq_Some_conv newModbusPvs_nil [OF assms] split: sum.splits)
  have "NewVictronSystem connect T url gc unit pvUnitIds = None"
    if "connect (clientConfiguration (victronConfig T url gc unit pvUnitIds :: ('c, 'p, 't) ModbusClient ModbusConfig)) = Some (Ok mc)"
    using that by (cases unit) (simp_all add: newModbusPvs_nil [OF assms] NewVictronSystem_def NewModbusSystem_def newModbusGrid_def victronConfig_def)
  then show ?thesis
    using none [of "carloGavazziConfig T url gc unit pvUnitIds"] none [of "victronConfig T url gc unit pvUnitIds"]
    by (auto simp: NewCarloGavazziSystem_def NewVictronSystem_def carloGavazziConfig_def victronConfig_def)
qed

theorem pv_configs_panic_witness:
  "NewVictronSystem (\<lambda>_. Some (Ok (demo_tcp_client []))) (tcpTransportOps sockLink) ''tcp://venus:502'' None (Some 30) [20] = None"
  using pv_configs_panic [of "[20]" "\<lambda>_. Some (Ok (demo_tcp_client []))" "tcpTransportOps sockLink" "''tcp://venus:502''" None "Some 30"]
  by simp

text \<open>
  A running system keeps running.  Without PV meters, and with a client that could be connected,
  the constructors return a system with the grid that was asked for, or the error of a Carlo
  Gavazzi meter; after any number of ticks, whatever the meter answers or fails to answer, the
  client is open, and nothing of the system but the readings has changed.
\<close>

lemma system_keeps_reading:
  assumes "transport_contract T tinv wire framed" "client_inv tinv mc"
    and "connect (clientConfiguration config) = Some (Ok mc)"
    and "config = carloGavazziConfig T url gc unit [] \<or> config = victronConfig T url gc unit []"
  shows "\<exists>r. NewModbusSystem connect config = Some r
    \<and> (case r of Inl _ \<Rightarrow> config = carloGavazziConfig T url gc unit [] \<and> unit \<noteq> None
       | Inr (s, mc1) \<Rightarrow> sys_pvs s = None \<and> rel_option (new_grid gc) unit (sys_grid s)
          \<and> (\<forall>n. \<exists>mc2 s2. readTicks n config mc1 s = Some (mc2, s2) \<and> client_inv tinv mc2
               \<and> system_ok s2 \<and> same_system s s2))"
proof -
  have updates: "meter_updates config (client_inv tinv)"
    using assms(4) transport_contract.carlo_gavazzi_updates [OF assms(1)] transport_contract.victron_updates [OF assms(1)]
    by blast
  obtain r where r: "NewModbusSystem connect config = Some r"
    "case r of Inl _ \<Rightarrow> config = carloGavazziConfig T url gc unit [] \<and> unit \<noteq> None
       | Inr (s, mc') \<Rightarrow> client_inv tinv mc' \<and> sys_pvs s = None \<and> rel_option (new_grid gc) unit (sys_grid s) \<and> system_ok s"
    using transport_contract.new_system [OF assms(1), of connect config mc] assms(2-4) by blast
  with meter_updates.readTicks_ok [OF updates] show ?thesis
    by (auto split: sum.splits)
qed

lemma system_keeps_reading_witness:
  "\<exists>s mc1. NewVictronSystem (\<lambda>_. Some (Ok (demo_tcp_client [[1, 2, 3]]))) (tcpTransportOps sockLink) ''tcp://venus:502'' None (Some 30) []
      = Some (Ok (s, mc1)) \<and> sys_grid s \<noteq> None
    \<and> (\<exists>mc2 s2. readTicks 1000 (victronConfig (tcpTransportOps sockLink) ''tcp://venus:502'' None (Some 30) []) mc1 s = Some (mc2, s2)
         \<and> same_system s s2)"
proof -
  let ?connect = "\<lambda>_ :: (unit, unit) ClientConfiguration. Some (Ok (demo_tcp_client [[1, 2, 3]]))"
    and ?config = "victronConfig (tcpTransportOps sockLink) ''tcp://venus:502'' None (Some 30) []"
  have "carloGavazziConfig (tcpTransportOps sockLink) ''tcp://venus:502'' None (Some 30) [] \<noteq> ?config"
    "?config \<noteq> carloGavazziConfig (tcpTransportOps sockLink) ''tcp://venus:502'' None (Some 30) []"
    by (simp_all add: carloGavazziConfig_def victronConfig_def)
  with system_keeps_reading [OF tcp.transport_contract_axioms demo_tcp_client_inv, of ?connect ?config "[[1, 2, 3]]"
      "''tcp://venus:502''" None "Some 30"]
  show ?thesis
    by (cases "NewModbusSystem ?connect ?config"; cases "the (NewModbusSystem ?connect ?config)")
      (auto simp: NewVictronSystem_def option_rel_Some1, blast)
qed

end
