(* ===== verification/Any_Transport.thy ===== *)
theory Any_Transport
  imports Client_Config Client_Calls
begin

text \<open>
  A client that was opened from a URL has one of six transports.  A link that is embedded in another
  one carries its transports over (\<open>link_embedding\<close>), so that the transport of any client keeps the contract
  of a transport, and what \<open>Open\<close> makes keeps the invariant of its kind (\<open>client_environment\<close>).
\<close>

section \<open>Links inside links\<close>

text \<open>\<open>e\<close> embeds the states of the link \<open>L\<close> into those of \<open>M\<close>, and the methods agree.\<close>

locale link_embedding =
  fixes L :: "'s rtuLink" and M :: "'u rtuLink" and e :: "'s \<Rightarrow> 'u"
  assumes read_at: "link_Read M n (e s) = apsnd e (link_Read L n s)"
    and write_at: "link_Write M bs (e s) = apsnd e (link_Write L bs s)"
    and deadline_at: "link_SetDeadline M d (e s) = apsnd e (link_SetDeadline L d s)"
    and now_at: "time_Now M (e s) = time_Now L s"
    and sleep_at: "time_Sleep M d (e s) = e (time_Sleep L d s)"

text \<open>Transports over an embedded link.\<close>

definition map_tcp :: "('s \<Rightarrow> 'u) \<Rightarrow> 's tcpTransport \<Rightarrow> 'u tcpTransport" where
  "map_tcp e tt = \<lparr>tt_socket = e (tt_socket tt), tt_timeout = tt_timeout tt, tt_lastTxnId = tt_lastTxnId tt\<rparr>"

lemma map_tcp_simps [simp]:
  "tt_socket (map_tcp e tt) = e (tt_socket tt)" "tt_timeout (map_tcp e tt) = tt_timeout tt"
  "tt_lastTxnId (map_tcp e tt) = tt_lastTxnId tt"
  "(map_tcp e tt)\<lparr>tt_socket := e s\<rparr> = map_tcp e (tt\<lparr>tt_socket := s\<rparr>)"
  "(map_tcp e tt)\<lparr>tt_lastTxnId := t\<rparr> = map_tcp e (tt\<lparr>tt_lastTxnId := t\<rparr>)"
  by (simp_all add: map_tcp_def)

text \<open>
  A computation follows another: where that returns, it returns the same with the image of its state.
  The rules go through two computations in step.
\<close>

definition follows :: "('t \<Rightarrow> 'u) \<Rightarrow> ('a \<times> 't) option \<Rightarrow> ('a \<times> 'u) option \<Rightarrow> bool" where
  "follows m x x' \<longleftrightarrow> (\<forall>r t. x = Some (r, t) \<longrightarrow> x' = Some (r, m t))"

lemma followsD: "follows m x x' \<Longrightarrow> x = Some (r, t) \<Longrightarrow> x' = Some (r, m t)"
  by (simp add: follows_def)

lemma follows_Some: "t' = m t \<Longrightarrow> follows m (Some (r, t)) (Some (r, t'))"
  by (simp add: follows_def)

lemma follows_bind: "(\<And>a. follows m (f a) (g a)) \<Longrightarrow> follows m (x \<bind> f) (x \<bind> g)"
  by (cases x) (auto simp: follows_def)

lemma follows_if:
  "(b \<Longrightarrow> follows m x x') \<Longrightarrow> (\<not> b \<Longrightarrow> follows m y y') \<Longrightarrow> follows m (if b then x else y) (if b then x' else y')"
  by simp

lemma follows_sum:
  "(\<And>err. follows m (l err) (l' err)) \<Longrightarrow> (\<And>v. follows m (k v) (k' v)) \<Longrightarrow>
    follows m (case s of Inl err \<Rightarrow> l err | Inr v \<Rightarrow> k v) (case s of Inl err \<Rightarrow> l' err | Inr v \<Rightarrow> k' v)"
  by (cases s) simp_all

lemma follows_option:
  "follows m n n' \<Longrightarrow> (\<And>v. follows m (k v) (k' v)) \<Longrightarrow>
    follows m (case z of None \<Rightarrow> n | Some v \<Rightarrow> k v) (case z of None \<Rightarrow> n' | Some v \<Rightarrow> k' v)"
  by (cases z) simp_all

lemma follows_prod:
  "(\<And>v w. follows m (h v w) (h' v w)) \<Longrightarrow> follows m (case p of (v, w) \<Rightarrow> h v w) (case p of (v, w) \<Rightarrow> h' v w)"
  by (cases p) simp

lemma follows_state:
  "(\<And>v t. follows m (h v t) (h' v (m' t))) \<Longrightarrow> follows m' x x' \<Longrightarrow>
    follows m (x \<bind> (\<lambda>(v, t). h v t)) (x' \<bind> (\<lambda>(v, t). h' v t))"
  by (cases x) (auto simp: follows_def)

lemmas follows_rules = follows_Some follows_if follows_sum follows_option follows_prod follows_bind

context link_embedding begin

text \<open>What the inner link does, the outer link does.\<close>

lemma readLoop_embed:
  assumes "readLoop L n acc s = Some x"
  shows "readLoop M n acc (e s) = Some (apsnd e x)"
proof -
  have "L' = L \<longrightarrow> readLoop M n acc (e s) = Some (apsnd e x)" if "readLoop L' n acc s = Some x" for L'
  proof (rule readLoop.raw_induct [of "\<lambda>L' n acc s x. L' = L \<longrightarrow> readLoop M n acc (e s) = Some (apsnd e x)", OF _ that])
    fix self L' n acc s x
    assume IH: "\<And>L' n acc s x. self L' n acc s = Some x \<Longrightarrow> L' = L \<longrightarrow> readLoop M n acc (e s) = Some (apsnd e x)"
      and body: "(if length acc < n then
          case link_Read L' (n - length acc) s of
            ((bs, None), s') \<Rightarrow> self L' n (acc @ bs) s'
          | ((bs, Some err), s') \<Rightarrow> Some ((acc @ bs, Some err), s')
        else Some ((acc, None), s)) = Some x"
    obtain bs err s' where r: "link_Read L (n - length acc) s = ((bs, err), s')"
      by (metis surj_pair)
    show "L' = L \<longrightarrow> readLoop M n acc (e s) = Some (apsnd e x)"
    proof
      assume L': "L' = L"
      show "readLoop M n acc (e s) = Some (apsnd e x)"
      proof (cases "length acc < n \<and> err = None")
        case True
        with body r L' have "self L n (acc @ bs) s' = Some x" by simp
        from IH [OF this] True r show ?thesis
          by (subst readLoop.simps) (simp add: read_at)
      next
        case False
        with body r L' show ?thesis
          by (subst readLoop.simps) (auto simp: read_at split: option.splits if_splits)
      qed
    qed
  qed
  with assms show ?thesis by simp
qed

lemma io_ReadFull_embed:
  "io_ReadFull L n s = Some (x, s') \<Longrightarrow> io_ReadFull M n (e s) = Some (x, e s')"
  by (cases "readLoop L n [] s") (auto simp: io_ReadFull_def dest: readLoop_embed)

lemma discard_embed: "discard L s = Some s' \<Longrightarrow> discard M (e s) = Some (e s')"
  by (auto simp: discard_def bind_eq_Some_conv now_at deadline_at dest: io_ReadFull_embed)

lemma follows_read:
  "(\<And>bs err s'. follows m (f bs err s') (g bs err (e s'))) \<Longrightarrow>
    follows m (io_ReadFull L n s \<bind> (\<lambda>((bs, err), s'). f bs err s')) (io_ReadFull M n (e s) \<bind> (\<lambda>((bs, err), s'). g bs err s'))"
  by (auto simp: follows_def bind_eq_Some_conv dest: io_ReadFull_embed)

lemma readRTUFrame_embed: "follows (map_rtu e) (readRTUFrame L rt) (readRTUFrame M (map_rtu e rt))"
  unfolding readRTUFrame_def Let_def map_rtu_simps
  by (rule follows_read follows_rules map_rtu_simps(6))+

lemma readMBAPFrame_embed: "follows (map_tcp e) (readMBAPFrame L tt) (readMBAPFrame M (map_tcp e tt))"
  unfolding readMBAPFrame_def Let_def map_tcp_simps
  by (rule follows_read follows_rules map_tcp_simps(4))+

lemma rtu_finish_embed: "follows (map_rtu e) (rtu_finish L r rt) (rtu_finish M r (map_rtu e rt))"
  by (auto simp: follows_def rtu_finish_def rtu_Sleep_def Let_def bind_eq_Some_conv now_at sleep_at dest: discard_embed
      split: if_splits)

lemma rtu_steps_embed:
  "rtu_SetDeadline M (map_rtu e rt) = apsnd (map_rtu e) (rtu_SetDeadline L rt)"
  "rtu_Sleep M d (map_rtu e rt) = map_rtu e (rtu_Sleep L d rt)"
  "rtu_wait M (map_rtu e rt) = map_rtu e (rtu_wait L rt)"
  by (cases "link_SetDeadline L (time_Now L (rt_link rt) + rt_timeout rt) (rt_link rt)")
    (simp_all add: rtu_SetDeadline_def rtu_wait_def rtu_Sleep_def Let_def now_at deadline_at sleep_at)

lemma rtu_ExecuteRequest_embed: "follows (map_rtu e) (rtu_ExecuteRequest L req rt) (rtu_ExecuteRequest M req (map_rtu e rt))"
proof -
  obtain r rt1 where d: "rtu_SetDeadline L rt = (r, rt1)" by (rule prod.exhaust)
  let ?rt2 = "rtu_wait L rt1"
  obtain n err s where w: "link_Write L (assembleRTUFrame req) (rt_link ?rt2) = ((n, err), s)" by (metis surj_pair)
  show ?thesis
    using d w
    by (cases r; cases err)
      (auto simp: rtu_ExecuteRequest_def Let_def rtu_steps_embed write_at now_at
        intro!: follows_Some follows_state [OF _ readRTUFrame_embed] rtu_finish_embed)
qed

lemma readResponse_embed: "follows (map_tcp e) (readResponse L tt) (readResponse M (map_tcp e tt))"
proof -
  have "L' = L \<longrightarrow> readResponse M (map_tcp e tt) = Some (apsnd (map_tcp e) x)" if "readResponse L' tt = Some x" for L' x
  proof (rule readResponse.raw_induct [of "\<lambda>L' tt x. L' = L \<longrightarrow> readResponse M (map_tcp e tt) = Some (apsnd (map_tcp e) x)", OF _ that])
    fix self L' tt x
    assume IH: "\<And>L' tt x. self L' tt = Some x \<Longrightarrow> L' = L \<longrightarrow> readResponse M (map_tcp e tt) = Some (apsnd (map_tcp e) x)"
      and body: "readMBAPFrame L' tt \<bind> (\<lambda>(r, tt1). case r of
          Inl err \<Rightarrow> if err = ErrUnknownProtocolId then self L' tt1 else Some (Err err, tt1)
        | Inr (res, txnId) \<Rightarrow> if tt_lastTxnId tt1 \<noteq> txnId then self L' tt1 else Some (Ok res, tt1)) = Some x"
    show "L' = L \<longrightarrow> readResponse M (map_tcp e tt) = Some (apsnd (map_tcp e) x)"
    proof
      assume L': "L' = L"
      with body obtain r tt1 where r: "readMBAPFrame L tt = Some (r, tt1)"
        by (auto simp: bind_eq_Some_conv)
      from followsD [OF readMBAPFrame_embed r] body r L' show "readResponse M (map_tcp e tt) = Some (apsnd (map_tcp e) x)"
        by (subst readResponse.simps) (auto dest: IH split: sum.splits if_splits)
    qed
  qed
  then show ?thesis by (simp add: follows_def)
qed

lemma tcp_steps_embed:
  "tcp_SetDeadline M (map_tcp e tt) = apsnd (map_tcp e) (tcp_SetDeadline L tt)"
  "tcp_Write M bs (map_tcp e tt) = apsnd (map_tcp e) (tcp_Write L bs tt)"
  by (cases "link_SetDeadline L (time_Now L (tt_socket tt) + tt_timeout tt) (tt_socket tt)")
    (cases "link_Write L bs (tt_socket tt)", simp add: tcp_SetDeadline_def tcp_Write_def now_at deadline_at write_at)+

lemma tcp_ExecuteRequest_embed: "follows (map_tcp e) (tcp_ExecuteRequest L req tt) (tcp_ExecuteRequest M req (map_tcp e tt))"
proof -
  obtain r tt1 where d: "tcp_SetDeadline L tt = (r, tt1)" by (rule prod.exhaust)
  let ?tt2 = "tt1\<lparr>tt_lastTxnId := tt_lastTxnId tt1 + 1\<rparr>"
  obtain n err tt3 where w: "tcp_Write L (assembleMBAPFrame (tt_lastTxnId ?tt2) req) ?tt2 = ((n, err), tt3)" by (metis surj_pair)
  show ?thesis
    using d w
    by (cases r; cases err)
      (auto simp: tcp_ExecuteRequest_def Let_def tcp_steps_embed intro!: follows_Some readResponse_embed)
qed

end

section \<open>The links and transports of a client\<close>

interpretation serial_in: link_embedding "spwLink P" "anyLinkOps P S" SerialLink for P :: "'q Port" and S :: "'s rtuLink"
  by unfold_locales (simp_all add: anyLinkOps_def)

interpretation sock_in: link_embedding S "anyLinkOps P S" SockLink for P :: "'q Port" and S :: "'s rtuLink"
  by unfold_locales (simp_all add: anyLinkOps_def)

interpretation udp_in: link_embedding "uswLink S" "anyLinkOps P S" UdpLink for P :: "'q Port" and S :: "'s rtuLink"
  by unfold_locales (simp_all add: anyLinkOps_def)

text \<open>
  What is kept of the transport of a client: the invariant of its link.  MBAP frames do not go over serial lines.
\<close>

definition any_link_inv :: "('q \<Rightarrow> bool) \<Rightarrow> ('s \<Rightarrow> bool) \<Rightarrow> ('s udpSockWrapper \<Rightarrow> bool) \<Rightarrow> ('q, 's) anyLink \<Rightarrow> bool" where
  "any_link_inv pinv linv uinv l =
     (case l of SerialLink spw \<Rightarrow> pinv (spw_port spw) | SockLink s \<Rightarrow> linv s | UdpLink usw \<Rightarrow> uinv usw)"

definition any_inv :: "('q \<Rightarrow> bool) \<Rightarrow> ('s \<Rightarrow> bool) \<Rightarrow> ('s udpSockWrapper \<Rightarrow> bool) \<Rightarrow> ('q, 's) anyTransport \<Rightarrow> bool" where
  "any_inv pinv linv uinv t =
     (case t of
        RtuT rt \<Rightarrow> any_link_inv pinv linv uinv (rt_link rt)
      | TcpT tt \<Rightarrow> any_link_inv (\<lambda>_. False) linv uinv (tt_socket tt))"

lemma map_rtu_onto:
  assumes "rt_link rt = e s"
  obtains i where "rt = map_rtu e i" "rt_link i = s"
  by (rule that [of "map_rtu (\<lambda>_. s) rt"]) (use assms in \<open>simp_all add: map_rtu_def\<close>)

lemma map_tcp_onto:
  assumes "tt_socket tt = e s"
  obtains i where "tt = map_tcp e i" "tt_socket i = s"
  by (rule that [of "map_tcp (\<lambda>_. s) tt"]) (use assms in \<open>simp_all add: map_tcp_def\<close>)

text \<open>The interfaces a client is built on: a serial port, stream sockets, and datagram sockets in their wrapper.\<close>

locale client_links = serial_port P pinv + stream: byte_link S linv avail sent effort
    + dgram: byte_link "uswLink S" uinv uavail usent ueffort
  for P :: "'q Port" and pinv and S :: "'s rtuLink" and linv avail sent effort and uinv uavail usent ueffort
begin

lemma rtu_any_returns:
  assumes "any_link_inv pinv linv uinv (rt_link rt)"
  shows "\<exists>r rt'. rtu_ExecuteRequest (anyLinkOps P S) req rt = Some (r, rt') \<and> any_link_inv pinv linv uinv (rt_link rt')"
proof (cases "rt_link rt")
  case (SerialLink spw)
  then obtain i where i: "rt = map_rtu SerialLink i" "rt_link i = spw" by (rule map_rtu_onto)
  have "pinv (spw_port (rt_link i))" using assms i by (simp add: any_link_inv_def)
  then obtain r rt' where x: "rtu_ExecuteRequest (spwLink P) req i = Some (r, rt')" "pinv (spw_port (rt_link rt'))"
    using rtu_ExecuteRequest_ends by blast
  from followsD [OF serial_in.rtu_ExecuteRequest_embed [where S = S] x(1)] x(2) i(1) show ?thesis
    by (auto simp: any_link_inv_def)
next
  case (SockLink s)
  then obtain i where i: "rt = map_rtu SockLink i" "rt_link i = s" by (rule map_rtu_onto)
  have "linv (rt_link i)" using assms i by (simp add: any_link_inv_def)
  then obtain r rt' where x: "rtu_ExecuteRequest S req i = Some (r, rt')" "linv (rt_link rt')"
    using stream.rtu_ExecuteRequest_refines [of i req] by auto
  from followsD [OF sock_in.rtu_ExecuteRequest_embed [where P = P] x(1)] x(2) i(1) show ?thesis
    by (auto simp: any_link_inv_def)
next
  case (UdpLink usw)
  then obtain i where i: "rt = map_rtu UdpLink i" "rt_link i = usw" by (rule map_rtu_onto)
  have "uinv (rt_link i)" using assms i by (simp add: any_link_inv_def)
  then obtain r rt' where x: "rtu_ExecuteRequest (uswLink S) req i = Some (r, rt')" "uinv (rt_link rt')"
    using dgram.rtu_ExecuteRequest_refines [of i req] by auto
  from followsD [OF udp_in.rtu_ExecuteRequest_embed [where P = P] x(1)] x(2) i(1) show ?thesis
    by (auto simp: any_link_inv_def)
qed

lemma tcp_any_returns:
  assumes "any_link_inv (\<lambda>_. False) linv uinv (tt_socket tt)"
  shows "\<exists>r tt'. tcp_ExecuteRequest (anyLinkOps P S) req tt = Some (r, tt') \<and> any_link_inv (\<lambda>_. False) linv uinv (tt_socket tt')"
proof (cases "tt_socket tt")
  case (SockLink s)
  then obtain i where i: "tt = map_tcp SockLink i" "tt_socket i = s" by (rule map_tcp_onto)
  have "linv (tt_socket i)" using assms i by (simp add: any_link_inv_def)
  then obtain r tt' where x: "tcp_ExecuteRequest S req i = Some (r, tt')" "linv (tt_socket tt')"
    using stream.tcp_ExecuteRequest_refines [of i req] by auto
  from followsD [OF sock_in.tcp_ExecuteRequest_embed [where P = P] x(1)] x(2) i(1) show ?thesis
    by (auto simp: any_link_inv_def)
next
  case (UdpLink usw)
  then obtain i where i: "tt = map_tcp UdpLink i" "tt_socket i = usw" by (rule map_tcp_onto)
  have "uinv (tt_socket i)" using assms i by (simp add: any_link_inv_def)
  then obtain r tt' where x: "tcp_ExecuteRequest (uswLink S) req i = Some (r, tt')" "uinv (tt_socket tt')"
    using dgram.tcp_ExecuteRequest_refines [of i req] by auto
  from followsD [OF udp_in.tcp_ExecuteRequest_embed [where P = P] x(1)] x(2) i(1) show ?thesis
    by (auto simp: any_link_inv_def)
qed (use assms in \<open>simp add: any_link_inv_def\<close>)

end

sublocale client_links \<subseteq> any: transport_contract "anyTransportOps P S" "any_inv pinv linv uinv" "\<lambda>_. []" "\<lambda>_ _. []"
proof
  fix t req
  assume t: "any_inv pinv linv uinv t"
  show "\<exists>r t'. t_ExecuteRequest (anyTransportOps P S) req t = Some (r, t') \<and> any_inv pinv linv uinv t' \<and> [] = [] @ []"
  proof (cases t)
    case (RtuT rt)
    with t rtu_any_returns [of rt req] show ?thesis
      by (auto simp: anyTransportOps_def Let_def any_inv_def)
  next
    case (TcpT tt)
    with t tcp_any_returns [of tt req] show ?thesis
      by (auto simp: anyTransportOps_def Let_def any_inv_def)
  qed
qed

section \<open>Opening a client\<close>

text \<open>What dialing and opening promise: sockets and ports that keep the contracts of their kinds.\<close>

locale client_environment = client_links P pinv S linv avail sent effort uinv uavail usent ueffort
  for P :: "'q Port" and pinv and S :: "'s rtuLink" and linv avail sent effort and uinv uavail usent ueffort +
  fixes D :: "('c, 'p, 'q, 's) dialer"
  assumes tcp_dialed: "dial_net D ''tcp'' url = Ok s \<Longrightarrow> linv s"
    and udp_dialed: "dial_net D ''udp'' url = Ok s \<Longrightarrow> uinv (newUDPSockWrapper s)"
    and tls_dialed: "dial_tls D url cert pool = Ok s \<Longrightarrow> linv (snd (dial_handshake D s))"
    and serial_opened: "pinv (snd (serial_Open P c (dial_system D)))"
begin

lemma rtu_made:
  assumes "speed \<noteq> 0"
  obtains rt where "newRTUTransport link speed timeout = Some rt" "rt_link rt = link"
proof -
  have "\<exists>rt. newRTUTransport link speed timeout = Some rt \<and> rt_link rt = link"
    using assms by (auto simp: newRTUTransport_def serialCharTime_def)
  with that show thesis by blast
qed

lemma opened_inv:
  assumes "\<And>s. r = Ok s \<Longrightarrow> \<exists>t. k s = Some t \<and> tinv t"
    and "mc_endianness mc = BIG_ENDIAN" "mc_wordOrder mc = HIGH_WORD_FIRST"
  shows "\<exists>r' mc'. opened r k mc = Some (r', mc') \<and> (r' = Ok () \<longrightarrow> client_inv tinv mc')"
  using assms
  by (cases r) (fastforce simp: opened_def client_inv_def valid_encoding_def valid_endianness_def valid_word_order_def)+

text \<open>\<open>Open\<close> after \<open>NewClient\<close> comes back, and what it opened keeps its invariant.\<close>

lemma client_Open_inv:
  assumes "NewClient conf = (Ok (), mc)"
  shows "\<exists>r mc'. client_Open P S D mc = Some (r, mc') \<and> (r = Ok () \<longrightarrow> client_inv (any_inv pinv linv uinv) mc')"
proof -
  have enc: "mc_endianness mc = BIG_ENDIAN" "mc_wordOrder mc = HIGH_WORD_FIRST"
    by (rule NewClient_Ok [OF assms], assumption)+
  have speed: "cc_Speed (mc_conf mc) \<noteq> 0" if "is_rtu (mc_transportType mc)"
    by (rule NewClient_Ok [OF assms]) (use that in simp)
  note defs = client_Open_def Let_def any_inv_def any_link_inv_def is_rtu_def
  show ?thesis
  proof (cases "mc_transportType mc")
    case modbusRTU
    obtain r spw where o: "spw_Open P (newSerialPortWrapper \<lparr>spc_Device = cc_URL (mc_conf mc),
        spc_Speed = cc_Speed (mc_conf mc), spc_DataBits = cc_DataBits (mc_conf mc), spc_Parity = cc_Parity (mc_conf mc),
        spc_StopBits = cc_StopBits (mc_conf mc)\<rparr> (dial_system D)) = (r, spw)" (is "spw_Open P ?w = _")
      by (rule prod.exhaust)
    have "pinv (spw_port (snd (spw_Open P ?w)))"
      using serial_opened by (simp add: spw_Open_def Let_def newSerialPortWrapper_def apsnd_def map_prod_def split_beta)
    then obtain spw' where d: "discard (spwLink P) spw = Some spw'" "pinv (spw_port spw')"
      using discard_ends [of spw] o by auto
    obtain rt where "newRTUTransport (SerialLink spw' :: ('q, 's) anyLink) (cc_Speed (mc_conf mc)) (cc_Timeout (mc_conf mc)) = Some rt"
      "rt_link rt = SerialLink spw'"
      using rtu_made speed modbusRTU by (metis is_rtu_def insertI1)
    with modbusRTU o d show ?thesis
      by (cases r) (auto simp: defs intro!: opened_inv enc)
  next
    case modbusRTUOverTCP
    have "\<exists>t. (do { sock' \<leftarrow> discard S s;
        rt \<leftarrow> newRTUTransport (SockLink sock' :: ('q, 's) anyLink) (cc_Speed (mc_conf mc)) (cc_Timeout (mc_conf mc));
        Some (RtuT rt) }) = Some t \<and> any_inv pinv linv uinv t" if "linv s" for s
    proof -
      obtain s' where d: "discard S s = Some s'" "linv s'"
        using stream.discard_ok [OF \<open>linv s\<close>] by blast
      obtain rt where "newRTUTransport (SockLink s' :: ('q, 's) anyLink) (cc_Speed (mc_conf mc)) (cc_Timeout (mc_conf mc)) = Some rt"
        "rt_link rt = SockLink s'"
        using rtu_made speed modbusRTUOverTCP by (metis is_rtu_def insertI1 insertI2)
      with d show ?thesis by (simp add: defs)
    qed
    with modbusRTUOverTCP tcp_dialed show ?thesis
      by (auto simp: client_Open_def Let_def intro!: opened_inv enc)
  next
    case modbusRTUOverUDP
    have "\<exists>t. (do { rt \<leftarrow> newRTUTransport (UdpLink u :: ('q, 's) anyLink) (cc_Speed (mc_conf mc)) (cc_Timeout (mc_conf mc));
        Some (RtuT rt) }) = Some t \<and> any_inv pinv linv uinv t" if "uinv u" for u
    proof -
      obtain rt where "newRTUTransport (UdpLink u :: ('q, 's) anyLink) (cc_Speed (mc_conf mc)) (cc_Timeout (mc_conf mc)) = Some rt"
        "rt_link rt = UdpLink u"
        using rtu_made speed modbusRTUOverUDP by (metis is_rtu_def insertI1 insertI2)
      with that show ?thesis by (simp add: defs)
    qed
    with modbusRTUOverUDP udp_dialed show ?thesis
      by (auto simp: client_Open_def Let_def intro!: opened_inv enc)
  next
    case modbusTCP
    with tcp_dialed show ?thesis
      by (auto simp: defs newTCPTransport_def intro!: opened_inv enc)
  next
    case modbusTCPOverTLS
    obtain cert where "cc_TLSClientCert (mc_conf mc) = Some cert"
      using NewClient_Ok [OF assms] modbusTCPOverTLS by blast
    with modbusTCPOverTLS tls_dialed [of "cc_URL (mc_conf mc)" cert "cc_TLSRootCAs (mc_conf mc)"] show ?thesis
      by (auto simp: defs dialTLS_def newTCPTransport_def split: sum.splits prod.splits intro!: opened_inv enc)
  next
    case modbusTCPOverUDP
    with udp_dialed show ?thesis
      by (auto simp: defs newTCPTransport_def intro!: opened_inv enc)
  next
    case noTransport
    then show ?thesis by (simp add: client_Open_def)
  qed
qed

end

section \<open>Connections\<close>

text \<open>\<open>net.Conn\<close>: a stream socket or a datagram socket.\<close>

definition netConn :: "(sock + sock) rtuLink" where
  "netConn =
     \<lparr>link_Close = (\<lambda>c. case c of Inl s \<Rightarrow> apsnd Inl (link_Close sockLink s) | Inr d \<Rightarrow> apsnd Inr (link_Close udpConn d)),
      link_Read = (\<lambda>n c. case c of Inl s \<Rightarrow> apsnd Inl (link_Read sockLink n s) | Inr d \<Rightarrow> apsnd Inr (link_Read udpConn n d)),
      link_Write = (\<lambda>bs c. case c of Inl s \<Rightarrow> apsnd Inl (link_Write sockLink bs s) | Inr d \<Rightarrow> apsnd Inr (link_Write udpConn bs d)),
      link_SetDeadline = (\<lambda>t c. case c of Inl s \<Rightarrow> apsnd Inl (link_SetDeadline sockLink t s)
        | Inr d \<Rightarrow> apsnd Inr (link_SetDeadline udpConn t d)),
      time_Now = (\<lambda>c. case c of Inl s \<Rightarrow> time_Now sockLink s | Inr d \<Rightarrow> time_Now udpConn d),
      time_Sleep = (\<lambda>t c. case c of Inl s \<Rightarrow> Inl (time_Sleep sockLink t s) | Inr d \<Rightarrow> Inr (time_Sleep udpConn t d))\<rparr>"

abbreviation (input) "stream_of f z \<equiv> case_sum f (\<lambda>_. z)"
abbreviation (input) "dgram_of f z \<equiv> case_sum (\<lambda>_. z) f"

interpretation conn: byte_link netConn "stream_of sock_inv False" "stream_of sock_avail []" "stream_of tx []" "stream_of sock_effort 0"
  by unfold_locales
    (auto simp: sock_defs netConn_def split_sum_ex apsnd_def map_prod_def split: sum.splits list.splits if_splits prod.splits)

interpretation packet: datagram_link netConn "dgram_of sock_inv False" "dgram_of rx []" "dgram_of tx []"
  by unfold_locales (auto simp: sock_defs netConn_def udpConn_def udp_Read_def split_sum_ex split: sum.splits)

interpretation links: client_links "posixPort kernelOs" "\<lambda>_. True" netConn "stream_of sock_inv False" "stream_of sock_avail []"
    "stream_of tx []" "stream_of sock_effort 0" "usw_inv (dgram_of sock_inv False)" "usw_avail (dgram_of rx [])"
    "\<lambda>usw. dgram_of tx [] (usw_sock usw)" "usw_effort (dgram_of rx [])"
  by (intro client_links.intro kern.is_serial_port conn.byte_link_axioms packet.wrapped.byte_link_axioms)

end
