(* ===== verification/Enman.thy ===== *)
theory Enman
  imports Meters Any_Transport
begin

text \<open>
  The parts together: \<open>NewModbusSystem\<close> with the clients that \<open>NewClient\<close> and \<open>Open\<close> make, for both kinds of
  system, and the command of cmd/carlo, in any environment that keeps the contracts of serial ports
  and sockets.
\<close>

section \<open>Connecting\<close>

context client_environment begin

lemma connectClient_returns:
  "\<exists>r. connectClient P S D conf = Some r \<and> (\<forall>mc. r = Ok mc \<longrightarrow> client_inv (any_inv pinv linv uinv) mc)"
proof -
  obtain r mc where n: "NewClient conf = (r, mc :: ('c, 'p, ('q, 's) anyTransport) ModbusClient)"
    by (rule prod.exhaust)
  show ?thesis
  proof (cases r)
    case (Inr u)
    with n have "NewClient conf = (Ok (), mc)" by simp
    from client_Open_inv [OF this] obtain r' mc' where "client_Open P S D mc = Some (r', mc')"
      "r' = Ok () \<longrightarrow> client_inv (any_inv pinv linv uinv) mc'"
      by blast
    with n Inr show ?thesis by (cases r') (simp_all add: connectClient_def)
  qed (use n in \<open>simp add: connectClient_def\<close>)
qed

lemma system_from_url:
  assumes "config = carloGavazziConfig (anyTransportOps P S) url gc unit [] \<or> config = victronConfig (anyTransportOps P S) url gc unit []"
  shows "\<exists>r. NewModbusSystem (connectClient P S D) config = Some r
    \<and> (case r of Inl _ \<Rightarrow> True
       | Inr (s, mc1) \<Rightarrow> sys_pvs s = None \<and> rel_option (new_grid gc) unit (sys_grid s)
          \<and> (\<forall>n. \<exists>mc2 s2. readTicks n config mc1 s = Some (mc2, s2) \<and> system_ok s2 \<and> same_system s s2))"
proof -
  obtain r where r: "connectClient P S D (clientConfiguration config) = Some r"
    "\<forall>mc. r = Ok mc \<longrightarrow> client_inv (any_inv pinv linv uinv) mc"
    using connectClient_returns by blast
  show ?thesis
  proof (cases r)
    case (Inl e)
    with r show ?thesis by (simp add: NewModbusSystem_def)
  next
    case (Inr mc)
    have updates: "meter_updates config (client_inv (any_inv pinv linv uinv))"
      using assms any.carlo_gavazzi_updates any.victron_updates by blast
    from any.new_system [of "connectClient P S D" config mc] r Inr assms
    obtain r' where "NewModbusSystem (connectClient P S D) config = Some r'"
      "case r' of Inl _ \<Rightarrow> config = carloGavazziConfig (anyTransportOps P S) url gc unit [] \<and> unit \<noteq> None
       | Inr (s, mc') \<Rightarrow> client_inv (any_inv pinv linv uinv) mc' \<and> sys_pvs s = None
          \<and> rel_option (new_grid gc) unit (sys_grid s) \<and> system_ok s"
      by blast
    with meter_updates.readTicks_ok [OF updates] show ?thesis
      by (auto split: sum.splits) blast
  qed
qed

end

section \<open>An environment\<close>

definition demo_environment :: "byte list list \<Rightarrow> (unit, unit, kernel posix_port, sock + sock) dialer" where
  "demo_environment segs =
     (let open_sock = \<lparr>rx = segs, rx_end = EOF, tx = [], is_open = True, sock_deadline = 0, clock = 0\<rparr> in
      \<lparr>dial_net = (\<lambda>network _. Ok (if network = ''udp'' then Inr open_sock else Inl open_sock)),
       dial_tls = (\<lambda>_ _ _. Ok (Inl open_sock)), dial_handshake = (\<lambda>s. (Ok (), s)), dial_system = demo_port [1, 4, 2, 0, 71]\<rparr>)"

interpretation demo: client_environment "posixPort kernelOs" "\<lambda>_. True" netConn "stream_of sock_inv False" "stream_of sock_avail []"
    "stream_of tx []" "stream_of sock_effort 0" "usw_inv (dgram_of sock_inv False)" "usw_avail (dgram_of rx [])"
    "\<lambda>usw. dgram_of tx [] (usw_sock usw)" "usw_effort (dgram_of rx [])" "demo_environment segs"
  by (intro client_environment.intro links.client_links_axioms, unfold_locales)
    (auto simp: demo_environment_def Let_def sock_inv_def framing_error_def usw_inv_def newUDPSockWrapper_def split: if_splits)

section \<open>CarloGReader\<close>

text \<open>
  cmd/carlo/CarloGReader.go prints three registers of a meter on the first serial port, or the first error,
  and then exits with -1.  \<open>println\<close> is a list of what is printed.
\<close>

datatype printed = PrintError go_error | PrintValue string uint16

definition printRegister ::
  "'t transport \<Rightarrow> string \<Rightarrow> uint16 \<Rightarrow> (('c, 'p, 't) ModbusClient \<Rightarrow> (printed list \<times> int) option)
    \<Rightarrow> ('c, 'p, 't) ModbusClient \<Rightarrow> (printed list \<times> int) option" where
  "printRegister T label addr rest mc = do {
     (r, mc1) \<leftarrow> ReadRegisters T addr 1 INPUT_REGISTER mc;
     (case r of
        Inl e \<Rightarrow> Some ([PrintError e], -1)
      | Inr values \<Rightarrow> do {
          v \<leftarrow> go_index values 0;
          (out, code) \<leftarrow> rest mc1;
          Some (PrintValue label v # out, code) }) }"

definition carlo_main ::
  "'q Port \<Rightarrow> 's rtuLink \<Rightarrow> ('c, 'p, 'q, 's) dialer \<Rightarrow> (printed list \<times> int) option" where
  "carlo_main P S D =
     (let T = anyTransportOps P S;
          conf = \<lparr>cc_URL = ''rtu:///dev/ttyUSB0'', cc_Speed = 9600, cc_DataBits = 0, cc_Parity = 0, cc_StopBits = 0,
            cc_Timeout = 0, cc_TLSClientCert = None, cc_TLSRootCAs = None\<rparr>
      in case NewClient conf of
        (Inl e, _) \<Rightarrow> Some ([PrintError e], -1)
      | (Inr _, mc) \<Rightarrow> do {
          (r, mc1) \<leftarrow> client_Open P S D mc;
          (case r of
             Inl e \<Rightarrow> Some ([PrintError e], -1)
           | Inr _ \<Rightarrow>
               printRegister T ''EM24 model: '' 0xb
                 (printRegister T ''Application type: '' 0x1101
                   (printRegister T ''Password: '' 0x1100 (\<lambda>_. Some ([], 0)))) (SetUnitId 2 mc1)) })"

text \<open>What it prints: the three values and success, or what was read before the first error and failure.\<close>

definition prints :: "string list \<Rightarrow> printed list \<times> int \<Rightarrow> bool" where
  "prints labels result \<longleftrightarrow>
     (\<exists>vs. result = (map2 PrintValue labels vs, 0) \<and> length vs = length labels)
     \<or> (\<exists>vs e. result = (map2 PrintValue labels vs @ [PrintError e], -1) \<and> length vs < length labels)"

lemma prints_Cons:
  assumes "prints labels (out, code)"
  shows "prints (label # labels) (PrintValue label v # out, code)"
  using assms unfolding prints_def
proof
  assume "\<exists>vs. (out, code) = (map2 PrintValue labels vs, 0) \<and> length vs = length labels"
  then obtain vs where "(out, code) = (map2 PrintValue labels vs, 0)" "length vs = length labels" by blast
  then show "(\<exists>vs. (PrintValue label v # out, code) = (map2 PrintValue (label # labels) vs, 0) \<and> length vs = length (label # labels))
      \<or> (\<exists>vs e. (PrintValue label v # out, code) = (map2 PrintValue (label # labels) vs @ [PrintError e], -1) \<and> length vs < length (label # labels))"
    by (intro disjI1 exI [of _ "v # vs"]) simp
next
  assume "\<exists>vs e. (out, code) = (map2 PrintValue labels vs @ [PrintError e], -1) \<and> length vs < length labels"
  then obtain vs e where "(out, code) = (map2 PrintValue labels vs @ [PrintError e], -1)" "length vs < length labels" by blast
  then show "(\<exists>vs. (PrintValue label v # out, code) = (map2 PrintValue (label # labels) vs, 0) \<and> length vs = length (label # labels))
      \<or> (\<exists>vs e. (PrintValue label v # out, code) = (map2 PrintValue (label # labels) vs @ [PrintError e], -1) \<and> length vs < length (label # labels))"
    by (intro disjI2 exI [of _ "v # vs"] exI [of _ e]) simp
qed

lemma prints_error: "labels \<noteq> [] \<Longrightarrow> prints labels ([PrintError e], -1)"
  unfolding prints_def by (intro disjI2 exI [of _ "[]"] exI [of _ e]) simp

context transport_contract begin

lemma printRegister_prints:
  assumes "client_inv tinv mc" "\<And>mc. client_inv tinv mc \<Longrightarrow> \<exists>res. rest mc = Some res \<and> prints labels res"
  shows "\<exists>res. printRegister T label addr rest mc = Some res \<and> prints (label # labels) res"
proof -
  obtain t where t: "mc_transport mc = Some t" "tinv t" and v: "valid_encoding (mc_endianness mc) (mc_wordOrder mc)"
    using assms(1) by (auto simp: client_inv_def)
  from typed_back(1) [OF t v, of addr 1 INPUT_REGISTER] v
  obtain r mc1 where r: "ReadRegisters T addr 1 INPUT_REGISTER mc = Some (r, mc1)" "client_inv tinv mc1"
    by (auto simp: comes_back_def client_inv_def)
  show ?thesis
  proof (cases r)
    case (Inl e)
    with r show ?thesis by (simp add: printRegister_def prints_error)
  next
    case (Inr us)
    with typed_read_lengths(1) [OF v] r(1) have "length us = 1" by fastforce
    then have u: "go_index us 0 = Some (us ! 0)" by (simp add: go_index_def)
    obtain out code where "rest mc1 = Some (out, code)" "prints labels (out, code)"
      using assms(2) [OF r(2)] by auto
    with r Inr u show ?thesis by (auto simp: printRegister_def intro!: prints_Cons)
  qed
qed

end

context client_environment begin

lemma carlo_main_prints:
  "\<exists>res. carlo_main P S D = Some res \<and> prints [''EM24 model: '', ''Application type: '', ''Password: ''] res"
proof -
  let ?conf = "\<lparr>cc_URL = ''rtu:///dev/ttyUSB0'', cc_Speed = 9600, cc_DataBits = 0, cc_Parity = 0, cc_StopBits = 0,
    cc_Timeout = 0, cc_TLSClientCert = None, cc_TLSRootCAs = None\<rparr> :: ('c, 'p) ClientConfiguration"
  obtain r mc where n: "NewClient ?conf = (r, mc :: ('c, 'p, ('q, 's) anyTransport) ModbusClient)"
    by (rule prod.exhaust)
  show ?thesis
  proof (cases r)
    case (Inl e)
    with n show ?thesis by (simp add: carlo_main_def Let_def prints_error)
  next
    case (Inr u)
    with n have ok: "NewClient ?conf = (Ok (), mc)" by simp
    from client_Open_inv [OF ok] obtain r' mc1 where o: "client_Open P S D mc = Some (r', mc1)"
      "r' = Ok () \<longrightarrow> client_inv (any_inv pinv linv uinv) mc1"
      by blast
    show ?thesis
    proof (cases r')
      case (Inl e)
      with ok o show ?thesis by (simp add: carlo_main_def Let_def prints_error)
    next
      case (Inr u')
      with o have "client_inv (any_inv pinv linv uinv) (SetUnitId 2 mc1)"
        by (simp add: client_inv_SetUnitId)
      then have "\<exists>res. printRegister (anyTransportOps P S) ''EM24 model: '' 0xb
          (printRegister (anyTransportOps P S) ''Application type: '' 0x1101
            (printRegister (anyTransportOps P S) ''Password: '' 0x1100 (\<lambda>_. Some ([], 0)))) (SetUnitId 2 mc1) = Some res
        \<and> prints [''EM24 model: '', ''Application type: '', ''Password: ''] res"
        by (intro any.printRegister_prints) (auto simp: prints_def)
      with ok o Inr show ?thesis by (simp add: carlo_main_def Let_def)
    qed
  qed
qed

end

section \<open>Properties\<close>

text \<open>
  C4: the program from the URL to the readings.  In any environment whose serial ports and sockets keep
  their contracts, connecting over any of the six kinds of transport and making a system of either
  kind without PV meters returns an error or a system with the grid that was asked for; the reading
  loop then goes through any number of ticks without a panic and without hanging, whatever comes
  over the line, and changes nothing of the system but its readings.
\<close>

theorem system_end_to_end:
  fixes D :: "('c, 'p, 'q, 's) dialer"
  assumes "client_environment P pinv S linv avail sent effort uinv uavail usent ueffort D"
    and "config = carloGavazziConfig (anyTransportOps P S) url gc unit [] \<or> config = victronConfig (anyTransportOps P S) url gc unit []"
  shows "\<exists>r. NewModbusSystem (connectClient P S D) config = Some r
    \<and> (case r of Inl _ \<Rightarrow> True
       | Inr (s, mc1) \<Rightarrow> sys_pvs s = None \<and> rel_option (new_grid gc) unit (sys_grid s)
          \<and> (\<forall>n. \<exists>mc2 s2. readTicks n config mc1 s = Some (mc2, s2) \<and> system_ok s2 \<and> same_system s s2))"
  by (rule client_environment.system_from_url [OF assms])

lemma demo_connects:
  "\<exists>mc. connectClient (posixPort kernelOs) netConn (demo_environment segs)
      (clientConfiguration (victronConfig T ''tcp://venus:502'' gc unit [])) = Some (Ok mc)"
  by (simp add: connectClient_def clientConfiguration_def victronConfig_def NewClient_def Let_def client_Open_def opened_def
      demo_environment_def)

theorem system_end_to_end_witness:
  "\<exists>s mc1. NewModbusSystem (connectClient (posixPort kernelOs) netConn (demo_environment [[1, 2, 3]]))
      (victronConfig (anyTransportOps (posixPort kernelOs) netConn) ''tcp://venus:502'' None (Some 30) []) = Some (Ok (s, mc1))
    \<and> (\<forall>n. \<exists>mc2 s2. readTicks n (victronConfig (anyTransportOps (posixPort kernelOs) netConn) ''tcp://venus:502'' None (Some 30) []) mc1 s
         = Some (mc2, s2) \<and> same_system s s2)"
proof -
  let ?connect = "connectClient (posixPort kernelOs) netConn (demo_environment [[1, 2, 3]])"
    and ?config = "victronConfig (anyTransportOps (posixPort kernelOs) netConn) ''tcp://venus:502'' None (Some 30) []
      :: (unit, unit, (kernel posix_port, sock + sock) anyTransport) ModbusClient ModbusConfig"
  obtain mc where mc: "?connect (clientConfiguration ?config) = Some (Ok mc)"
    using demo_connects by blast
  have "\<exists>s mc1. NewModbusSystem ?connect ?config = Some (Ok (s, mc1))"
    using mc by (simp add: NewModbusSystem_def victronConfig_def newModbusGrid_def pvConfigs_eq)
  then obtain s mc1 where "NewModbusSystem ?connect ?config = Some (Ok (s, mc1))" by blast
  moreover from this system_end_to_end [OF demo.client_environment_axioms [of "[[1, 2, 3]]"], of ?config
      "''tcp://venus:502''" None "Some 30"]
  have "\<forall>n. \<exists>mc2 s2. readTicks n ?config mc1 s = Some (mc2, s2) \<and> same_system s s2"
    by (auto, blast)
  ultimately show ?thesis by blast
qed

end
