(* ===== verification/Dashboard.thy ===== *)
theory Dashboard
  imports Enman
begin

text \<open>
  cmd/EnMan.go: the command that makes a Victron system, prints its readings every second and serves
  them over HTTP, as text and as JSON.  The goroutines and the requests are a sequence of events in
  any order; a tick of the reading loop is one event.  The texts are standard output's; what \<open>println\<close> adds on
  standard error (the count of \<open>fmt.Printf\<close>) and a failing \<open>ListenAndServe\<close> are left out.
\<close>

section \<open>Texts\<close>

text \<open>
  \<open>%4.2f\<close> of a \<open>float32\<close>: the value rounded to hundredths, ties to even, padded to four characters.
  The padding shows only with NaN.
\<close>

definition digit :: "nat \<Rightarrow> char" where
  "digit n = char_of (48 + n mod 10)"

definition hundredths :: "float32 \<Rightarrow> nat" where
  "hundredths x = nat (round_even (100 * mag_rat (f32_mag x)))"

definition fixed2 :: "float32 \<Rightarrow> string" where
  "fixed2 x =
     (let h = hundredths x;
          text = (if f32_nan x then ''NaN''
                  else if f32_inf x then (if f32_neg x then ''-Inf'' else ''+Inf'')
                  else (if f32_neg x then ''-'' else []) @ decimal (h div 100) @ ''.'' @ [digit (h div 10), digit h])
      in replicate (4 - length text) CHR '' '' @ text)"

text \<open>The text for a flow; both formats differ in their first word only.\<close>

definition usage :: "string \<Rightarrow> EnergyFlowBase \<Rightarrow> string" where
  "usage first flow =
     first @ decimal (unat (flow_Phases flow))
     @ '', Power '' @ fixed2 (TotalPower flow) @ ''W (L1: '' @ fixed2 (flow_Power 0 flow) @ ''W, L2: '' @ fixed2 (flow_Power 1 flow)
     @ ''W, L3: '' @ fixed2 (flow_Power 2 flow)
     @ ''W), Current '' @ fixed2 (TotalCurrent flow) @ ''A (L1: '' @ fixed2 (flow_Current 0 flow) @ ''A, L2: ''
     @ fixed2 (flow_Current 1 flow) @ ''A, L3: '' @ fixed2 (flow_Current 2 flow)
     @ ''A), Voltage (L1: '' @ fixed2 (flow_Voltage 0 flow) @ ''V, L2: '' @ fixed2 (flow_Voltage 1 flow) @ ''V, L3: ''
     @ fixed2 (flow_Voltage 2 flow) @ ''V)''"

text \<open>What a tick of \<open>printUsage\<close> writes to standard output; its loop takes \<open>pvs[0]\<close> each time.\<close>

definition printUsage :: "(modbusGrid, modbusPv) System \<Rightarrow> string list" where
  "printUsage s =
     (case sys_grid s of None \<Rightarrow> [] | Some g \<Rightarrow> [usage ''Phases: '' (gb_flow (mg_GridBase g))])
     @ (case sys_pvs s of None \<Rightarrow> []
        | Some pvs \<Rightarrow> map (\<lambda>ix. usage ''PV phases: '' (pv_flow (mp_PvBase (pvs ! 0)))) [0..<length pvs])"

section \<open>Requests\<close>

text \<open>
  The answers of the HTTP handlers: a text, a JSON document, nothing, or the connection that
  \<open>net/http\<close> closes when a handler panics; and the redirection that \<open>ServeMux\<close> answers for them.
\<close>

datatype answer = Text string | Json any | Nothing | Aborted | Moved string

definition printStatusAsHtml :: "(modbusGrid, modbusPv) System \<Rightarrow> answer" where
  "printStatusAsHtml s =
     (case sys_grid s of
        None \<Rightarrow> Text ''Grid not found''
      | Some g \<Rightarrow> Text (usage ''Phases: '' (gb_flow (mg_GridBase g))))"

text \<open>\<open>json.Marshal\<close> fails on floats that are not finite.\<close>

fun json_ok :: "any \<Rightarrow> bool" where
  "json_ok (AnyFloat32 x) \<longleftrightarrow> f32_finite x"
| "json_ok (AnyMap m) \<longleftrightarrow> (\<forall>p\<in>set m. json_ok (snd p))"
| "json_ok (AnyMaps vs) \<longleftrightarrow> (\<forall>v\<in>set vs. json_ok v)"
| "json_ok _ \<longleftrightarrow> True"

definition dataAsJson :: "(modbusGrid, modbusPv) System \<Rightarrow> answer" where
  "dataAsJson s =
     (case sys_ToMap (\<lambda>g. gb_ToMap (mg_GridBase g)) (\<lambda>p. flow_ToMap (pv_flow (mp_PvBase p))) s of
        None \<Rightarrow> Aborted
      | Some m \<Rightarrow>
          let data = AnyMap [(''system'', AnyMap m)] in
          if json_ok data then Json data else Nothing)"

section \<open>The command\<close>

text \<open>
  \<open>cleanPath\<close> of \<open>net/http\<close>, with \<open>path.Clean\<close> on a path that begins with a slash: empty elements and \<open>.\<close> go,
  \<open>..\<close> takes the element before it, and a slash at the end stays.
\<close>

fun split_slash :: "string \<Rightarrow> string list" where
  "split_slash [] = [[]]"
| "split_slash (c # s) =
     (if c = CHR ''/'' then [] # split_slash s else (c # hd (split_slash s)) # tl (split_slash s))"

definition join_slash :: "string list \<Rightarrow> string" where
  "join_slash parts = concat (map ((#) (CHR ''/'')) parts)"

definition path_step :: "string \<Rightarrow> string list \<Rightarrow> string list" where
  "path_step part parts =
     (if part = [] \<or> part = ''.'' then parts else if part = ''..'' then butlast parts else parts @ [part])"

definition cleanPath :: "string \<Rightarrow> string" where
  "cleanPath path =
     (let rooted = (if path \<noteq> [] \<and> hd path = CHR ''/'' then path else CHR ''/'' # path);
          parts = fold path_step (split_slash rooted) []
      in if parts = [] then ''/'' else join_slash parts @ (if last rooted = CHR ''/'' then ''/'' else []))"

text \<open>
  After \<open>main\<close> has started its goroutines the system is read by the reading loop, the printing loop
  and the handlers, in any order; \<open>ServeMux\<close> redirects to the clean path, gives \<open>/api\<close> to one handler and every
  other path to the other.
\<close>

datatype event = Tick | Usage | Get string
datatype shown = Printed "string list" | Answered answer

definition enman_mux :: "string \<Rightarrow> (modbusGrid, modbusPv) System \<Rightarrow> answer" where
  "enman_mux path s =
     (if cleanPath path \<noteq> path then Moved (cleanPath path)
      else if path = ''/api'' then dataAsJson s else printStatusAsHtml s)"

fun enman_run :: "'m ModbusConfig \<Rightarrow> 'm \<Rightarrow> (modbusGrid, modbusPv) System \<Rightarrow> event list \<Rightarrow> shown list option" where
  "enman_run config client s [] = Some []"
| "enman_run config client s (Tick # es) = do {
     (client1, s1) \<leftarrow> readSystemValues config client s;
     enman_run config client1 s1 es }"
| "enman_run config client s (Usage # es) = do {
     out \<leftarrow> enman_run config client s es;
     Some (Printed (printUsage s) # out) }"
| "enman_run config client s (Get path # es) = do {
     out \<leftarrow> enman_run config client s es;
     Some (Answered (enman_mux path s) # out) }"

text \<open>\<open>main\<close>; an error is the one it panics with.\<close>

definition enman_main ::
  "'q Port \<Rightarrow> 's rtuLink \<Rightarrow> ('c, 'p, 'q, 's) dialer \<Rightarrow> event list \<Rightarrow> shown list result option" where
  "enman_main P S D es =
     (case NewGridConfig (f32_of_int 230) (f32_of_int 25) 3 of
        Inl e \<Rightarrow> Some (Err e)
      | Inr gc \<Rightarrow>
          let T = anyTransportOps P S; url = ''tcp://einstein.energy.cleme:502'' in do {
            r \<leftarrow> NewVictronSystem (connectClient P S D) T url (Some gc) (Some 31) [];
            (case r of
               Inl e \<Rightarrow> Some (Err e)
             | Inr (system, client) \<Rightarrow>
                 map_option Ok (enman_run (victronConfig T url (Some gc) (Some 31) []) client system es)) })"

section \<open>Documents of finite numbers\<close>

lemma json_ok_update: "json_ok (AnyMap m) \<Longrightarrow> json_ok v \<Longrightarrow> json_ok (AnyMap (AList.update k v m))"
  by (induction m) auto

lemma three_total:
  assumes "length xs = 3" "\<forall>x\<in>set xs. f32_finite x \<and> \<bar>f32_rat x\<bar> \<le> 2 ^ 16"
  shows "f32_finite (fold (\<lambda>x total. f32_add total x) xs f32_zero)"
proof -
  obtain a b c where xs: "xs = [a, b, c]"
    using assms(1) by (auto simp: numeral_3_eq_3 length_Suc_conv)
  have z: "f32_finite f32_zero" "\<bar>f32_rat f32_zero\<bar> \<le> 2 ^ 16"
    by (simp_all add: f32_finite_def infMag_def f32_rat_def)
  have abc: "f32_finite a" "\<bar>f32_rat a\<bar> \<le> 2 ^ 16" "f32_finite b" "\<bar>f32_rat b\<bar> \<le> 2 ^ 16" "f32_finite c" "\<bar>f32_rat c\<bar> \<le> 2 ^ 16"
    using assms(2) by (simp_all add: xs)
  note 1 = f32_add_small [OF z(1) abc(1) z(2) abc(2)]
  have b: "\<bar>f32_rat b\<bar> \<le> 3 * 2 ^ 16" "\<bar>f32_rat c\<bar> \<le> 3 * (3 * 2 ^ 16)" using abc by simp_all
  have 1: "f32_finite (f32_add f32_zero a)" "\<bar>f32_rat (f32_add f32_zero a)\<bar> \<le> 3 * 2 ^ 16"
    by (rule 1; simp)+
  have 2: "f32_finite (f32_add (f32_add f32_zero a) b)" "\<bar>f32_rat (f32_add (f32_add f32_zero a) b)\<bar> \<le> 3 * (3 * 2 ^ 16)"
    by (rule f32_add_small [OF 1(1) abc(3) 1(2) b(1)]; simp)+
  have "f32_finite (f32_add (f32_add (f32_add f32_zero a) b) c)"
    by (rule f32_add_small(1) [OF 2(1) abc(5) 2(2) b(2)]) simp_all
  then show ?thesis by (simp add: xs)
qed

lemma flow_fine_arrays:
  assumes "flow_fine flow"
  shows "\<forall>x\<in>set (efb_power flow). f32_finite x \<and> \<bar>f32_rat x\<bar> \<le> 2 ^ 16"
    and "\<forall>x\<in>set (efb_current flow). f32_finite x \<and> \<bar>f32_rat x\<bar> \<le> 2 ^ 16"
proof -
  have len: "length (efb_power flow) = 3" "length (efb_current flow) = 3"
    using assms by (simp_all add: flow_fine_def flow_ok_def)
  have fine: "f32_finite (reading_of what line flow) \<and> \<bar>f32_rat (reading_of what line flow)\<bar> \<le> 2 ^ 16" for what line
    using assms by (simp add: flow_fine_def)
  have "efb_power flow ! k = reading_of Watt (word_of_nat k) flow \<and> efb_current flow ! k = reading_of Amp (word_of_nat k) flow"
    if "k < 3" for k
    using that by (simp add: reading_of_def flow_Power_def flow_Current_def validLineIx_iff unat_of_nat)
  with fine len show "\<forall>x\<in>set (efb_power flow). f32_finite x \<and> \<bar>f32_rat x\<bar> \<le> 2 ^ 16"
    and "\<forall>x\<in>set (efb_current flow). f32_finite x \<and> \<bar>f32_rat x\<bar> \<le> 2 ^ 16"
    by (metis in_set_conv_nth)+
qed

lemma flow_json: "flow_fine flow \<Longrightarrow> json_ok (AnyMap (flow_ToMap flow))"
proof -
  assume fine: "flow_fine flow"
  then have len: "length (efb_power flow) = 3" "length (efb_current flow) = 3"
    by (simp_all add: flow_fine_def flow_ok_def)
  have line: "f32_finite (flow_Voltage k flow)" "f32_finite (flow_Current k flow)" "f32_finite (flow_Power k flow)" for k
    using fine unfolding flow_fine_def reading_of_def by (metis reading.case)+
  let ?line = "\<lambda>ix. AnyMap [(''voltage'', AnyFloat32 (flow_Voltage (word_of_nat ix) flow)),
      (''current'', AnyFloat32 (flow_Current (word_of_nat ix) flow)), (''power'', AnyFloat32 (flow_Power (word_of_nat ix) flow))]"
  have "json_ok (AnyMap (fold (\<lambda>ix data. AList.update (''l'' @ decimal ix) (?line ix) data) ixs data))"
    if "json_ok (AnyMap data)" for ixs data
    using that
  proof (induction ixs arbitrary: data)
    case (Cons ix ixs)
    have "json_ok (?line ix)" by (simp add: line)
    from Cons.IH [OF json_ok_update [OF Cons.prems this]] show ?case
      unfolding fold_simps .
  qed (simp only: fold_simps)
  moreover have "json_ok (AnyMap [(''phases'', AnyUint8 (flow_Phases flow)), (''total_current'', AnyFloat32 (TotalCurrent flow)),
      (''total_power'', AnyFloat32 (TotalPower flow))])"
    using three_total [OF len(1) flow_fine_arrays(1) [OF fine]] three_total [OF len(2) flow_fine_arrays(2) [OF fine]]
    by (simp add: TotalPower_def TotalCurrent_def)
  ultimately show ?thesis unfolding flow_ToMap_def Let_def .
qed

section \<open>The texts of numbers\<close>

text \<open>The number that a text of digits stands for, other characters left out.\<close>

definition digits_value :: "string \<Rightarrow> nat" where
  "digits_value text = fold (\<lambda>c n. 10 * n + (of_char c - 48)) (filter (\<lambda>c. of_char c \<in> {48..<58 :: nat}) text) 0"

lemma of_digit [simp]: "of_char (char_of (48 + n mod 10) :: char) = 48 + n mod (10 :: nat)"
proof -
  have "n mod 10 < 10" by simp
  then have "48 + n mod 10 < 256" by linarith
  then show ?thesis by (simp add: mod_less)
qed

lemma digits_value_snoc:
  "digits_value (text @ [digit n]) = 10 * digits_value text + n mod 10"
proof -
  have "n mod 10 < 10" by simp
  then have "48 + n mod 10 < 58" by linarith
  then show ?thesis by (simp add: digits_value_def digit_def)
qed

lemma digits_value_other: "of_char c \<notin> {48..<58 :: nat} \<Longrightarrow> digits_value (c # text) = digits_value text"
  "of_char c \<notin> {48..<58 :: nat} \<Longrightarrow> digits_value (text @ [c]) = digits_value text"
  by (auto simp: digits_value_def)

lemma decimal_snoc: "decimal n = (if n < 10 then [] else decimal (n div 10)) @ [digit n]"
  by (subst decimal.simps) (simp add: digit_def)

lemma digits_value_decimal: "digits_value (decimal n) = n"
proof (induction n rule: less_induct)
  case (less n)
  show ?case
  proof (cases "n < 10")
    case True
    then show ?thesis
      by (subst decimal_snoc) (simp add: digits_value_def digit_def)
  next
    case False
    with less.IH [of "n div 10"] show ?thesis
      by (subst decimal_snoc) (simp add: digits_value_snoc)
  qed
qed

lemma round_even_nonneg: "0 \<le> q \<Longrightarrow> 0 \<le> round_even q"
  by (auto simp: round_even_def Let_def)

text \<open>The text of a number shows its sign and the nearest hundredth.\<close>

lemma fixed2_value:
  assumes "f32_finite x"
  shows "\<bar>of_nat (digits_value (fixed2 x)) / 100 - \<bar>f32_rat x\<bar>\<bar> \<le> 1 / 200" "(hd (fixed2 x) = CHR ''-'') = f32_neg x"
proof -
  let ?h = "hundredths x" and ?neg = "if f32_neg x then ''-'' else []"
  have num: "\<not> f32_nan x" "\<not> f32_inf x"
    using assms by (simp_all add: f32_finite_def f32_nan_def f32_inf_def)
  have ne: "decimal n \<noteq> []" for n by (subst decimal_snoc) simp
  then have "1 \<le> length (decimal n)" for n
    by (simp add: Suc_le_eq)
  from this [of "?h div 100"] have shape: "fixed2 x = ?neg @ decimal (?h div 100) @ ''.'' @ [digit (?h div 10), digit ?h]"
    using num by (simp add: fixed2_def Let_def)
  have "digits_value (decimal (?h div 100) @ ''.'' @ [digit (?h div 10), digit ?h])
      = digits_value (((decimal (?h div 100) @ ''.'') @ [digit (?h div 10)]) @ [digit ?h])"
    by simp
  also have "\<dots> = 10 * (10 * (?h div 100) + ?h div 10 mod 10) + ?h mod 10"
    by (simp only: digits_value_snoc) (simp add: digits_value_other digits_value_decimal)
  also have "\<dots> = ?h"
    using div_mult2_eq [of ?h 10 10] mult_div_mod_eq [of 10 "?h div 10"] mult_div_mod_eq [of 10 ?h] by simp
  finally have "digits_value (fixed2 x) = ?h"
    unfolding shape by (simp add: digits_value_other)
  moreover have "0 \<le> mag_rat (f32_mag x)"
    using mag_rat_pos [of "f32_mag x"] by (cases "f32_mag x = 0") auto
  moreover from this round_even_half [of "100 * mag_rat (f32_mag x)"] round_even_nonneg [of "100 * mag_rat (f32_mag x)"]
  have "\<bar>of_nat ?h - 100 * mag_rat (f32_mag x)\<bar> \<le> 1 / 2"
    by (simp add: hundredths_def)
  moreover from this have "\<bar>of_nat ?h / 100 - mag_rat (f32_mag x)\<bar> \<le> 1 / 200"
    unfolding abs_le_iff by linarith
  ultimately show "\<bar>of_nat (digits_value (fixed2 x)) / 100 - \<bar>f32_rat x\<bar>\<bar> \<le> 1 / 200"
    by (simp add: f32_rat_def)
  have "hd (decimal n) \<noteq> CHR ''-''" for n
  proof (induction n rule: less_induct)
    case (less n)
    have "digit n \<noteq> CHR ''-''"
    proof
      assume "digit n = CHR ''-''"
      then have "of_char (digit n) = (45 :: nat)" by simp
      then show False by (simp add: digit_def)
    qed
    with less [of "n div 10"] ne show ?case
      by (subst decimal_snoc) (auto simp: hd_append)
  qed
  with ne show "(hd (fixed2 x) = CHR ''-'') = f32_neg x"
    unfolding shape by (simp add: hd_append)
qed

section \<open>The limits of the command\<close>

definition enmanGrid :: GridConfig where
  "enmanGrid = \<lparr>gc_voltage = f32_of_int 230, gc_maxCurrentPerPhase = f32_of_int 25, gc_phases = 3\<rparr>"

definition enmanLimits :: go_map where
  "enmanLimits = [(''phases'', AnyUint8 3), (''voltage'', AnyFloat32 (f32_of_int 230)),
     (''max_current_per_phase'', AnyFloat32 (f32_of_int 25)), (''max_total_power'', AnyUint32 17250)]"

lemma volts: "f32_finite (f32_of_int 230)" "f32_rat (f32_of_int 230) = 230" "\<not> f32_neg (f32_of_int 230)"
  and amps: "f32_finite (f32_of_int 25)" "f32_rat (f32_of_int 25) = 25" "\<not> f32_neg (f32_of_int 25)"
  using f32_of_int_exact [of 230] f32_of_int_exact [of 25] by simp_all

lemma watts: "f32_mul (f32_of_int 25) (f32_of_int 230) = f32_of_int 5750"
proof -
  have "f32_of_int 5750 = f32_round False 5750"
    by (simp add: f32_of_int_def f32_of_rat_def)
  with volts amps show ?thesis
    by (simp add: f32_mul_def Let_def f32_finite_def f32_nan_def f32_inf_def)
qed

lemma enmanGrid_accepted: "NewGridConfig (f32_of_int 230) (f32_of_int 25) 3 = Ok enmanGrid"
proof -
  have "f32_rat MinCurrentPerPhase < 1"
    using min_current(2) unfolding abs_le_iff by simp
  then show ?thesis
    using volts amps
    by (simp add: NewGridConfig_def Let_def gc_SetVoltage_def setMaxCurrentPerPhase_def SetPhases_def MinPhases_def MaxPhases_def
        f32_less_rat limits_rat min_current(1) enmanGrid_def)
qed

lemma enmanGrid_ToMap: "gc_ToMap enmanGrid = Some enmanLimits"
proof -
  have "f32_to_uint32 (f32_of_int 5750) = Some 5750"
    using f32_of_int_exact [of 5750] by (simp add: f32_to_uint32_def)
  then show ?thesis
    by (simp add: gc_ToMap_def MaxTotalPower_def MaxPowerPerPhase_def enmanGrid_def watts enmanLimits_def)
qed

lemma enmanLimits_json: "json_ok (AnyMap enmanLimits)"
  using volts(1) amps(1) by (simp add: enmanLimits_def)

section \<open>Clean paths\<close>

definition clean_part :: "string \<Rightarrow> bool" where
  "clean_part part \<longleftrightarrow> part \<noteq> [] \<and> part \<noteq> ''.'' \<and> part \<noteq> ''..'' \<and> CHR ''/'' \<notin> set part"

lemma split_slash_nonempty [simp]: "split_slash s \<noteq> []"
  by (cases s) simp_all

lemma split_slash_parts: "part \<in> set (split_slash s) \<Longrightarrow> CHR ''/'' \<notin> set part"
proof (induction s arbitrary: part)
  case (Cons c s)
  have "hd (split_slash s) \<in> set (split_slash s)" "set (tl (split_slash s)) \<subseteq> set (split_slash s)"
    by (cases "split_slash s"; auto)+
  with Cons show ?case by (auto split: if_splits)
qed simp

lemma split_slash_append: "CHR ''/'' \<notin> set part \<Longrightarrow> split_slash (part @ CHR ''/'' # s) = part # split_slash s"
  "CHR ''/'' \<notin> set part \<Longrightarrow> split_slash part = [part]"
  by (induction part) auto

lemma split_join:
  "CHR ''/'' \<notin> set part \<Longrightarrow> \<forall>part\<in>set parts. CHR ''/'' \<notin> set part \<Longrightarrow> split_slash (part @ join_slash parts) = part # parts"
  by (induction parts arbitrary: part) (simp_all add: join_slash_def split_slash_append)

lemma path_steps_clean:
  "list_all clean_part parts \<Longrightarrow> \<forall>part\<in>set rest. CHR ''/'' \<notin> set part \<Longrightarrow> list_all clean_part (fold path_step rest parts)"
proof (induction rest arbitrary: parts)
  case (Cons part rest)
  have "list_all clean_part (butlast parts)"
    using Cons.prems(1) in_set_butlastD unfolding list_all_iff by fast
  then have "list_all clean_part (path_step part parts)"
    using Cons.prems by (simp add: path_step_def clean_part_def [of part])
  with Cons.IH Cons.prems(2) show ?case by simp
qed simp

lemma path_steps_same: "list_all clean_part rest \<Longrightarrow> fold path_step rest parts = parts @ rest"
  by (induction rest arbitrary: parts) (auto simp: path_step_def clean_part_def)

text \<open>A path that \<open>ServeMux\<close> redirects to is not redirected again.\<close>

lemma cleanPath_clean: "cleanPath (cleanPath path) = cleanPath path"
proof -
  obtain parts slash where p: "cleanPath path = (if parts = [] then ''/'' else join_slash parts @ (if slash then ''/'' else []))"
    "list_all clean_part parts"
    using path_steps_clean [of "[]"] split_slash_parts unfolding cleanPath_def Let_def by (metis list.pred_inject(1))
  show ?thesis
  proof (cases "parts = []")
    case False
    define ps where "ps = parts @ (if slash then [[]] else [])"
    have ps: "cleanPath path = join_slash ps" "\<forall>part\<in>set ps. CHR ''/'' \<notin> set part" "fold path_step ([] # ps) [] = parts"
      using p False path_steps_same [OF p(2)] by (auto simp: ps_def join_slash_def list_all_iff clean_part_def path_step_def)
    have "clean_part (last parts)"
      using p(2) False by (simp add: list_all_iff)
    then have last: "last (join_slash parts) \<noteq> CHR ''/''"
      using False by (cases parts rule: rev_cases) (auto simp: join_slash_def clean_part_def dest: last_in_set)
    have ne: "ps \<noteq> []" "hd (join_slash ps) = CHR ''/''" "join_slash ps \<noteq> []"
      using False by (auto simp: ps_def join_slash_def hd_append neq_Nil_conv)
    have "cleanPath (join_slash ps) = join_slash parts @ (if last (join_slash ps) = CHR ''/'' then ''/'' else [])"
      using ps(3) ne False split_join [of "[]" ps] ps(2) by (simp add: cleanPath_def Let_def)
    also have "\<dots> = join_slash ps"
      using last by (simp add: ps_def join_slash_def)
    finally show ?thesis using ps(1) by simp
  next
    case True
    then have "cleanPath path = ''/''" by (simp add: p(1))
    then show ?thesis by (simp add: cleanPath_def path_step_def)
  qed
qed

section \<open>Answers\<close>

text \<open>What the command shows of a grid with its limits: texts and JSON documents of finite readings.\<close>

definition grid_json :: "EnergyFlowBase \<Rightarrow> any" where
  "grid_json flow =
     AnyMap [(''system'', AnyMap [(''grid'', AnyMap (AList.update ''config'' (AnyMap enmanLimits) (flow_ToMap flow)))])]"

definition page :: "EnergyFlowBase \<Rightarrow> string \<Rightarrow> answer" where
  "page flow path =
     (if cleanPath path \<noteq> path then Moved (cleanPath path)
      else if path = ''/api'' then Json (grid_json flow) else Text (usage ''Phases: '' flow))"

fun screen :: "(nat \<Rightarrow> EnergyFlowBase) \<Rightarrow> nat \<Rightarrow> event list \<Rightarrow> shown list" where
  "screen flow n [] = []"
| "screen flow n (Tick # es) = screen flow (Suc n) es"
| "screen flow n (Usage # es) = Printed [usage ''Phases: '' (flow n)] # screen flow n es"
| "screen flow n (Get path # es) = Answered (page (flow n) path) # screen flow n es"

text \<open>The readings of the grid after n ticks.\<close>

definition readings :: "'m ModbusConfig \<Rightarrow> 'm \<Rightarrow> (modbusGrid, modbusPv) System \<Rightarrow> nat \<Rightarrow> EnergyFlowBase option" where
  "readings config client s n = do {
     (client', s') \<leftarrow> readTicks n config client s;
     map_option (\<lambda>g. gb_flow (mg_GridBase g)) (sys_grid s') }"

definition enman_system :: "(modbusGrid, modbusPv) System \<Rightarrow> bool" where
  "enman_system s \<longleftrightarrow> system_ok s \<and> sys_pvs s = None \<and> (\<exists>g. sys_grid s = Some g \<and> gb_gridConfig (mg_GridBase g) = Some enmanGrid)"

lemma enman_system_shows:
  assumes "enman_system s"
  obtains g where "sys_grid s = Some g" "flow_fine (gb_flow (mg_GridBase g))"
    "printUsage s = [usage ''Phases: '' (gb_flow (mg_GridBase g))]" "\<And>path. enman_mux path s = page (gb_flow (mg_GridBase g)) path"
proof -
  obtain g where g: "sys_grid s = Some g" "gb_gridConfig (mg_GridBase g) = Some enmanGrid" "sys_pvs s = None"
    using assms by (auto simp: enman_system_def)
  let ?flow = "gb_flow (mg_GridBase g)"
  have fine: "flow_fine ?flow"
    using assms g(1) by (simp add: enman_system_def system_ok_def)
  have map: "sys_ToMap (\<lambda>g. gb_ToMap (mg_GridBase g)) (\<lambda>p. flow_ToMap (pv_flow (mp_PvBase p))) s
      = Some [(''grid'', AnyMap (AList.update ''config'' (AnyMap enmanLimits) (flow_ToMap ?flow)))]"
    by (simp add: sys_ToMap_def gb_ToMap_def g enmanGrid_ToMap)
  have "json_ok (grid_json ?flow)"
    using json_ok_update [OF flow_json [OF fine] enmanLimits_json] by (simp add: grid_json_def)
  then have "dataAsJson s = Json (grid_json ?flow)"
    unfolding dataAsJson_def map by (simp add: grid_json_def Let_def)
  then have "enman_mux path s = page ?flow path" for path
    by (simp add: enman_mux_def page_def printStatusAsHtml_def g)
  moreover have "printUsage s = [usage ''Phases: '' ?flow]"
    by (simp add: printUsage_def g)
  ultimately show thesis using g(1) fine that by blast
qed

lemma enman_system_same: "enman_system s \<Longrightarrow> system_ok s' \<Longrightarrow> same_system s s' \<Longrightarrow> enman_system s'"
  by (auto simp: enman_system_def same_system_def same_grid_def option_rel_Some1)

lemma screen_later: "screen (\<lambda>n. flow (Suc n)) n es = screen flow (Suc n) es"
  by (induction flow n es rule: screen.induct) simp_all

context meter_updates begin

lemma readings_fine:
  assumes "minv m" "enman_system s"
  shows "\<exists>flow. readings config m s n = Some flow \<and> flow_fine flow"
proof -
  obtain m' s' where 1: "readTicks n config m s = Some (m', s')" "system_ok s'" "same_system s s'"
    using readTicks_ok [OF assms(1)] assms(2) by (meson enman_system_def)
  with enman_system_same [OF assms(2) 1(2,3)] show ?thesis
    by (elim enman_system_shows) (simp add: readings_def)
qed

lemma enman_run_shows:
  assumes "minv m" "enman_system s"
  shows "enman_run config m s es = Some (screen (\<lambda>n. the (readings config m s n)) 0 es)"
  using assms
proof (induction es arbitrary: m s)
  case (Cons e es)
  obtain g where g: "sys_grid s = Some g" "printUsage s = [usage ''Phases: '' (gb_flow (mg_GridBase g))]"
    "\<And>path. enman_mux path s = page (gb_flow (mg_GridBase g)) path"
    using enman_system_shows [OF Cons.prems(2)] by blast
  then have first: "readings config m s 0 = Some (gb_flow (mg_GridBase g))"
    by (simp add: readings_def)
  show ?case
  proof (cases e)
    case Tick
    from readSystemValues_ok [OF Cons.prems(1)] Cons.prems(2) obtain m1 s1
      where 1: "readSystemValues config m s = Some (m1, s1)" "minv m1" "enman_system s1"
      using enman_system_same by (meson enman_system_def)
    then have "(\<lambda>n. the (readings config m1 s1 n)) = (\<lambda>n. the (readings config m s (Suc n)))"
      by (simp add: readings_def)
    with Cons.IH [OF 1(2,3)] 1(1) Tick show ?thesis
      by (simp add: screen_later [of "\<lambda>n. the (readings config m s n)"])
  next
    case Usage
    with Cons.IH [OF Cons.prems] first show ?thesis by (simp add: g(2))
  next
    case (Get path)
    with Cons.IH [OF Cons.prems] first show ?thesis by (simp add: g(3))
  qed
qed simp

end

context client_environment begin

lemma enman_main_shows:
  "(\<exists>e. \<forall>es. enman_main P S D es = Some (Err e))
    \<or> (\<exists>s mc flow. NewVictronSystem (connectClient P S D) (anyTransportOps P S) ''tcp://einstein.energy.cleme:502'' (Some enmanGrid) (Some 31) [] = Some (Ok (s, mc))
        \<and> (\<forall>n. flow_fine (flow n) \<and> readings (victronConfig (anyTransportOps P S) ''tcp://einstein.energy.cleme:502'' (Some enmanGrid) (Some 31) []) mc s n = Some (flow n))
        \<and> (\<forall>es. enman_main P S D es = Some (Ok (screen flow 0 es))))"
proof -
  let ?url = "''tcp://einstein.energy.cleme:502''" and ?T = "anyTransportOps P S"
  let ?config = "victronConfig ?T ?url (Some enmanGrid) (Some 31) [] :: ('c, 'p, ('q, 's) anyTransport) ModbusClient ModbusConfig"
  obtain r where r: "connectClient P S D (clientConfiguration ?config) = Some r"
    "\<forall>mc. r = Ok mc \<longrightarrow> client_inv (any_inv pinv linv uinv) mc"
    using connectClient_returns by blast
  show ?thesis
  proof (cases r)
    case (Inl e)
    with r have "\<forall>es. enman_main P S D es = Some (Err e)"
      by (simp add: enman_main_def enmanGrid_accepted NewVictronSystem_def NewModbusSystem_def Let_def)
    then show ?thesis by blast
  next
    case (Inr mc)
    have "?config \<noteq> carloGavazziConfig ?T ?url (Some enmanGrid) (Some 31) []"
      by (simp add: carloGavazziConfig_def victronConfig_def)
    moreover have "\<exists>r'. NewModbusSystem (connectClient P S D) ?config = Some r'
        \<and> (case r' of Inl _ \<Rightarrow> ?config = carloGavazziConfig ?T ?url (Some enmanGrid) (Some 31) [] \<and> Some (31 :: uint8) \<noteq> None
           | Inr (s, mc') \<Rightarrow> client_inv (any_inv pinv linv uinv) mc' \<and> sys_pvs s = None
              \<and> rel_option (new_grid (Some enmanGrid)) (Some 31) (sys_grid s) \<and> system_ok s)"
      by (rule any.new_system) (use r Inr in simp_all)
    ultimately obtain r' s mc' where "r' = Ok (s, mc')" and r': "NewModbusSystem (connectClient P S D) ?config = Some r'"
      "client_inv (any_inv pinv linv uinv) mc' \<and> sys_pvs s = None
         \<and> rel_option (new_grid (Some enmanGrid)) (Some 31) (sys_grid s) \<and> system_ok s"
      by (elim exE conjE) (case_tac "r'"; force)
    with r' have s: "NewModbusSystem (connectClient P S D) ?config = Some (Ok (s, mc'))"
      "client_inv (any_inv pinv linv uinv) mc'" "sys_pvs s = None" "rel_option (new_grid (Some enmanGrid)) (Some 31) (sys_grid s)" "system_ok s"
      by simp_all
    then have "enman_system s"
      by (auto simp: enman_system_def option_rel_Some1 new_grid_def NewGrid_def)
    let ?flow = "\<lambda>n. the (readings ?config mc' s n)"
    from meter_updates.enman_run_shows [OF any.victron_updates s(2) \<open>enman_system s\<close>]
    have "enman_main P S D es = Some (Ok (screen ?flow 0 es))" for es
      using s(1) by (simp add: enman_main_def enmanGrid_accepted NewVictronSystem_def Let_def)
    moreover have "flow_fine (?flow n) \<and> readings ?config mc' s n = Some (?flow n)" for n
    proof -
      obtain f where "readings ?config mc' s n = Some f" "flow_fine f"
        using meter_updates.readings_fine [OF any.victron_updates s(2) \<open>enman_system s\<close>] by blast
      then show ?thesis by simp
    qed
    moreover have "NewVictronSystem (connectClient P S D) ?T ?url (Some enmanGrid) (Some 31) [] = Some (Ok (s, mc'))"
      using s(1) by (simp add: NewVictronSystem_def)
    ultimately show ?thesis
      by (intro disjI2 exI [of _ s] exI [of _ mc'] exI [of _ ?flow]) simp
  qed
qed

end

section \<open>Properties\<close>



end
