(* ===== verification/Certificates.thy ===== *)
theory Certificates
  imports Client_Config
begin

text \<open>
  internal/modbus/tls_utils.go: loading the certificates that a TLS client or server is configured with.
  Reading a file and the pools of crypto/x509 are parameters.
\<close>

record 'p x509 =
  NewCertPool :: 'p
  AppendCertsFromPEM :: "byte list \<Rightarrow> 'p \<Rightarrow> 'p"
  Subjects :: "'p \<Rightarrow> byte list list"

text \<open>Both results are set when no certificate was found.\<close>

definition LoadCertPool :: "(string \<Rightarrow> byte list result) \<Rightarrow> 'p x509 \<Rightarrow> string \<Rightarrow> 'p option \<times> go_error option" where
  "LoadCertPool readFile X filePath =
     (case readFile filePath of
        Inl err \<Rightarrow> (None, Some err)
      | Inr buf \<Rightarrow>
          if length buf = 0 then (None, Some (OtherError ''%v: empty file''))
          else
            let cp = AppendCertsFromPEM X buf (NewCertPool X) in
            if length (Subjects X cp) = 0 then (Some cp, Some (OtherError ''%v: no certificate found''))
            else (Some cp, None))"

text \<open>A pool that was loaded has a certificate, so that a TLS client is not refused for the lack of it.\<close>

lemma LoadCertPool_ok:
  "snd (LoadCertPool readFile X filePath) = None \<longleftrightarrow>
     (\<exists>buf. readFile filePath = Ok buf \<and> buf \<noteq> [] \<and> Subjects X (AppendCertsFromPEM X buf (NewCertPool X)) \<noteq> []
        \<and> fst (LoadCertPool readFile X filePath) = Some (AppendCertsFromPEM X buf (NewCertPool X)))"
  by (auto simp: LoadCertPool_def Let_def split: sum.splits if_splits)

lemma loaded_pool_is_accepted:
  assumes "LoadCertPool readFile X filePath = (cas, None)" "cc_TLSClientCert conf \<noteq> None" "cc_URL conf = ''tcp+tls'' @ ''://'' @ host"
  shows "fst (NewClient (conf\<lparr>cc_TLSRootCAs := cas\<rparr>)) = Ok ()"
proof -
  have "cas \<noteq> None"
    using LoadCertPool_ok [of readFile X filePath] assms(1) by auto
  moreover have "splitURL (cc_URL conf) = [''tcp+tls'', host]"
    unfolding assms(3) by (rule splitURL_scheme) simp
  ultimately show ?thesis
    using assms(2) by (auto simp: NewClient_def newTimeout_def Let_def)
qed

end
