(* ===== verification/Logger.thy ===== *)
theory Logger
  imports Go_Prelude
begin

text \<open>
  internal/modbus/logger.go: the messages of clients, servers and transports, to standard output or to a
  \<open>log.Logger\<close> of the user.  The other theories leave the messages out, as no result of a log call is used.
\<close>

text \<open>
  A custom logger is a reference \<open>'r\<close>; the world holds what was written to standard output and what
  each logger was given to print.  \<open>fmt.Sprintf\<close> of a message with arguments is a parameter.
\<close>

record 'r logger =
  lg_prefix :: string
  lg_customLogger :: "'r option"

record 'r logs =
  stdout :: string
  printed_by :: "'r \<Rightarrow> string list"

definition newLogger :: "string \<Rightarrow> 'r option \<Rightarrow> 'r logger" where
  "newLogger prefix customLogger = \<lparr>lg_prefix = prefix, lg_customLogger = customLogger\<rparr>"

definition logger_write :: "'r logger \<Rightarrow> string \<Rightarrow> 'r logs \<Rightarrow> 'r logs" where
  "logger_write l msg w =
     (case lg_customLogger l of
        None \<Rightarrow> w\<lparr>stdout := stdout w @ msg\<rparr>
      | Some r \<Rightarrow> w\<lparr>printed_by := (printed_by w)(r := printed_by w r @ [msg])\<rparr>)"

definition logger_Info :: "'r logger \<Rightarrow> string \<Rightarrow> 'r logs \<Rightarrow> 'r logs" where
  "logger_Info l msg = logger_write l (lg_prefix l @ '' [info]: '' @ msg @ [CHR 0x0A])"

definition logger_Infof :: "(string \<Rightarrow> 'a list \<Rightarrow> string) \<Rightarrow> 'r logger \<Rightarrow> string \<Rightarrow> 'a list \<Rightarrow> 'r logs \<Rightarrow> 'r logs" where
  "logger_Infof sprintf l fmt msg = logger_write l (lg_prefix l @ '' [info]: '' @ sprintf fmt msg @ [CHR 0x0A])"

definition logger_Warning :: "'r logger \<Rightarrow> string \<Rightarrow> 'r logs \<Rightarrow> 'r logs" where
  "logger_Warning l msg = logger_write l (lg_prefix l @ '' [warn]: '' @ msg @ [CHR 0x0A])"

definition logger_Warningf :: "(string \<Rightarrow> 'a list \<Rightarrow> string) \<Rightarrow> 'r logger \<Rightarrow> string \<Rightarrow> 'a list \<Rightarrow> 'r logs \<Rightarrow> 'r logs" where
  "logger_Warningf sprintf l fmt msg = logger_write l (lg_prefix l @ '' [warn]: '' @ sprintf fmt msg @ [CHR 0x0A])"

definition logger_Error :: "'r logger \<Rightarrow> string \<Rightarrow> 'r logs \<Rightarrow> 'r logs" where
  "logger_Error l msg = logger_write l (lg_prefix l @ '' [error]: '' @ msg @ [CHR 0x0A])"

definition logger_Errorf :: "(string \<Rightarrow> 'a list \<Rightarrow> string) \<Rightarrow> 'r logger \<Rightarrow> string \<Rightarrow> 'a list \<Rightarrow> 'r logs \<Rightarrow> 'r logs" where
  "logger_Errorf sprintf l fmt msg = logger_write l (lg_prefix l @ '' [error]: '' @ sprintf fmt msg @ [CHR 0x0A])"

text \<open>With the exit code of the program.\<close>

definition logger_Fatal :: "'r logger \<Rightarrow> string \<Rightarrow> 'r logs \<Rightarrow> 'r logs \<times> int" where
  "logger_Fatal l msg w = (logger_Error l msg w, 1)"

definition logger_Fatalf ::
  "(string \<Rightarrow> 'a list \<Rightarrow> string) \<Rightarrow> 'r logger \<Rightarrow> string \<Rightarrow> 'a list \<Rightarrow> 'r logs \<Rightarrow> 'r logs \<times> int" where
  "logger_Fatalf sprintf l fmt msg w = (logger_Errorf sprintf l fmt msg w, 1)"

text \<open>Messages to different places do not mix, and those to one place keep their order.\<close>

lemma logger_write_commute:
  "lg_customLogger l1 \<noteq> lg_customLogger l2 \<Longrightarrow>
   logger_write l1 m1 (logger_write l2 m2 w) = logger_write l2 m2 (logger_write l1 m1 w)"
  by (auto simp: logger_write_def fun_upd_twist split: option.splits)

lemma logger_write_order:
  "fold (\<lambda>m. logger_write l m) ms w =
     (case lg_customLogger l of
        None \<Rightarrow> w\<lparr>stdout := stdout w @ concat ms\<rparr>
      | Some r \<Rightarrow> w\<lparr>printed_by := (printed_by w)(r := printed_by w r @ ms)\<rparr>)"
  by (induction ms arbitrary: w) (auto simp: logger_write_def split: option.splits)

end
