(* ===== verification/Spec2Isabelle.thy ===== *)
theory Spec2Isabelle
  imports Server_Pool Serial_Windows Serial_Unix Dashboard Certificates Logger
begin

text \<open>
  \<^bold>\<open>Verification of enman.\<close>

  enman reads the energy meters of a grid and of PV installations over Modbus and shows the readings
  (\<open>src/pkg/energysource\<close>, \<open>src/internal/energysource\<close>).  Its core is a Modbus client and server
  (\<open>src/internal/modbus\<close>) over TCP, TLS, UDP and serial lines, with its own serial port driver
  (\<open>src/internal/serial\<close>).  A client turns a method call into a request PDU, the transport frames it
  (MBAP over TCP and UDP, RTU with a CRC over serial lines and tunnels of them), the link moves the
  bytes; the server reads frames, validates each request, calls the user's handler and frames
  the reply.

  \<^bold>\<open>Conventions.\<close>  Machine integers are words of their width (\<open>uint8\<close>, \<open>uint16\<close>, \<open>uint32\<close>, \<open>uint64\<close>, and
  \<open>uint\<close> of 64 bits), \<open>time.Duration\<close> and \<open>time.Time\<close> are nanoseconds as \<open>int\<close>, slices are lists, strings
  are \<open>string\<close>.  A Go error is a value of \<open>go_error\<close>, \<open>nil\<close> is \<open>None\<close>, and a pair of a value and an error
  that excludes one or the other is a \<open>result\<close>.  Outside of these, an \<open>option\<close> around a whole call
  is a panic or a loop that does not end: indexing and slicing out of range yield \<open>None\<close>, and loops
  that need not end are \<open>partial_function (option)\<close>, so that every theorem of the form
  \<open>f x = Some y\<close> says that the call returns.  Interfaces (\<open>rtuLink\<close>, \<open>transport\<close>, \<open>Port\<close>, \<open>RequestHandler\<close>,
  the kernel \<open>os\<close>, \<open>tlsServer\<close>, \<open>dialer\<close>) are records of their methods over a state; methods with a
  pointer receiver return the new state.

  \<^bold>\<open>Theories, in the order of their dependence.\<close>
  \<^item> \<open>Go_Prelude\<close>: errors, results, indexing and slicing with panics, byte orders of words.
  \<^item> \<open>Modbus_Pdu\<close> (modbus.go): PDUs, function and exception codes, the error mapping.
  \<^item> \<open>Encoding\<close> (encoding.go): conversions between registers, 32-bit and 64-bit values, floats as bit
    patterns and bytes, packed coils.  Both directions are inverse in all byte and word orders.
  \<^item> \<open>Server\<close> (server.go, \<open>handleTransport\<close>): one definition per case of the switch, the error mapping
    and the loop.  \<open>Modbus_Spec\<close> is the protocol as a specification, a datatype of requests with
    its decoder and the answer to each; the switch implements it on every PDU.
  \<^item> \<open>Rtu_Link\<close> (the interface \<open>rtuLink\<close>, \<open>io.ReadFull\<close>): the locales \<open>byte_reader\<close>, \<open>byte_link\<close> and
    \<open>timed_link\<close> say what a link promises, and \<open>io.ReadFull\<close> is proved to terminate under them.  \<open>traced\<close> is a link
    that records the times at which it is written and read, for statements about their order and times.
  \<^item> \<open>Net_Conn\<close> (udp.go): stream sockets as an instance of both locales, datagram sockets, and the
    UDP wrapper, which turns the second into the first (a \<open>sublocale\<close>).
  \<^item> \<open>Tcp_Transport\<close> (tcp_transport.go) against a pure parser of MBAP streams, and \<open>Crc\<close> (crc.go) with
    \<open>Rtu_Transport\<close> (rtu_transport.go) against a pure parser of RTU streams; both inside the link locales.  The silence
    before and after a frame is proved of the recorded times.
  \<^item> \<open>Server_Session\<close>: the server loop over a socket is a function of the bytes received.
  \<^item> \<open>Client\<close> (client.go): every method as one request of the specification, and for the byte writes, whose argument is
    a prefix of an array, what becomes of that array; \<open>Client_Calls\<close>: any
    sequence of calls on any transport that keeps its contract; \<open>Client_Server\<close>: a client call over TCP
    returns what the handler of the server returned.
  \<^item> \<open>Serial_Wrapper\<close> (serial.go of both packages) and \<open>Serial_Posix\<close> (serial_posix.go, serial_linux.go,
    termios_linux.go): the locale \<open>serial_port\<close> is enough for a request over a serial line to come
    back, and the POSIX port on a kernel with the laws of \<open>posix_kernel\<close> is a \<open>serial_port\<close>.
  \<^item> \<open>Serial_Unix\<close> (serial_bsd.go, serial_darwin.go, serial_openbsd.go, termios_*.go): \<open>newTermios\<close> over the tables and
    constants of each platform, and the locale \<open>termios_layout\<close> for what a terminal reads from its flags and speeds; on Linux
    the settings are those of \<open>Serial_Posix\<close>.
  \<^item> \<open>Serial_Windows\<close> (serial_windows.go, ztypes_windows.go): the port of Windows over its API is another
    \<open>serial_port\<close> (\<open>windows_system\<close>); handles and settings after opening and closing.
  \<^item> \<open>Client_Config\<close> (\<open>NewClient\<close>, \<open>Open\<close>), \<open>Server_Config\<close> (\<open>NewServer\<close>, TLS and roles): which configurations
    are accepted, the defaults, and what is opened or served for them.
  \<^item> \<open>Server_Pool\<close> (\<open>Start\<close>, \<open>Stop\<close>, \<open>acceptTCPClients\<close>, \<open>handleTCPClient\<close>): the operations under the lock are
    functions, the goroutines an inductive, labelled step relation over a \<open>world\<close>; an invariant of
    all reachable worlds and a measure that runs out once the server is stopped.
  \<^item> \<open>Go_Float32\<close>: \<open>float32\<close> as bit patterns, with conversions, comparison and arithmetic as IEEE binary32
    with rounding to nearest even, computed over the rationals; integers below 2^24 are exact, and
    the error of a quotient and of a product is bounded.
  \<^item> \<open>Energy_Flow\<close> (EnergyFlow.go, Grid.go, Pv.go, System.go): readings, limits and the maps shown of them.
  \<^item> \<open>Modbus_System\<close> (ModbusSystem.go): \<open>NewModbusSystem\<close>, the reading of registers into a flow and the
    reading loop, tick by tick; the locale \<open>meter_updates\<close> is what the loop relies on.
  \<^item> \<open>Meters\<close> (CarloGavazzi.go, Victron.go): the initialization and the updates of the two kinds of meter,
    as instances of \<open>meter_updates\<close> over every transport with the contract (\<open>sublocale\<close>), which the RTU transport
    over a POSIX serial port has too.
  \<^item> \<open>Any_Transport\<close>: the transports of a client that was opened from a URL, over any of its links, keep the
    contract (\<open>link_embedding\<close>, \<open>client_links\<close>); \<open>Enman\<close>: from the URL of a meter to its readings
    (\<open>client_environment\<close>), and CarloGReader.go; \<open>Dashboard\<close> (EnMan.go): the texts and JSON documents of the
    readings, and the whole command over any sequence of events, with the paths that \<open>ServeMux\<close> redirects.
  \<^item> \<open>Certificates\<close> (tls_utils.go) and \<open>Logger\<close> (logger.go).

  \<^bold>\<open>Bounds and fuel.\<close>  The only fuel is that of \<open>selectLoop\<close>: the number of signals that can still
  interrupt the call, which the kernel state counts, plus one.  The maximum frame lengths (260 and
  256 bytes) are those of the code.  The lemmas that bound a loop by a measure are in the locales.

  \<^bold>\<open>Laws of code that is not here.\<close>  They are the assumptions of the locales and are discharged on
  concrete models: sockets (\<open>Net_Conn\<close>, \<open>Any_Transport\<close>), a kernel with a clock, descriptors and a serial
  line (\<open>Serial_Posix\<close>) and a system with handles and settings (\<open>Serial_Windows\<close>).  crypto/tls and encoding/asn1 are parameters without laws but one, that a handshake
  keeps a connection open.

  \<^bold>\<open>Limits of the model.\<close>  A socket has received a finite stream and its reads return at once, with the error of the
  deadline when there is nothing left, so that waiting is not represented there; it is on serial ports, whose kernel
  has a clock.  A read returns the bytes that it stored: the number -1 that \<open>syscall.Read\<close> returns with an error is 0
  here (\<open>posix_Read\<close>).  The capacity of a slice is modelled where a caller can see it (\<open>byte_slice\<close>).

  \<^bold>\<open>Not modelled.\<close>  The generated bindings of the Windows API (its calls are parameters of the port); the
  port over a BSD or Darwin kernel, whose code is the one of \<open>Serial_Posix\<close> over the functions of \<open>Serial_Unix\<close>;
  the messages that the parts log, as no result of a log call is used; data races of goroutines outside the lock, except for the
  field of the listener, which is in the step relation.  Of the reading and printing loops a tick is
  modelled, not the ticker nor the finalizer that is meant to end it; readings that are shown while
  they are updated are data races.  Of \<open>net/http\<close> there are the handlers and the routes: the connections,
  the header of the answers and a port that is in use are left out.  The order of the keys of a Go map is not in the
  documents, which are association lists.
\<close>

end
